(* ===== verification/Census_Prelude.thy ===== *)
theory Census_Prelude
  imports Main "HOL-Library.Word" "HOL-Library.List_Lexorder" "HOL-Library.Char_ord"
    "HOL-Library.Product_Lexorder" "HOL-Library.Option_ord" "HOL-Library.Multiset"
begin

text \<open>
  Shared vocabulary of the development: the machine integers of the source, Rust's
  \<open>Result\<close> as a sum type, a state-and-error computation for code that mutates the
  outside world, \<open>BTreeMap\<close> as a sorted association list behind an interface, the
  string operations the source uses of the Rust standard library, and the generic
  lemmas the component theories rest on.

  A Rust \<open>String\<close> or \<open>str\<close> is the list of its UTF-8 bytes (\<open>string\<close>, a list of
  8-bit characters); operations that the source performs per Unicode scalar value are
  written on the encoding.  A \<open>PathBuf\<close> is the string it was built from, compared
  by its components as \<open>std::path\<close> does.
\<close>

named_theorems census_defs \<open>definitions unfolded by the component proofs\<close>
named_theorems frame \<open>what an operation leaves unchanged\<close>

type_synonym u8 = "8 word"
type_synonym u32 = "32 word"
type_synonym u64 = "64 word"
type_synonym path = string

declare split_paired_All [simp del] split_paired_Ex [simp del]

lemma word_one_le_iff: "(1 :: u32) \<le> w \<longleftrightarrow> w \<noteq> 0"
  using linorder_not_less [of w 1] by simp

subsection \<open>Results and computations over the world\<close>

abbreviation Ok :: "'a \<Rightarrow> 'e + 'a" where "Ok \<equiv> Inr"
abbreviation Err :: "'e \<Rightarrow> 'e + 'a" where "Err \<equiv> Inl"

definition map_err :: "('e \<Rightarrow> 'f) \<Rightarrow> 'e + 'a \<Rightarrow> 'f + 'a" where
  "map_err f r = (case r of Err e \<Rightarrow> Err (f e) | Ok x \<Rightarrow> Ok x)"

lemma map_err_simps [simp]:
  "map_err f (Inl e) = Inl (f e)" "map_err f (Inr x) = Inr x"
  by (simp_all add: map_err_def)

text \<open>The \<open>?\<close> operator on a pure result.\<close>

definition try_bind :: "'e + 'a \<Rightarrow> ('a \<Rightarrow> 'e + 'b) \<Rightarrow> 'e + 'b" where
  "try_bind r f = (case r of Err e \<Rightarrow> Err e | Ok x \<Rightarrow> f x)"

lemma try_bind_simps [simp]:
  "try_bind (Inl e) f = Inl e" "try_bind (Inr x) f = f x"
  by (simp_all add: try_bind_def)

lemma try_bind_Ok_iff: "try_bind r f = Inr y \<longleftrightarrow> (\<exists>x. r = Inr x \<and> f x = Inr y)"
  by (cases r) auto

lemma map_err_Ok_iff [simp]: "map_err f r = Inr x \<longleftrightarrow> r = Inr x"
  by (cases r) simp_all

lemma try_bind_pair_Ok_iff:
  "try_bind r (\<lambda>(a, b). f a b) = Inr y \<longleftrightarrow> (\<exists>a b. r = Inr (a, b) \<and> f a b = Inr y)"
  by (cases r) (auto simp: split_beta)

lemma try_bind_Err_iff:
  "try_bind r f = Inl e \<longleftrightarrow> r = Inl e \<or> (\<exists>x. r = Inr x \<and> f x = Inl e)"
  by (cases r) auto

text \<open>A computation that may change the world \<open>'w\<close> and returns a result.\<close>

type_synonym ('w, 'e, 'a) comp = "'w \<Rightarrow> ('e + 'a) \<times> 'w"

definition seq :: "('w, 'e, 'a) comp \<Rightarrow> ('a \<Rightarrow> ('w, 'e, 'b) comp) \<Rightarrow> ('w, 'e, 'b) comp" where
  "seq m f w = (case m w of (Err e, w') \<Rightarrow> (Err e, w') | (Ok x, w') \<Rightarrow> f x w')"

lemma seq_Ok [simp]: "m w = (Inr x, w') \<Longrightarrow> seq m f w = f x w'"
  by (simp add: seq_def)

lemma seq_Err [simp]: "m w = (Inl e, w') \<Longrightarrow> seq m f w = (Inl e, w')"
  by (simp add: seq_def)

lemma seq_Ok_iff:
  "seq m f w = (Inr y, w') \<longleftrightarrow> (\<exists>x w1. m w = (Inr x, w1) \<and> f x w1 = (Inr y, w'))"
  by (auto simp: seq_def split: prod.splits sum.splits)

lemma seq_Err_iff:
  "seq m f w = (Inl e, w') \<longleftrightarrow>
     m w = (Inl e, w') \<or> (\<exists>x w1. m w = (Inr x, w1) \<and> f x w1 = (Inl e, w'))"
  by (auto simp: seq_def split: prod.splits sum.splits)

text \<open>A \<open>for\<close> loop that stops at the first error, threading its accumulator.\<close>

fun for_each :: "('x \<Rightarrow> 'a \<Rightarrow> ('w, 'e, 'a) comp) \<Rightarrow> 'x list \<Rightarrow> 'a \<Rightarrow> ('w, 'e, 'a) comp" where
  "for_each f [] a w = (Ok a, w)"
| "for_each f (x # xs) a w = seq (f x a) (for_each f xs) w"

lemma for_each_cong [fundef_cong]:
  "xs = ys \<Longrightarrow> (\<And>x. x \<in> set ys \<Longrightarrow> f x = g x) \<Longrightarrow> for_each f xs = for_each g ys"
proof -
  assume "xs = ys" and eq: "\<And>x. x \<in> set ys \<Longrightarrow> f x = g x"
  have "for_each f ys a w = for_each g ys a w" for a w
    using eq by (induction ys arbitrary: a w) (auto simp: seq_def split: prod.splits sum.splits)
  with \<open>xs = ys\<close> show ?thesis by (intro ext) simp
qed

lemma for_each_append:
  "for_each f (xs @ ys) a w = seq (for_each f xs a) (for_each f ys) w"
  by (induction xs arbitrary: a w) (auto simp: seq_def split: prod.splits sum.splits)

text \<open>Loops over pure results: a check of every element, and a fold that stops at an error.\<close>

lemma find_SomeD: "find P xs = Some x \<Longrightarrow> x \<in> set xs \<and> P x"
  by (induction xs) (auto split: if_splits)

lemma concat_map_filter:
  "(\<And>x. x \<in> set xs \<Longrightarrow> g x = (if P x then [f x] else [])) \<Longrightarrow> concat (map g xs) = map f (filter P xs)"
  by (induction xs) auto

fun check_all :: "('a \<Rightarrow> 'e option) \<Rightarrow> 'a list \<Rightarrow> 'e + unit" where
  "check_all f [] = Ok ()"
| "check_all f (x # xs) = (case f x of Some e \<Rightarrow> Err e | None \<Rightarrow> check_all f xs)"

fun try_fold :: "('a \<Rightarrow> 'b \<Rightarrow> 'e + 'b) \<Rightarrow> 'a list \<Rightarrow> 'b \<Rightarrow> 'e + 'b" where
  "try_fold f [] b = Ok b"
| "try_fold f (x # xs) b = try_bind (f x b) (try_fold f xs)"

lemma check_all_Ok_iff: "check_all f xs = Ok () \<longleftrightarrow> (\<forall>x\<in>set xs. f x = None)"
  by (induction xs) (auto split: option.splits)

lemma check_all_Err: "check_all f xs = Err e \<Longrightarrow> \<exists>x\<in>set xs. f x = Some e"
  by (induction xs) (auto split: option.splits)

lemma try_fold_cong [fundef_cong]:
  assumes "xs = ys" and "b = c" and "\<And>x a. x \<in> set ys \<Longrightarrow> f x a = g x a"
  shows "try_fold f xs b = try_fold g ys c"
proof -
  have "try_fold f ys a = try_fold g ys a" for a
    using assms(3)
  proof (induction ys arbitrary: a)
    case (Cons y ys)
    then have "f y a = g y a" by simp
    then show ?case using Cons by (cases "g y a") simp_all
  qed simp
  then show ?thesis using assms(1,2) by simp
qed

lemma try_fold_inv:
  assumes "try_fold f xs b = Inr c" and "I b"
    and "\<And>x b c. x \<in> set xs \<Longrightarrow> I b \<Longrightarrow> f x b = Inr c \<Longrightarrow> I c"
  shows "I c"
  using assms
proof (induction xs arbitrary: b)
  case (Cons x xs)
  from Cons.prems(1) obtain b' where "f x b = Inr b'" "try_fold f xs b' = Inr c" by (auto simp: try_bind_Ok_iff)
  then show ?case using Cons.IH [of b'] Cons.prems(2,3) by auto
qed simp

lemma try_fold_Err:
  assumes "try_fold f xs b = Inl e"
  obtains x c where "x \<in> set xs" "f x c = Inl e"
  using assms
proof (induction xs arbitrary: b thesis)
  case (Cons x xs)
  then show ?case by (auto simp: try_bind_Err_iff)
qed simp

lemma try_fold_append: "try_fold f (xs @ ys) b = try_bind (try_fold f xs b) (try_fold f ys)"
  by (induction xs arbitrary: b) (auto simp: try_bind_def split: sum.splits)

text \<open>Every element of a loop that ends had its own successful iteration.\<close>

lemma try_fold_step:
  assumes "try_fold f xs b = Inr d" and "x \<in> set xs"
  obtains a c ys zs where "f x a = Inr c" "xs = ys @ x # zs" "try_fold f ys b = Inr a" "try_fold f zs c = Inr d"
proof -
  obtain ys zs where "xs = ys @ x # zs" using split_list [OF assms(2)] by blast
  with assms(1) that show thesis by (auto simp: try_fold_append try_bind_Ok_iff)
qed

text \<open>
  An invariant \<open>I\<close> of the world and what the accumulator says about it, kept by every
  iteration, is kept by the loop; an error leaves the world in \<open>E\<close>.
\<close>

lemma for_each_inv:
  assumes step: "\<And>x a w. x \<in> set xs \<Longrightarrow> I a w \<Longrightarrow>
      (case f x a w of (Err e, w') \<Rightarrow> E e w' | (Ok a', w') \<Rightarrow> I a' w')"
    and init: "I a w"
  shows "case for_each f xs a w of (Err e, w') \<Rightarrow> E e w' | (Ok a', w') \<Rightarrow> I a' w'"
  using assms
proof (induction xs arbitrary: a w)
  case Nil
  then show ?case by simp
next
  case (Cons x xs)
  show ?case
  proof (cases "f x a w")
    case (Pair r w1)
    have now: "case f x a w of (Err e, w') \<Rightarrow> E e w' | (Ok a', w') \<Rightarrow> I a' w'"
      by (rule Cons.prems(1)) (use Cons.prems(2) in simp_all)
    show ?thesis
    proof (cases r)
      case (Inl e)
      with now Pair show ?thesis by (simp add: seq_def)
    next
      case (Inr a')
      with now Pair have "I a' w1" by simp
      then have "case for_each f xs a' w1 of (Err e, w') \<Rightarrow> E e w' | (Ok a', w') \<Rightarrow> I a' w'"
        by (intro Cons.IH Cons.prems(1)) simp_all
      with Pair Inr show ?thesis by (simp add: seq_def)
    qed
  qed
qed

subsection \<open>Triples\<close>

text \<open>
  Partial-correctness triples of computations: from \<open>P\<close>, success ends in \<open>Q\<close> (which may speak
  of the value) and failure in \<open>E\<close> (which may speak of the error).
\<close>

definition triple ::
    "('w \<Rightarrow> bool) \<Rightarrow> ('w, 'e, 'a) comp \<Rightarrow> ('a \<Rightarrow> 'w \<Rightarrow> bool) \<Rightarrow> ('e \<Rightarrow> 'w \<Rightarrow> bool) \<Rightarrow> bool" where
  "triple P m Q E \<longleftrightarrow> (\<forall>w. P w \<longrightarrow> (case m w of (Err e, w') \<Rightarrow> E e w' | (Ok x, w') \<Rightarrow> Q x w'))"

named_theorems triples \<open>rules that build a triple\<close>

lemma tripleI:
  assumes "\<And>w x w'. P w \<Longrightarrow> m w = (Inr x, w') \<Longrightarrow> Q x w'"
    and "\<And>w e w'. P w \<Longrightarrow> m w = (Inl e, w') \<Longrightarrow> E e w'"
  shows "triple P m Q E"
  using assms by (auto simp: triple_def split: prod.splits sum.splits)

lemma triple_Ok: "triple P m Q E \<Longrightarrow> P w \<Longrightarrow> m w = (Inr x, w') \<Longrightarrow> Q x w'"
  by (fastforce simp: triple_def)

lemma triple_Err: "triple P m Q E \<Longrightarrow> P w \<Longrightarrow> m w = (Inl e, w') \<Longrightarrow> E e w'"
  by (fastforce simp: triple_def)

lemma triple_weaken:
  assumes "triple P' m Q' E'" and "\<And>w. P w \<Longrightarrow> P' w"
    and "\<And>x w. Q' x w \<Longrightarrow> Q x w" and "\<And>e w. E' e w \<Longrightarrow> E e w"
  shows "triple P m Q E"
  using assms(2-4) triple_Ok [OF assms(1)] triple_Err [OF assms(1)] by (intro tripleI) blast+

lemma triple_seq [triples]:
  assumes "triple P m R E" and "\<And>x. triple (R x) (f x) Q E"
  shows "triple P (seq m f) Q E"
  by (rule tripleI) (auto simp: seq_Ok_iff seq_Err_iff dest: triple_Ok [OF assms(1)] triple_Err [OF assms(1)]
      intro: triple_Ok [OF assms(2)] triple_Err [OF assms(2)])

lemma triple_for_each [triples]:
  assumes "\<And>x a. x \<in> set xs \<Longrightarrow> triple (I a) (f x a) I E"
  shows "triple (I a) (for_each f xs a) I E"
  using assms
proof (induction xs arbitrary: a)
  case Nil
  then show ?case by (simp add: triple_def)
next
  case (Cons x xs)
  have "triple (I a) (seq (f x a) (for_each f xs)) I E"
    by (rule triple_seq) (rule Cons.prems, simp, rule Cons.IH, rule Cons.prems, simp)
  then show ?case by (simp add: triple_def)
qed

text \<open>Running a handler on the error of a computation.\<close>

definition handle :: "('w, 'e, 'a) comp \<Rightarrow> ('e \<Rightarrow> ('w, 'f, 'a) comp) \<Rightarrow> ('w, 'f, 'a) comp" where
  "handle m f w = (case m w of (Ok x, w') \<Rightarrow> (Ok x, w') | (Err e, w') \<Rightarrow> f e w')"

lemma handle_iff:
  "handle m f w = (r, w') \<longleftrightarrow>
     (\<exists>x. m w = (Inr x, w') \<and> r = Inr x) \<or> (\<exists>e w1. m w = (Inl e, w1) \<and> f e w1 = (r, w'))"
  by (auto simp: handle_def split: prod.splits sum.splits)

lemma triple_handle:
  assumes "triple P m Q R" and "\<And>e. triple (R e) (f e) Q E"
  shows "triple P (handle m f) Q E"
  by (rule tripleI) (auto simp: handle_iff dest: triple_Ok [OF assms(1)] triple_Err [OF assms(1)]
      intro: triple_Ok [OF assms(2)] triple_Err [OF assms(2)])

text \<open>What every outcome of a computation keeps.\<close>

abbreviation kept :: "('w \<Rightarrow> bool) \<Rightarrow> ('w, 'e, 'a) comp \<Rightarrow> bool" where
  "kept K m \<equiv> triple K m (\<lambda>_. K) (\<lambda>_. K)"

lemma keptI: "(\<And>w r w'. K w \<Longrightarrow> m w = (r, w') \<Longrightarrow> K w') \<Longrightarrow> kept K m"
  by (rule tripleI) blast+

lemma keptD: "kept K m \<Longrightarrow> K w \<Longrightarrow> m w = (r, w') \<Longrightarrow> K w'"
  by (cases r) (auto dest: triple_Ok triple_Err)

lemma kept_seq: "kept K m \<Longrightarrow> (\<And>x. kept K (f x)) \<Longrightarrow> kept K (seq m f)"
  by (rule triple_seq)

lemma kept_for_each: "(\<And>x a. x \<in> set xs \<Longrightarrow> kept K (f x a)) \<Longrightarrow> kept K (for_each f xs a)"
  by (rule triple_for_each [where I = "\<lambda>_. K"])

subsection \<open>Ordered maps\<close>

text \<open>
  The interface of \<open>std::collections::BTreeMap\<close> the source relies on: lookup after
  insertion, and iteration in strictly increasing key order.
\<close>

locale ordered_map =
  fixes get :: "'m \<Rightarrow> 'k::linorder \<Rightarrow> 'v option"
    and insert :: "'k \<Rightarrow> 'v \<Rightarrow> 'm \<Rightarrow> 'm"
    and empty :: 'm
    and iter :: "'m \<Rightarrow> ('k \<times> 'v) list"
    and invar :: "'m \<Rightarrow> bool"
  assumes get_empty: "get empty k = None"
    and get_insert: "invar m \<Longrightarrow> get (insert k v m) j = (if j = k then Some v else get m j)"
    and invar_empty: "invar empty"
    and invar_insert: "invar m \<Longrightarrow> invar (insert k v m)"
    and iter_get: "invar m \<Longrightarrow> (k, v) \<in> set (iter m) \<longleftrightarrow> get m k = Some v"
    and iter_sorted: "invar m \<Longrightarrow> sorted_wrt (<) (map fst (iter m))"
begin

lemma keys_dom: "invar m \<Longrightarrow> set (map fst (iter m)) = {k. get m k \<noteq> None}"
  using iter_get [of m] by (auto simp: split_paired_Ex image_iff Bex_def)

lemma keys_distinct: "invar m \<Longrightarrow> distinct (map fst (iter m))"
  using iter_sorted strict_sorted_imp_sorted strict_sorted_iff by blast

lemma iter_ext:
  assumes "invar m" and "invar n" and "\<And>k. get m k = get n k"
  shows "iter m = iter n"
proof -
  have "set (iter m) = set (iter n)"
    using assms by (auto simp: iter_get)
  moreover have "sorted (map fst (iter m))" "sorted (map fst (iter n))"
    "distinct (map fst (iter m))" "distinct (map fst (iter n))"
    using assms(1,2) iter_sorted keys_distinct by (auto simp: strict_sorted_iff)
  moreover have "inj_on fst (set (iter m) \<union> set (iter n))"
    using assms by (auto simp: inj_on_def iter_get)
  ultimately show ?thesis
    by (intro map_sorted_distinct_set_unique) auto
qed

lemma get_fold_insert_notin:
  "invar m \<Longrightarrow> k \<notin> set (map fst xs) \<Longrightarrow>
     get (fold (\<lambda>(k, v) m. insert k v m) xs m) k = get m k
     \<and> invar (fold (\<lambda>(k, v) m. insert k v m) xs m)"
  by (induction xs arbitrary: m) (auto simp: get_insert invar_insert)

lemma invar_fold_insert:
  "invar m \<Longrightarrow> invar (fold (\<lambda>(k, v) m. insert k v m) xs m)"
  by (induction xs arbitrary: m) (auto simp: invar_insert)

end

type_synonym ('k, 'v) btree = "('k \<times> 'v) list"

definition bt_get :: "('k, 'v) btree \<Rightarrow> 'k \<Rightarrow> 'v option" where
  "bt_get m k = map_of m k"

fun bt_insert :: "'k::linorder \<Rightarrow> 'v \<Rightarrow> ('k, 'v) btree \<Rightarrow> ('k, 'v) btree" where
  "bt_insert k v [] = [(k, v)]"
| "bt_insert k v ((j, u) # m) =
     (if k < j then (k, v) # (j, u) # m
      else if k = j then (k, v) # m
      else (j, u) # bt_insert k v m)"

definition bt_inv :: "('k::linorder, 'v) btree \<Rightarrow> bool" where
  "bt_inv m = sorted_wrt (<) (map fst m)"

definition bt_keys :: "('k, 'v) btree \<Rightarrow> 'k list" where
  "bt_keys m = map fst m"

definition bt_values :: "('k, 'v) btree \<Rightarrow> 'v list" where
  "bt_values m = map snd m"

definition bt_has :: "('k, 'v) btree \<Rightarrow> 'k \<Rightarrow> bool" where
  "bt_has m k \<longleftrightarrow> bt_get m k \<noteq> None"

text \<open>\<open>iter.collect::<BTreeMap<_, _>>()\<close>: a later binding of a key replaces an earlier one.\<close>

definition bt_collect :: "('k::linorder \<times> 'v) list \<Rightarrow> ('k, 'v) btree" where
  "bt_collect xs = fold (\<lambda>(k, v) m. bt_insert k v m) xs []"

text \<open>\<open>map.entry(k).or_insert(v)\<close>.\<close>

definition bt_or_insert :: "'k::linorder \<Rightarrow> 'v \<Rightarrow> ('k, 'v) btree \<Rightarrow> ('k, 'v) btree" where
  "bt_or_insert k v m = (if bt_has m k then m else bt_insert k v m)"

lemma bt_insert_keys: "set (map fst (bt_insert k v m)) = Set.insert k (set (map fst m))"
  by (induction k v m rule: bt_insert.induct) (simp_all add: insert_commute)

lemma bt_insert_get: "bt_inv m \<Longrightarrow> bt_get (bt_insert k v m) j = (if j = k then Some v else bt_get m j)"
  by (induction m) (auto simp: bt_get_def bt_inv_def)

lemma bt_insert_inv: "bt_inv m \<Longrightarrow> bt_inv (bt_insert k v m)"
proof (induction m)
  case Nil
  then show ?case by (simp add: bt_inv_def)
next
  case (Cons a m)
  then show ?case
    using bt_insert_keys [of k v m]
    by (cases a) (auto simp: bt_inv_def not_less_iff_gr_or_eq)
qed

lemma bt_inv_distinct: "bt_inv m \<Longrightarrow> distinct (map fst m)"
  by (auto simp: bt_inv_def strict_sorted_iff)

interpretation bt: ordered_map bt_get bt_insert "[]" "\<lambda>m. m" bt_inv
proof
  fix m :: "('k::linorder, 'v) btree" and k j :: 'k and v :: 'v
  show "bt_get [] k = None" by (simp add: bt_get_def)
  show "bt_inv []" by (simp add: bt_inv_def)
  show "bt_get (bt_insert k v m) j = (if j = k then Some v else bt_get m j)" if "bt_inv m"
    using that by (rule bt_insert_get)
  show "bt_inv (bt_insert k v m)" if "bt_inv m"
    using that by (rule bt_insert_inv)
  show "(k, v) \<in> set m \<longleftrightarrow> bt_get m k = Some v" if "bt_inv m"
    using bt_inv_distinct [OF that] by (simp add: bt_get_def)
  show "sorted_wrt (<) (map fst m)" if "bt_inv m"
    using that by (simp add: bt_inv_def)
qed

lemma bt_has_iff: "bt_has m k \<longleftrightarrow> k \<in> set (bt_keys m)"
  by (auto simp: bt_has_def bt_get_def bt_keys_def map_of_eq_None_iff)

lemma bt_collect_inv [simp, intro]: "bt_inv (bt_collect xs)"
  unfolding bt_collect_def by (rule bt.invar_fold_insert) (rule bt.invar_empty)

lemma bt_collect_get:
  "distinct (map fst xs) \<Longrightarrow> bt_get (bt_collect xs) k = map_of xs k"
proof (induction xs rule: rev_induct)
  case Nil
  then show ?case by (simp add: bt_collect_def bt_get_def)
next
  case (snoc x xs)
  obtain a b where x: "x = (a, b)" by (cases x)
  have inv: "bt_inv (bt_collect xs)" by (rule bt_collect_inv)
  have "bt_get (bt_collect (xs @ [x])) k = bt_get (bt_insert a b (bt_collect xs)) k"
    by (simp add: bt_collect_def x)
  also have "\<dots> = (if k = a then Some b else bt_get (bt_collect xs) k)"
    by (rule bt_insert_get [OF inv])
  moreover have "map_of xs a = None"
    using snoc.prems by (simp add: x map_of_eq_None_iff)
  ultimately show ?case
    using snoc by (auto simp: x map_add_def split: option.splits)
qed

lemma bt_insert_subset: "set (bt_insert k v m) \<subseteq> Set.insert (k, v) (set m)"
  by (induction k v m rule: bt_insert.induct) auto

lemma bt_collect_subset: "set (bt_collect xs) \<subseteq> set xs"
proof (induction xs rule: rev_induct)
  case Nil
  then show ?case by (simp add: bt_collect_def)
next
  case (snoc x xs)
  then show ?case
    using bt_insert_subset [of "fst x" "snd x" "bt_collect xs"]
    by (auto simp: bt_collect_def split_beta)
qed

lemma bt_or_insert_inv: "bt_inv m \<Longrightarrow> bt_inv (bt_or_insert k v m)"
  by (simp add: bt_or_insert_def bt.invar_insert)

lemma bt_or_insert_get:
  "bt_inv m \<Longrightarrow> bt_get (bt_or_insert k v m) j =
     (if j = k \<and> \<not> bt_has m k then Some v else bt_get m j)"
  by (auto simp: bt_or_insert_def bt.get_insert)

text \<open>Filling a map with the answers of a query, each key asked once.\<close>

definition bt_memo :: "('k::linorder \<Rightarrow> 'v option) \<Rightarrow> 'k \<Rightarrow> ('k, 'v) btree \<Rightarrow> ('k, 'v) btree" where
  "bt_memo f k m = (if bt_has m k then m else case f k of Some v \<Rightarrow> bt_insert k v m | None \<Rightarrow> m)"

lemma bt_memo_inv: "bt_inv m \<Longrightarrow> bt_inv (bt_memo f k m)"
  by (auto simp: bt_memo_def bt_insert_inv split: option.splits)

lemma bt_memo_get:
  "bt_inv m \<Longrightarrow> bt_get (bt_memo f k m) j = (if j = k \<and> \<not> bt_has m k then f k else bt_get m j)"
  by (auto simp: bt_memo_def bt_insert_get bt_has_def split: option.splits)

lemma fold_bt_memo:
  assumes "bt_inv m" and "\<And>k. bt_has m k \<Longrightarrow> bt_get m k = f k"
  shows "bt_inv (fold (bt_memo f) ks m)
     \<and> (\<forall>k. bt_get (fold (bt_memo f) ks m) k = (if k \<in> set ks then f k else bt_get m k))"
  using assms
proof (induction ks arbitrary: m)
  case Nil
  then show ?case by simp
next
  case (Cons a ks)
  have inv: "bt_inv (bt_memo f a m)" by (rule bt_memo_inv) (rule Cons.prems(1))
  have get: "bt_get (bt_memo f a m) j = (if j = a then f a else bt_get m j)" for j
    using Cons.prems by (auto simp: bt_memo_get)
  have "bt_has (bt_memo f a m) k \<Longrightarrow> bt_get (bt_memo f a m) k = f k" for k
    using get [of k] Cons.prems(2) [of k] by (auto simp: bt_has_def split: if_splits)
  from Cons.IH [OF inv this] show ?case by (auto simp: get)
qed

lemma fold_bt_memo_empty:
  "bt_get (fold (bt_memo f) ks []) k = (if k \<in> set ks then f k else None)"
  using fold_bt_memo [of "[]" f ks] by (simp add: bt_has_def bt_get_def bt_inv_def)

text \<open>Iterating a map whose entries carry their key.\<close>

lemma bt_get_iff_mem: "bt_inv m \<Longrightarrow> bt_get m k = Some v \<longleftrightarrow> (k, v) \<in> set m"
  using bt.iter_get [of m k v] by simp

lemma bt_get_mem: "bt_get m k = Some v \<Longrightarrow> (k, v) \<in> set m"
  by (simp add: bt_get_def map_of_SomeD)

end
