(* ===== verification/Rust_Str.thy ===== *)
theory Rust_Str
  imports Census_Prelude
begin

text \<open>
  The operations of \<open>str\<close>, \<open>String\<close>, slices and \<open>std::path::Path\<close> that the source
  calls, on UTF-8 byte lists, with the lemmas the components use of them.
\<close>

subsection \<open>Bytes and character classes\<close>

abbreviation byte :: "char \<Rightarrow> nat" where "byte c \<equiv> of_char c"

definition is_ascii_lowercase :: "char \<Rightarrow> bool" where
  "is_ascii_lowercase c \<longleftrightarrow> 97 \<le> byte c \<and> byte c \<le> 122"

definition is_ascii_uppercase :: "char \<Rightarrow> bool" where
  "is_ascii_uppercase c \<longleftrightarrow> 65 \<le> byte c \<and> byte c \<le> 90"

definition is_ascii_digit :: "char \<Rightarrow> bool" where
  "is_ascii_digit c \<longleftrightarrow> 48 \<le> byte c \<and> byte c \<le> 57"

definition is_ascii_alphanumeric :: "char \<Rightarrow> bool" where
  "is_ascii_alphanumeric c \<longleftrightarrow> is_ascii_lowercase c \<or> is_ascii_uppercase c \<or> is_ascii_digit c"

definition to_ascii_uppercase :: "char \<Rightarrow> char" where
  "to_ascii_uppercase c = (if is_ascii_lowercase c then char_of (byte c - 32) else c)"

text \<open>A byte of the form \<open>10xxxxxx\<close> continues a scalar value and starts none.\<close>

definition is_continuation :: "char \<Rightarrow> bool" where
  "is_continuation c \<longleftrightarrow> 128 \<le> byte c \<and> byte c \<le> 191"

text \<open>Well-formed UTF-8: what \<open>read_to_string\<close> accepts.\<close>

fun utf8_valid :: "string \<Rightarrow> bool" where
  "utf8_valid [] = True"
| "utf8_valid (a # s) =
     (if byte a < 128 then utf8_valid s
      else if 194 \<le> byte a \<and> byte a \<le> 223 then
        (case s of b # t \<Rightarrow> is_continuation b \<and> utf8_valid t | _ \<Rightarrow> False)
      else if 224 \<le> byte a \<and> byte a \<le> 239 then
        (case s of
           b # c # t \<Rightarrow> is_continuation b \<and> (byte a = 224 \<longrightarrow> 160 \<le> byte b)
             \<and> (byte a = 237 \<longrightarrow> byte b \<le> 159) \<and> is_continuation c \<and> utf8_valid t
         | _ \<Rightarrow> False)
      else if 240 \<le> byte a \<and> byte a \<le> 244 then
        (case s of
           b # c # d # t \<Rightarrow> is_continuation b \<and> (byte a = 240 \<longrightarrow> 144 \<le> byte b)
             \<and> (byte a = 244 \<longrightarrow> byte b \<le> 143) \<and> is_continuation c \<and> is_continuation d
             \<and> utf8_valid t
         | _ \<Rightarrow> False)
      else False)"

text \<open>
  \<open>chars().any(char::is_control)\<close>: the C0 controls and DEL are single bytes, the C1
  controls U+0080 to U+009F are encoded as \<open>C2 80\<close> to \<open>C2 9F\<close>.
\<close>

fun has_control :: "string \<Rightarrow> bool" where
  "has_control [] = False"
| "has_control (a # s) =
     (byte a < 32 \<or> byte a = 127
      \<or> (byte a = 194 \<and> (case s of [] \<Rightarrow> False | b # _ \<Rightarrow> 128 \<le> byte b \<and> byte b \<le> 159))
      \<or> has_control s)"

text \<open>
  The length in bytes of the Unicode \<open>White_Space\<close> character a string starts with, 0 if it
  starts with another character.
\<close>

definition ws_len :: "string \<Rightarrow> nat" where
  "ws_len s =
     (case map byte (take 3 s) of
        [] \<Rightarrow> 0
      | a # r \<Rightarrow>
          (if 9 \<le> a \<and> a \<le> 13 \<or> a = 32 then 1
           else case r of
              [] \<Rightarrow> 0
            | b # r' \<Rightarrow>
                (if a = 194 \<and> (b = 133 \<or> b = 160) then 2
                 else case r' of
                    [] \<Rightarrow> 0
                  | c # _ \<Rightarrow>
                      (if a = 225 \<and> b = 154 \<and> c = 128
                          \<or> a = 226 \<and> b = 128 \<and> (128 \<le> c \<and> c \<le> 138 \<or> c = 168 \<or> c = 169 \<or> c = 175)
                          \<or> a = 226 \<and> b = 129 \<and> c = 159
                          \<or> a = 227 \<and> b = 128 \<and> c = 128
                       then 3 else 0))))"

lemma ws_len_Nil [simp]: "ws_len [] = 0"
  by (simp add: ws_len_def)

lemma ws_len_le: "ws_len s \<le> length s"
  by (cases s; cases "tl s"; cases "tl (tl s)") (auto simp: ws_len_def)

function trim_start :: "string \<Rightarrow> string" where
  "trim_start s = (if ws_len s = 0 then s else trim_start (drop (ws_len s) s))"
  by pat_completeness auto
termination
proof (relation "measure length")
  fix s :: string
  assume "ws_len s \<noteq> 0"
  then show "(drop (ws_len s) s, s) \<in> measure length"
    using ws_len_le [of s] by (cases s) auto
qed auto

declare trim_start.simps [simp del]

lemma trim_start_fix [simp]: "ws_len s = 0 \<Longrightarrow> trim_start s = s"
  by (simp add: trim_start.simps)

lemma trim_start_nonws: "ws_len (trim_start s) = 0"
proof (induction s rule: trim_start.induct)
  case (1 s)
  then show ?case by (cases "ws_len s = 0") (simp_all add: trim_start.simps [of s])
qed

lemma trim_start_suffix: "\<exists>k. trim_start s = drop k s"
proof (induction s rule: trim_start.induct)
  case (1 s)
  show ?case
  proof (cases "ws_len s = 0")
    case True
    then have "trim_start s = drop 0 s" by simp
    then show ?thesis ..
  next
    case False
    with 1 obtain k where "trim_start (drop (ws_len s) s) = drop k (drop (ws_len s) s)" by blast
    then have "trim_start s = drop (k + ws_len s) s"
      using False by (simp add: trim_start.simps [of s] add.commute)
    then show ?thesis ..
  qed
qed

text \<open>\<open>s.trim().is_empty()\<close>: nothing is left once the leading white space is dropped.\<close>

definition trim_is_empty :: "string \<Rightarrow> bool" where
  "trim_is_empty s \<longleftrightarrow> trim_start s = []"

subsection \<open>Prefixes, suffixes, splitting and joining\<close>

definition starts_with :: "string \<Rightarrow> string \<Rightarrow> bool" where
  "starts_with s p \<longleftrightarrow> take (length p) s = p"

definition strip_prefix :: "string \<Rightarrow> string \<Rightarrow> string option" where
  "strip_prefix s p = (if starts_with s p then Some (drop (length p) s) else None)"

definition ends_with :: "string \<Rightarrow> string \<Rightarrow> bool" where
  "ends_with s p \<longleftrightarrow> length p \<le> length s \<and> drop (length s - length p) s = p"

lemma ends_with_iff: "ends_with s p \<longleftrightarrow> (\<exists>r. s = r @ p)"
  unfolding ends_with_def by (metis append_take_drop_id length_append le_add2 add_diff_cancel_right' append_eq_conv_conj)

lemma starts_with_append [simp]: "starts_with (p @ s) p"
  by (simp add: starts_with_def)

lemma starts_with_iff: "starts_with s p \<longleftrightarrow> (\<exists>r. s = p @ r)"
  unfolding starts_with_def by (metis append_eq_conv_conj append_take_drop_id)

lemma strip_prefix_append [simp]: "strip_prefix (p @ s) p = Some s"
  by (simp add: strip_prefix_def)

lemma strip_prefix_Some_iff: "strip_prefix s p = Some r \<longleftrightarrow> s = p @ r"
  by (auto simp: strip_prefix_def starts_with_iff)

text \<open>\<open>str::split\<close> on one character: one more piece than there are separators.\<close>

fun split_on :: "char \<Rightarrow> string \<Rightarrow> string list" where
  "split_on c [] = [[]]"
| "split_on c (a # s) =
     (if a = c then [] # split_on c s
      else (case split_on c s of [] \<Rightarrow> [[a]] | p # ps \<Rightarrow> (a # p) # ps))"

lemma split_on_nonempty [simp]: "split_on c s \<noteq> []"
  by (induction s) (auto split: list.splits)

text \<open>\<open>slice.join(sep)\<close>.\<close>

fun join_with :: "string \<Rightarrow> string list \<Rightarrow> string" where
  "join_with sep [] = []"
| "join_with sep [x] = x"
| "join_with sep (x # y # ys) = x @ sep @ join_with sep (y # ys)"

lemma join_with_Cons:
  "join_with sep (x # xs) = x @ (if xs = [] then [] else sep @ join_with sep xs)"
  by (cases xs) auto

lemma join_split: "join_with [c] (split_on c s) = s"
  by (induction s) (auto simp: join_with_Cons split: list.splits)

lemma split_on_notin: "p \<in> set (split_on c s) \<Longrightarrow> c \<notin> set p"
  by (induction s arbitrary: p) (auto split: list.splits if_splits)

lemma split_on_id: "c \<notin> set s \<Longrightarrow> split_on c s = [s]"
  by (induction s) auto

lemma split_on_append_sep: "c \<notin> set s \<Longrightarrow> split_on c (s @ c # t) = s # split_on c t"
  by (induction s) (auto split: list.splits)

lemma split_on_snoc: "split_on c (s @ c # t) = split_on c s @ split_on c t"
  by (induction s) (auto split: list.splits)

lemma split_join:
  "xs \<noteq> [] \<Longrightarrow> (\<forall>x\<in>set xs. c \<notin> set x) \<Longrightarrow> split_on c (join_with [c] xs) = xs"
  by (induction xs rule: induct_list012)
    (auto simp: split_on_id split_on_append_sep join_with_Cons)

text \<open>\<open>to_string\<close> of an unsigned integer.\<close>

fun dec :: "nat \<Rightarrow> string" where
  "dec n = (if n < 10 then [char_of (48 + n)] else dec (n div 10) @ [char_of (48 + n mod 10)])"

declare dec.simps [simp del]

fun undec :: "nat \<Rightarrow> string \<Rightarrow> nat" where
  "undec acc [] = acc"
| "undec acc (c # s) = undec (10 * acc + (byte c - 48)) s"

lemma undec_append: "undec acc (s @ [c]) = 10 * undec acc s + (byte c - 48)"
  by (induction s arbitrary: acc) auto

lemma undec_dec: "undec 0 (dec n) = n"
proof (induction n rule: dec.induct)
  case (1 n)
  show ?case
  proof (cases "n < 10")
    case True
    then show ?thesis by (simp add: dec.simps [of n])
  next
    case False
    with 1 have "undec 0 (dec (n div 10)) = n div 10" by simp
    moreover have "byte (char_of (48 + n mod 10)) - 48 = n mod 10" by simp
    ultimately show ?thesis
      using False by (simp add: dec.simps [of n] undec_append)
  qed
qed

lemma dec_inj: "dec m = dec n \<Longrightarrow> m = n"
  using undec_dec by metis

lemma dec_digits: "c \<in> set (dec n) \<Longrightarrow> is_ascii_digit c"
proof (induction n rule: dec.induct)
  case (1 n)
  then show ?case
    by (cases "n < 10") (force simp: dec.simps [of n] is_ascii_digit_def)+
qed

definition show_u32 :: "u32 \<Rightarrow> string" where
  "show_u32 n = dec (unat n)"

subsection \<open>Vectors\<close>

text \<open>\<open>if !v.contains(&x) { v.push(x) }\<close>\<close>

definition push_unique :: "'a \<Rightarrow> 'a list \<Rightarrow> 'a list" where
  "push_unique x xs = (if x \<in> set xs then xs else xs @ [x])"

definition extend_unique :: "'a list \<Rightarrow> 'a list \<Rightarrow> 'a list" where
  "extend_unique ys xs = fold push_unique ys xs"

lemma set_push_unique [simp]: "set (push_unique x xs) = insert x (set xs)"
  by (auto simp: push_unique_def)

lemma distinct_push_unique [simp]: "distinct (push_unique x xs) = distinct xs"
  by (auto simp: push_unique_def)

lemma set_extend_unique [simp]: "set (extend_unique ys xs) = set ys \<union> set xs"
  by (induction ys arbitrary: xs) (auto simp: extend_unique_def)

lemma distinct_extend_unique [simp]: "distinct (extend_unique ys xs) = distinct xs"
  by (induction ys arbitrary: xs) (auto simp: extend_unique_def)

lemma prefix_push_unique: "\<exists>zs. push_unique x xs = xs @ zs"
  by (auto simp: push_unique_def)

lemma prefix_extend_unique: "\<exists>zs. extend_unique ys xs = xs @ zs"
proof (induction ys arbitrary: xs)
  case Nil
  then show ?case by (simp add: extend_unique_def)
next
  case (Cons y ys)
  obtain as where as: "push_unique y xs = xs @ as" using prefix_push_unique [of y xs] by auto
  obtain bs where "extend_unique ys (xs @ as) = (xs @ as) @ bs" using Cons.IH [of "xs @ as"] by auto
  with as show ?case by (simp add: extend_unique_def)
qed

text \<open>
  Order-insensitive comparison of two vectors as the source writes it: equal lengths, then
  equal after sorting.  It decides equality of the multisets of their elements.
\<close>

definition sorted_equal :: "('a::linorder) list \<Rightarrow> 'a list \<Rightarrow> bool" where
  "sorted_equal xs ys \<longleftrightarrow> length xs = length ys \<and> sort xs = sort ys"

lemma sorted_equal_mset: "sorted_equal xs ys \<longleftrightarrow> mset xs = mset ys"
proof
  assume "sorted_equal xs ys"
  then have "mset (sort xs) = mset (sort ys)" by (simp add: sorted_equal_def)
  then show "mset xs = mset ys" by simp
next
  assume eq: "mset xs = mset ys"
  then have "length xs = length ys" by (metis size_mset)
  moreover have "sort xs = sort ys" by (rule properties_for_sort) (simp_all add: eq)
  ultimately show "sorted_equal xs ys" by (simp add: sorted_equal_def)
qed

lemma sorted_equal_set: "distinct xs \<Longrightarrow> distinct ys \<Longrightarrow> sorted_equal xs ys \<longleftrightarrow> set xs = set ys"
  by (simp add: sorted_equal_mset set_eq_iff_mset_eq_distinct)

lemma sorted_equal_refl [simp]: "sorted_equal xs xs"
  by (simp add: sorted_equal_mset)

subsection \<open>Paths\<close>

text \<open>
  \<open>Path::components\<close>: whether the path is absolute, and its components.  Repeated and
  trailing separators vanish, and so does every \<open>.\<close> that does not start a relative path.
  Two paths are equal when their components are.
\<close>

definition path_components :: "path \<Rightarrow> bool \<times> string list" where
  "path_components p =
     (let cs = filter (\<lambda>c. c \<noteq> []) (split_on (CHR ''/'') p) in
      if starts_with p ''/'' then (True, filter (\<lambda>c. c \<noteq> ''.'') cs)
      else (False, take 1 cs @ filter (\<lambda>c. c \<noteq> ''.'') (drop 1 cs)))"

definition path_eq :: "path \<Rightarrow> path \<Rightarrow> bool" where
  "path_eq p q \<longleftrightarrow> path_components p = path_components q"

text \<open>\<open>Path::join\<close>: an absolute argument replaces the base.\<close>

definition path_join :: "path \<Rightarrow> string \<Rightarrow> path" where
  "path_join base s =
     (if starts_with s ''/'' then s
      else if base = [] \<or> ends_with base ''/'' then base @ s
      else base @ ''/'' @ s)"

text \<open>\<open>if !paths.contains(&p) { paths.push(p) }\<close> on \<open>Vec<PathBuf>\<close>.\<close>

definition path_contains :: "path list \<Rightarrow> path \<Rightarrow> bool" where
  "path_contains ps p \<longleftrightarrow> (\<exists>q\<in>set ps. path_eq q p)"

definition push_path :: "path \<Rightarrow> path list \<Rightarrow> path list" where
  "push_path p ps = (if path_contains ps p then ps else ps @ [p])"

lemma path_eq_refl [simp]: "path_eq p p"
  by (simp add: path_eq_def)

lemma path_eq_sym: "path_eq p q \<Longrightarrow> path_eq q p"
  by (simp add: path_eq_def)

lemma path_eq_trans: "path_eq p q \<Longrightarrow> path_eq q r \<Longrightarrow> path_eq p r"
  by (simp add: path_eq_def)

lemma path_contains_push: "path_contains (push_path p ps) q \<longleftrightarrow> path_eq p q \<or> path_contains ps q"
  by (auto simp: push_path_def path_contains_def path_eq_def)

lemma path_contains_simps [simp]:
  "\<not> path_contains [] q"
  "path_contains (p # ps) q \<longleftrightarrow> path_eq p q \<or> path_contains ps q"
  by (simp_all add: path_contains_def)

lemma path_contains_fold_push:
  "path_contains (fold push_path ps qs) q \<longleftrightarrow> path_contains ps q \<or> path_contains qs q"
proof (induction ps arbitrary: qs)
  case Nil
  show ?case by simp
next
  case (Cons p ps)
  show ?case using Cons.IH [of "push_path p qs"] path_contains_push [of p qs q] by simp blast
qed

lemma path_containsI: "p \<in> set ps \<Longrightarrow> path_contains ps p"
  unfolding path_contains_def using path_eq_refl by blast

lemma set_push_path: "set (push_path p ps) \<subseteq> insert p (set ps)"
  by (auto simp: push_path_def)

subsection \<open>Zero-padded numbers\<close>

lemma undec_zeros: "undec 0 (replicate k (CHR ''0'') @ s) = undec 0 s"
  by (induction k) auto

lemma takeWhile_digits: "(\<forall>c\<in>set s. is_ascii_digit c) \<Longrightarrow> takeWhile is_ascii_digit (s @ CHR ''-'' # t) = s"
  by (induction s) (auto simp: is_ascii_digit_def)

subsection \<open>Trimming both ends, parsing numbers, lines\<close>

text \<open>The length in bytes of the white-space character a string ends with, 0 if it ends otherwise.\<close>

definition ws_suffix_len :: "string \<Rightarrow> nat" where
  "ws_suffix_len s =
     (if s = [] then 0
      else if ws_len (drop (length s - 1) s) = 1 then 1
      else if 2 \<le> length s \<and> ws_len (drop (length s - 2) s) = 2 then 2
      else if 3 \<le> length s \<and> ws_len (drop (length s - 3) s) = 3 then 3
      else 0)"

function trim_end :: "string \<Rightarrow> string" where
  "trim_end s = (if ws_suffix_len s = 0 then s else trim_end (take (length s - ws_suffix_len s) s))"
  by pat_completeness auto
termination
proof (relation "measure length")
  fix s :: string
  assume "ws_suffix_len s \<noteq> 0"
  then show "(take (length s - ws_suffix_len s) s, s) \<in> measure length"
    by (auto simp: ws_suffix_len_def split: if_splits)
qed auto

declare trim_end.simps [simp del]

lemma trim_end_fix [simp]: "ws_suffix_len s = 0 \<Longrightarrow> trim_end s = s"
  by (simp add: trim_end.simps)

definition trim :: "string \<Rightarrow> string" where
  "trim s = trim_end (trim_start s)"

text \<open>\<open>str::parse::<u32>\<close>: an optional plus sign, then digits within range.\<close>

definition parse_u32 :: "string \<Rightarrow> u32 option" where
  "parse_u32 s =
     (let ds = (case s of c # t \<Rightarrow> if c = CHR ''+'' \<and> t \<noteq> [] then t else s | [] \<Rightarrow> s) in
      if ds = [] \<or> \<not> list_all is_ascii_digit ds then None
      else if undec 0 ds < 2 ^ 32 then Some (of_nat (undec 0 ds)) else None)"

lemma dec_nonempty [simp]: "dec n \<noteq> []"
  by (simp add: dec.simps [of n])

lemma parse_u32_dec: "parse_u32 (dec (unat v)) = Some v"
proof -
  obtain c t where ct: "dec (unat v) = c # t" by (cases "dec (unat v)") auto
  have "is_ascii_digit c" using dec_digits [of c "unat v"] by (simp add: ct)
  then have "c \<noteq> CHR ''+''" by (auto simp: is_ascii_digit_def)
  moreover have "list_all is_ascii_digit (dec (unat v))" using dec_digits by (auto simp: list_all_iff)
  moreover have "unat v < 2 ^ 32" using unsigned_less [of v] by simp
  ultimately show ?thesis
    using undec_dec [of "unat v"] by (simp add: parse_u32_def ct Let_def)
qed

lemma ws_len_digit: "is_ascii_digit c \<Longrightarrow> ws_len (c # s) = 0"
  by (cases s; cases "tl s") (auto simp: ws_len_def is_ascii_digit_def)

lemma trim_dec_line: "trim (dec n @ [CHR 0x0A]) = dec n"
proof -
  obtain c t where ct: "dec n = c # t" by (cases "dec n") auto
  have dig: "d \<in> set (dec n) \<Longrightarrow> is_ascii_digit d" for d by (rule dec_digits)
  have start: "trim_start (dec n @ [CHR 0x0A]) = dec n @ [CHR 0x0A]"
    using dig by (simp add: ct ws_len_digit)
  have one: "ws_suffix_len (dec n @ [CHR 0x0A]) = 1"
    by (simp add: ws_suffix_len_def ws_len_def)
  have zero: "ws_suffix_len (dec n) = 0"
  proof -
    have "ws_len (drop k (dec n)) = 0" for k
    proof (cases "drop k (dec n)")
      case (Cons d ds)
      then have "d \<in> set (dec n)" by (metis in_set_dropD list.set_intros(1))
      with Cons show ?thesis using ws_len_digit [OF dig] by simp
    qed simp
    then show ?thesis by (simp add: ws_suffix_len_def)
  qed
  show ?thesis
    by (simp add: trim_def start trim_end.simps [of "dec n @ [CHR 0x0A]"] one) (simp add: zero)
qed

text \<open>\<open>split_inclusive\<close> on the line feed: every line keeps its terminator.\<close>

fun split_inclusive :: "string \<Rightarrow> string list" where
  "split_inclusive [] = []"
| "split_inclusive (a # s) =
     (if a = CHR 0x0A then [a] # split_inclusive s
      else (case split_inclusive s of [] \<Rightarrow> [[a]] | l # ls \<Rightarrow> (a # l) # ls))"

lemma concat_split_inclusive: "concat (split_inclusive s) = s"
  by (induction s) (auto split: list.splits)

lemma split_inclusive_Nil [simp]: "split_inclusive s = [] \<longleftrightarrow> s = []"
  using concat_split_inclusive [of s] by auto

lemma split_inclusive_line:
  "CHR 0x0A \<notin> set s \<Longrightarrow> split_inclusive (s @ CHR 0x0A # t) = (s @ [CHR 0x0A]) # split_inclusive t"
  by (induction s) auto

lemma split_inclusive_append:
  "s = [] \<or> last s = CHR 0x0A \<Longrightarrow> split_inclusive (s @ t) = split_inclusive s @ split_inclusive t"
proof (induction s)
  case (Cons a s)
  then show ?case by (cases "split_inclusive s") (auto split: list.splits if_splits)
qed simp

text \<open>\<open>str::lines\<close>: the lines without their terminator, a line feed or a carriage return and a line feed.\<close>

definition str_lines :: "string \<Rightarrow> string list" where
  "str_lines s =
     map (\<lambda>l. if ends_with l [CHR 0x0D, CHR 0x0A] then take (length l - 2) l
              else if ends_with l [CHR 0x0A] then butlast l else l) (split_inclusive s)"

text \<open>\<open>split_once\<close> at a character, and \<open>splitn\<close> with at most \<open>n\<close> parts.\<close>

definition split_once :: "char \<Rightarrow> string \<Rightarrow> (string \<times> string) option" where
  "split_once c s =
     (if c \<in> set s then Some (takeWhile (\<lambda>x. x \<noteq> c) s, tl (dropWhile (\<lambda>x. x \<noteq> c) s)) else None)"

fun splitn :: "nat \<Rightarrow> char \<Rightarrow> string \<Rightarrow> string list" where
  "splitn 0 c s = []"
| "splitn (Suc 0) c s = [s]"
| "splitn (Suc (Suc n)) c s =
     (case split_once c s of None \<Rightarrow> [s] | Some (a, b) \<Rightarrow> a # splitn (Suc n) c b)"

definition strip_suffix :: "string \<Rightarrow> string \<Rightarrow> string option" where
  "strip_suffix s p = (if ends_with s p then Some (take (length s - length p) s) else None)"


text \<open>
  \<open>String::from_utf8_lossy\<close>: every maximal prefix of a scalar value that is cut short becomes
  one replacement character, and so does every byte that starts no scalar value.
\<close>

definition REPLACEMENT :: string where
  "REPLACEMENT = [CHR 0xEF, CHR 0xBF, CHR 0xBD]"

definition second_ok :: "char \<Rightarrow> char \<Rightarrow> bool" where
  "second_ok a b \<longleftrightarrow>
     is_continuation b \<and> (byte a = 224 \<longrightarrow> 160 \<le> byte b) \<and> (byte a = 237 \<longrightarrow> byte b \<le> 159)
     \<and> (byte a = 240 \<longrightarrow> 144 \<le> byte b) \<and> (byte a = 244 \<longrightarrow> byte b \<le> 143)"

fun utf8_lossy :: "string \<Rightarrow> string" where
  "utf8_lossy [] = []"
| "utf8_lossy (a # s) =
     (if byte a < 128 then a # utf8_lossy s
      else if 194 \<le> byte a \<and> byte a \<le> 223 then
        (case s of
           b # t \<Rightarrow> if is_continuation b then a # b # utf8_lossy t else REPLACEMENT @ utf8_lossy s
         | [] \<Rightarrow> REPLACEMENT)
      else if 224 \<le> byte a \<and> byte a \<le> 239 then
        (case s of
           b # t \<Rightarrow>
             if \<not> second_ok a b then REPLACEMENT @ utf8_lossy s
             else (case t of
                     c # u \<Rightarrow> if is_continuation c then a # b # c # utf8_lossy u else REPLACEMENT @ utf8_lossy t
                   | [] \<Rightarrow> REPLACEMENT)
         | [] \<Rightarrow> REPLACEMENT)
      else if 240 \<le> byte a \<and> byte a \<le> 244 then
        (case s of
           b # t \<Rightarrow>
             if \<not> second_ok a b then REPLACEMENT @ utf8_lossy s
             else (case t of
                     c # u \<Rightarrow>
                       if \<not> is_continuation c then REPLACEMENT @ utf8_lossy t
                       else (case u of
                               d # v \<Rightarrow> if is_continuation d then a # b # c # d # utf8_lossy v
                                         else REPLACEMENT @ utf8_lossy u
                             | [] \<Rightarrow> REPLACEMENT)
                   | [] \<Rightarrow> REPLACEMENT)
         | [] \<Rightarrow> REPLACEMENT)
      else REPLACEMENT @ utf8_lossy s)"

declare utf8_lossy.simps [simp del] utf8_valid.simps [simp del]

lemma utf8_lossy_valid: "utf8_valid s \<Longrightarrow> utf8_lossy s = s"
proof (induction s rule: utf8_valid.induct)
  case (2 a s)
  show ?case
  proof (cases s)
    case Nil
    then show ?thesis using "2.prems"
      by (simp add: utf8_valid.simps utf8_lossy.simps split: if_splits)
  next
    case (Cons b t)
    show ?thesis using "2.prems" "2.IH" Cons
      by (cases t; cases "tl t")
         (auto simp: utf8_valid.simps(2) [of a] utf8_lossy.simps(2) [of a] second_ok_def split: if_splits)
  qed
qed (simp add: utf8_lossy.simps)

declare utf8_lossy.simps [simp] utf8_valid.simps [simp]

text \<open>\<open>rsplit_once\<close> at a character, \<open>trim_end_matches\<close> of a character, \<open>find\<close> of a substring.\<close>

definition rsplit_once :: "char \<Rightarrow> string \<Rightarrow> (string \<times> string) option" where
  "rsplit_once c s =
     (case split_once c (rev s) of None \<Rightarrow> None | Some (b, a) \<Rightarrow> Some (rev a, rev b))"

lemma rsplit_once_Some:
  "rsplit_once c s = Some (a, b) \<longleftrightarrow> s = a @ c # b \<and> c \<notin> set b"
proof
  assume "rsplit_once c s = Some (a, b)"
  then have m: "c \<in> set s" and b: "rev b = takeWhile (\<lambda>x. x \<noteq> c) (rev s)"
    and a: "rev a = tl (dropWhile (\<lambda>x. x \<noteq> c) (rev s))"
    by (auto simp: rsplit_once_def split_once_def split: if_splits option.splits)
  then have ne: "dropWhile (\<lambda>x. x \<noteq> c) (rev s) \<noteq> []" by (auto simp: dropWhile_eq_Nil_conv)
  from hd_dropWhile [OF ne] have "dropWhile (\<lambda>x. x \<noteq> c) (rev s) = c # rev a"
    using ne a by (metis list.collapse)
  then have "rev s = rev b @ c # rev a"
    using b takeWhile_dropWhile_id [of "\<lambda>x. x \<noteq> c" "rev s"] by simp
  then have "s = a @ c # b" by (metis append.assoc append_Cons append_Nil rev.simps(2) rev_append rev_rev_ident)
  moreover have "c \<notin> set b" using b set_takeWhileD [of c "\<lambda>x. x \<noteq> c" "rev s"] by (metis set_rev)
  ultimately show "s = a @ c # b \<and> c \<notin> set b" ..
next
  assume "s = a @ c # b \<and> c \<notin> set b"
  then show "rsplit_once c s = Some (a, b)"
    by (auto simp: rsplit_once_def split_once_def takeWhile_append dropWhile_append)
qed

lemma rsplit_once_None: "rsplit_once c s = None \<longleftrightarrow> c \<notin> set s"
  by (auto simp: rsplit_once_def split_once_def)

definition trim_end_matches :: "char \<Rightarrow> string \<Rightarrow> string" where
  "trim_end_matches c s = rev (dropWhile (\<lambda>x. x = c) (rev s))"

fun str_find :: "string \<Rightarrow> string \<Rightarrow> nat option" where
  "str_find s p = (if starts_with s p then Some 0 else case s of [] \<Rightarrow> None | _ # t \<Rightarrow> map_option Suc (str_find t p))"

declare str_find.simps [simp del]

end
