(* ===== verification/Catalog_Grants.thy ===== *)
theory Catalog_Grants
  imports Rust_Str
begin

text \<open>
  The file-grant part of \<^verbatim>\<open>src/catalog.rs\<close>: access sets as bit sets over \<open>u8\<close> with their
  two text forms, the structural shape of a grant, the path gates a grant passes before it
  can reach \<^verbatim>\<open>setfacl\<close> as root, and the union of grants by path.
\<close>

unbundle bit_operations_syntax

subsection \<open>Access sets\<close>

type_synonym access = u8

definition READ :: access where "READ = 1"
definition WRITE :: access where "WRITE = 2"
definition EXECUTE :: access where "EXECUTE = 4"
definition TRAVERSE :: access where "TRAVERSE = 8"
definition RO :: access where "RO = READ OR TRAVERSE"
definition RW :: access where "RW = READ OR WRITE OR TRAVERSE"

lemmas access_consts = READ_def WRITE_def EXECUTE_def TRAVERSE_def RO_def RW_def

definition contains :: "access \<Rightarrow> access \<Rightarrow> bool" where
  "contains a b \<longleftrightarrow> a AND b = b"

definition access_union :: "access \<Rightarrow> access \<Rightarrow> access" where
  "access_union a b = a OR b"

definition display_token :: "access \<Rightarrow> string" where
  "display_token a =
     (if a = RO then ''ro'' else if a = RW then ''rw''
      else (if contains a READ then ''r'' else []) @ (if contains a WRITE then ''w'' else [])
         @ (if contains a EXECUTE then ''x'' else []) @ (if contains a TRAVERSE then ''X'' else []))"

definition parse_compact_access :: "string \<Rightarrow> access option" where
  "parse_compact_access s =
     (if s = ''ro'' then Some RO
      else if s = ''rw'' then Some RW
      else if s = ''r'' then Some READ
      else if s = ''w'' then Some WRITE
      else if s = ''x'' then Some EXECUTE
      else if s = ''rx'' then Some (access_union READ EXECUTE)
      else if s = ''wx'' then Some (access_union WRITE EXECUTE)
      else if s = ''rwx'' then Some (access_union (access_union READ WRITE) EXECUTE)
      else None)"

datatype access_error = EmptyBitList | UnknownBit string | DuplicateBit string | UnknownAccess string

definition bit_of_name :: "string \<Rightarrow> access option" where
  "bit_of_name n =
     (if n = ''read'' then Some READ else if n = ''write'' then Some WRITE
      else if n = ''execute'' then Some EXECUTE else if n = ''traverse'' then Some TRAVERSE
      else None)"

fun parse_bit_names_loop :: "string list \<Rightarrow> access \<Rightarrow> access_error + access" where
  "parse_bit_names_loop [] acc = Ok acc"
| "parse_bit_names_loop (n # ns) acc =
     (case bit_of_name n of
        None \<Rightarrow> Err (UnknownBit n)
      | Some b \<Rightarrow> if contains acc b then Err (DuplicateBit n)
                  else parse_bit_names_loop ns (acc OR b))"

definition parse_bit_names :: "string list \<Rightarrow> access_error + access" where
  "parse_bit_names ns = (if ns = [] then Err EmptyBitList else parse_bit_names_loop ns 0)"

text \<open>The two TOML forms of an access: a string, or an array of bit names.\<close>

datatype raw_access = Compact string | Bits "string list"

definition access_deserialize :: "raw_access \<Rightarrow> access_error + access" where
  "access_deserialize r =
     (case r of
        Compact s \<Rightarrow> (case parse_compact_access s of Some a \<Rightarrow> Ok a | None \<Rightarrow> Err (UnknownAccess s))
      | Bits ns \<Rightarrow> parse_bit_names ns)"

definition access_serialize :: "access \<Rightarrow> raw_access" where
  "access_serialize a =
     (if a = RO then Compact ''ro''
      else if a = RW then Compact ''rw''
      else Bits (map snd (filter (\<lambda>(b, _). contains a b)
              [(READ, ''read''), (WRITE, ''write''), (EXECUTE, ''execute''), (TRAVERSE, ''traverse'')])))"

definition access_valid :: "access \<Rightarrow> bool" where
  "access_valid a \<longleftrightarrow> a \<noteq> 0 \<and> a < 16"

lemma contains_union: "contains a c \<or> contains b c \<Longrightarrow> contains (a OR b) c"
  unfolding contains_def by (auto simp: bit_eq_iff bit_simps)

lemma access_cases:
  assumes "access_valid a"
  shows "a \<in> {1,2,3,4,5,6,7,8,9,10,11,12,13,14,15}"
proof -
  have "unat a < 16" "unat a \<noteq> 0"
    using assms by (simp_all add: access_valid_def word_less_nat_alt unat_eq_0)
  then have "unat a \<in> {1,2,3,4,5,6,7,8,9,10,11,12,13,14,15}"
    by (simp add: numeral_eq_Suc less_Suc_eq)
  then have "word_of_nat (unat a) \<in> (word_of_nat :: nat \<Rightarrow> access) ` {1,2,3,4,5,6,7,8,9,10,11,12,13,14,15}"
    by (rule imageI)
  then show ?thesis by simp
qed

lemma access_roundtrip_aux:
  "a \<in> {1,2,3,4,5,6,7,8,9,10,11,12,13,14,15} \<Longrightarrow> access_deserialize (access_serialize a) = Ok a"
  by (elim insertE emptyE)
    (simp_all add: access_serialize_def access_deserialize_def parse_bit_names_def
      bit_of_name_def parse_compact_access_def contains_def access_consts)

subsection \<open>Placeholders and path gates\<close>

function extract_placeholders :: "string \<Rightarrow> string list" where
  "extract_placeholders s =
     (case dropWhile (\<lambda>c. c \<noteq> CHR ''{'') s of
        [] \<Rightarrow> []
      | _ # after \<Rightarrow>
          (case dropWhile (\<lambda>c. c \<noteq> CHR ''}'') after of
             [] \<Rightarrow> []
           | _ # rest \<Rightarrow>
               (let name = takeWhile (\<lambda>c. c \<noteq> CHR ''}'') after in
                (if name \<noteq> [] then [name] else []) @ extract_placeholders rest)))"
  by pat_completeness auto
termination
proof (relation "measure length")
  fix s :: string and x after y rest
  assume "dropWhile (\<lambda>c. c \<noteq> CHR ''{'') s = x # after"
    and "dropWhile (\<lambda>c. c \<noteq> CHR ''}'') after = y # rest"
  then have "length (x # after) \<le> length s" "length (y # rest) \<le> length after"
    by (metis length_dropWhile_le)+
  then show "(rest, s) \<in> measure length" by simp
qed auto

declare extract_placeholders.simps [simp del]

definition has_placeholder :: "string \<Rightarrow> bool" where
  "has_placeholder s \<longleftrightarrow> extract_placeholders s \<noteq> []"

definition has_dotdot_component :: "string \<Rightarrow> bool" where
  "has_dotdot_component p \<longleftrightarrow> ''..'' \<in> set (split_on (CHR ''/'') p)"

datatype path_defect =
  ControlCharacter | EmptyOrBlank | NotAbsolute | DotDotComponent | TrailingSlashNotRecursive

definition file_path_static_defect :: "path \<Rightarrow> path_defect option" where
  "file_path_static_defect p =
     (if has_control p then Some ControlCharacter
      else if trim_is_empty p then Some EmptyOrBlank
      else if has_placeholder p then None
      else if \<not> starts_with p ''/'' then Some NotAbsolute
      else if has_dotdot_component p then Some DotDotComponent
      else None)"

definition file_path_defect_substituted :: "path \<Rightarrow> path_defect option" where
  "file_path_defect_substituted p =
     (if has_control p then Some ControlCharacter
      else if trim_is_empty p then Some EmptyOrBlank
      else if \<not> starts_with p ''/'' then Some NotAbsolute
      else if has_dotdot_component p then Some DotDotComponent
      else None)"

definition sudo_command_defect :: "string \<Rightarrow> path_defect option" where
  "sudo_command_defect v =
     (if has_control v then Some ControlCharacter
      else if trim_is_empty v then Some EmptyOrBlank
      else if \<not> starts_with v ''/'' then Some NotAbsolute
      else if has_dotdot_component v then Some DotDotComponent
      else None)"

definition sudo_command_static_defect :: "string \<Rightarrow> path_defect option" where
  "sudo_command_static_defect v =
     (if has_control v then Some ControlCharacter
      else if trim_is_empty v then Some EmptyOrBlank
      else if \<not> has_placeholder v \<and> \<not> starts_with v ''/'' then Some NotAbsolute
      else None)"

text \<open>The gate on a \<^verbatim>\<open>runas\<close> user spliced into a sudoers run-spec.\<close>

fun has_whitespace :: "string \<Rightarrow> bool" where
  "has_whitespace [] = False"
| "has_whitespace (a # s) = (ws_len (a # s) > 0 \<or> has_whitespace s)"

definition RUNAS_MAX_LEN :: nat where "RUNAS_MAX_LEN = 32"

datatype runas_reason =
  RunasEmpty | RunasTooLong | RunasControl | RunasWhitespace | RunasTemplated | RunasMetachar
| RunasBareDollar | RunasBadStart | RunasNotPortable

definition runas_defect :: "string \<Rightarrow> runas_reason option" where
  "runas_defect v =
     (if v = [] then Some RunasEmpty
      else if length v > RUNAS_MAX_LEN then Some RunasTooLong
      else if has_control v then Some RunasControl
      else if has_whitespace v then Some RunasWhitespace
      else if CHR ''{'' \<in> set v \<or> CHR ''}'' \<in> set v then Some RunasTemplated
      else if list_ex (\<lambda>c. c \<in> set '',:=()!'' \<or> c = CHR 0x5C) v then Some RunasMetachar
      else (let core = if last v = CHR ''$'' then butlast v else v in
        case core of
          [] \<Rightarrow> Some RunasBareDollar
        | first # rest \<Rightarrow>
            (if \<not> (is_ascii_lowercase first \<or> first = CHR ''_'') then Some RunasBadStart
             else if \<not> list_all (\<lambda>c. is_ascii_lowercase c \<or> is_ascii_digit c
                                   \<or> c = CHR ''_'' \<or> c = CHR ''-'') rest
             then Some RunasNotPortable
             else None)))"

subsection \<open>Grants and their shape\<close>

datatype shape = Dir | File | Pattern

record file_grant =
  fg_path :: path
  fg_access :: access
  fg_recursive :: bool

definition has_glob_metachar :: "path \<Rightarrow> bool" where
  "has_glob_metachar p \<longleftrightarrow> CHR ''*'' \<in> set p \<or> CHR ''?'' \<in> set p \<or> CHR ''['' \<in> set p"

definition shape_of :: "file_grant \<Rightarrow> shape" where
  "shape_of g =
     (if has_glob_metachar (fg_path g) then Pattern
      else if fg_recursive g \<or> ends_with (fg_path g) ''/'' then Dir
      else File)"

definition static_path_defect :: "file_grant \<Rightarrow> path_defect option" where
  "static_path_defect g =
     (case file_path_static_defect (fg_path g) of
        Some r \<Rightarrow> Some r
      | None \<Rightarrow>
          if ends_with (fg_path g) ''/'' \<and> \<not> fg_recursive g \<and> \<not> has_placeholder (fg_path g)
          then Some TrailingSlashNotRecursive else None)"

record sourced_file_grant =
  sfg_layer :: string
  sfg_via :: "string option"
  sfg_binding :: "string option"

record resolved_file_grant =
  rfg_path :: path
  rfg_access :: access
  rfg_recursive :: bool
  rfg_shape :: shape
  rfg_sources :: "sourced_file_grant list"

definition grant_shape :: "path \<Rightarrow> access \<Rightarrow> bool \<Rightarrow> shape" where
  "grant_shape p a r = shape_of \<lparr>fg_path = p, fg_access = a, fg_recursive = r\<rparr>"

text \<open>Merging a grant into the entry that already holds its path.\<close>

definition merge_grant :: "resolved_file_grant \<Rightarrow> resolved_file_grant \<Rightarrow> resolved_file_grant" where
  "merge_grant e g =
     (let a = rfg_access e OR rfg_access g; r = rfg_recursive e \<or> rfg_recursive g in
      e\<lparr>rfg_access := a, rfg_recursive := r, rfg_shape := grant_shape (rfg_path e) a r,
        rfg_sources := rfg_sources e @ rfg_sources g\<rparr>)"

fun add_grant :: "resolved_file_grant \<Rightarrow> resolved_file_grant list \<Rightarrow> resolved_file_grant list" where
  "add_grant g [] = [g]"
| "add_grant g (e # es) = (if rfg_path e = rfg_path g then merge_grant e g # es else e # add_grant g es)"

definition union_resolved_file_grants :: "resolved_file_grant list \<Rightarrow> resolved_file_grant list" where
  "union_resolved_file_grants gs = fold add_grant gs []"

definition union_file_grants ::
    "(file_grant \<times> string) list \<Rightarrow> string option \<Rightarrow> resolved_file_grant list" where
  "union_file_grants raw via =
     fold (\<lambda>(g, layer) out.
        add_grant \<lparr>rfg_path = fg_path g, rfg_access = fg_access g, rfg_recursive = fg_recursive g,
                   rfg_shape = shape_of g,
                   rfg_sources = [\<lparr>sfg_layer = layer, sfg_via = via, sfg_binding = None\<rparr>]\<rparr> out)
       raw []"

subsection \<open>Facts about the union of grants\<close>

abbreviation grant_paths :: "resolved_file_grant list \<Rightarrow> path list" where
  "grant_paths gs \<equiv> map rfg_path gs"

lemma merge_grant_sel [simp]:
  "rfg_path (merge_grant e g) = rfg_path e"
  "rfg_access (merge_grant e g) = rfg_access e OR rfg_access g"
  "rfg_recursive (merge_grant e g) = (rfg_recursive e \<or> rfg_recursive g)"
  by (simp_all add: merge_grant_def Let_def)

lemma add_grant_paths: "set (grant_paths (add_grant g es)) = insert (rfg_path g) (set (grant_paths es))"
  by (induction es) (auto split: if_splits)

lemma add_grant_distinct: "distinct (grant_paths es) \<Longrightarrow> distinct (grant_paths (add_grant g es))"
proof (induction es)
  case Nil
  then show ?case by simp
next
  case (Cons e es)
  then show ?case using add_grant_paths [of g es] by auto
qed

lemma fold_add_grant_distinct:
  "distinct (grant_paths out) \<Longrightarrow> distinct (grant_paths (fold add_grant gs out))"
  by (induction gs arbitrary: out) (auto simp: add_grant_distinct)

text \<open>What an entry of a grant list gives at a path: its access bits and its recursion.\<close>

definition bits_at :: "resolved_file_grant list \<Rightarrow> path \<Rightarrow> nat \<Rightarrow> bool" where
  "bits_at gs p n \<longleftrightarrow> (\<exists>g\<in>set gs. rfg_path g = p \<and> bit (rfg_access g) n)"

definition recursive_at :: "resolved_file_grant list \<Rightarrow> path \<Rightarrow> bool" where
  "recursive_at gs p \<longleftrightarrow> (\<exists>g\<in>set gs. rfg_path g = p \<and> rfg_recursive g)"

lemma bits_at_simps [simp]:
  "\<not> bits_at [] p n"
  "bits_at (g # gs) p n \<longleftrightarrow> rfg_path g = p \<and> bit (rfg_access g) n \<or> bits_at gs p n"
  by (auto simp: bits_at_def)

lemma recursive_at_simps [simp]:
  "\<not> recursive_at [] p"
  "recursive_at (g # gs) p \<longleftrightarrow> rfg_path g = p \<and> rfg_recursive g \<or> recursive_at gs p"
  by (auto simp: recursive_at_def)

lemma add_grant_bits: "bits_at (add_grant g es) p n \<longleftrightarrow> bits_at (g # es) p n"
  by (induction es) (auto simp: bit_simps)

lemma add_grant_recursive: "recursive_at (add_grant g es) p \<longleftrightarrow> recursive_at (g # es) p"
  by (induction es) auto

lemma fold_add_grant_bits:
  "bits_at (fold add_grant gs out) p n \<longleftrightarrow> bits_at gs p n \<or> bits_at out p n"
  by (induction gs arbitrary: out) (auto simp: add_grant_bits)

lemma fold_add_grant_recursive:
  "recursive_at (fold add_grant gs out) p \<longleftrightarrow> recursive_at gs p \<or> recursive_at out p"
  by (induction gs arbitrary: out) (auto simp: add_grant_recursive)

lemma fold_add_grant_paths:
  "set (grant_paths (fold add_grant gs out)) = set (grant_paths gs) \<union> set (grant_paths out)"
  by (induction gs arbitrary: out) (simp_all add: add_grant_paths del: set_map)

lemma union_grants_distinct [simp]: "distinct (grant_paths (union_resolved_file_grants gs))"
  by (simp add: union_resolved_file_grants_def fold_add_grant_distinct)

lemma add_grant_fresh: "rfg_path g \<notin> set (grant_paths es) \<Longrightarrow> add_grant g es = es @ [g]"
  by (induction es) auto

lemma union_grants_id:
  assumes "distinct (grant_paths gs)"
  shows "union_resolved_file_grants gs = gs"
proof -
  have "distinct (grant_paths (out @ gs)) \<Longrightarrow> fold add_grant gs out = out @ gs" for out
  proof (induction gs arbitrary: out)
    case Nil
    then show ?case by simp
  next
    case (Cons g gs)
    then have "add_grant g out = out @ [g]" by (intro add_grant_fresh) auto
    with Cons show ?case by simp
  qed
  from this [of "[]"] assms show ?thesis by (simp add: union_resolved_file_grants_def)
qed

lemma parse_bit_names_loop_valid:
  "parse_bit_names_loop ns acc = Ok a \<Longrightarrow> acc < 16 \<Longrightarrow> a < 16 \<and> (ns \<noteq> [] \<or> acc \<noteq> 0 \<longrightarrow> a \<noteq> 0)"
proof (induction ns arbitrary: acc)
  case Nil
  then show ?case by simp
next
  case (Cons n ns)
  obtain b where b: "bit_of_name n = Some b" and rest: "parse_bit_names_loop ns (acc OR b) = Ok a"
    using Cons.prems(1) by (auto split: option.splits if_splits)
  have b_in: "b \<in> {1, 2, 4, 8}" using b by (auto simp: bit_of_name_def access_consts split: if_splits)
  have acc_in: "acc = 0 \<or> acc \<in> {1,2,3,4,5,6,7,8,9,10,11,12,13,14,15}"
    using Cons.prems(2) access_cases [of acc] by (auto simp: access_valid_def)
  have "acc OR b < 16 \<and> acc OR b \<noteq> 0" using b_in acc_in by (elim insertE emptyE disjE) simp_all
  with Cons.IH [OF rest] show ?case by simp
qed

lemma access_deserialize_valid: "access_deserialize r = Ok a \<Longrightarrow> access_valid a"
proof (cases r)
  case (Compact s)
  assume "access_deserialize r = Ok a"
  with Compact show ?thesis
    by (auto simp: access_deserialize_def parse_compact_access_def access_consts access_union_def
        access_valid_def split: if_splits option.splits)
next
  case (Bits ns)
  assume "access_deserialize r = Ok a"
  with Bits show ?thesis
    using parse_bit_names_loop_valid [of ns 0 a]
    by (auto simp: access_deserialize_def parse_bit_names_def access_valid_def split: if_splits)
qed

subsection \<open>Properties\<close>

text \<open>
  every access set that any text form denotes survives being written to the registry and
  read back: the set stays the same, so a recorded grant never changes meaning.
\<close>

theorem access_persist_roundtrip:
  assumes "access_deserialize r = Ok a"
  shows "access_valid a \<and> access_deserialize (access_serialize a) = Ok a"
  using access_deserialize_valid [OF assms] access_roundtrip_aux [OF access_cases] by simp

theorem access_persist_roundtrip_witness:
  "access_deserialize (access_serialize (READ OR WRITE)) = Ok (READ OR WRITE)
   \<and> access_deserialize (Compact ''rw'') = Ok RW \<and> READ OR WRITE \<noteq> RW"
proof -
  have "access_deserialize (Bits [''read'', ''write'']) = Ok (READ OR WRITE)" by code_simp
  from access_persist_roundtrip [OF this] show ?thesis by code_simp
qed

text \<open>
  The union of grants keeps one entry per path and loses or invents nothing: at every
  path an access bit is granted after the union iff some grant at that path had it, and the
  grant is recursive iff one of them was.
\<close>

theorem union_grants_exact:
  "distinct (grant_paths (union_resolved_file_grants gs))
   \<and> set (grant_paths (union_resolved_file_grants gs)) = set (grant_paths gs)
   \<and> (bits_at (union_resolved_file_grants gs) p n \<longleftrightarrow> bits_at gs p n)
   \<and> (recursive_at (union_resolved_file_grants gs) p \<longleftrightarrow> recursive_at gs p)"
  using fold_add_grant_paths [of gs "[]"] fold_add_grant_bits [of gs "[]"] fold_add_grant_recursive [of gs "[]"]
  by (simp add: union_resolved_file_grants_def fold_add_grant_distinct)

end
