(* ===== verification/Domain.thy ===== *)
theory Domain
  imports Catalog_Grants
begin

text \<open>
  The data that flows between the components: what a role contributes
  (\<^verbatim>\<open>src/rolestore.rs\<close>), the resolved targets (\<^verbatim>\<open>src/model.rs\<close>) and the records of the
  managed registry (\<^verbatim>\<open>src/state.rs\<close>), with the bounded file read every root-side input
  goes through (\<^verbatim>\<open>src/fsutil.rs\<close>).  The TOML parser is a parameter of the readers.
\<close>

subsection \<open>Sudo commands\<close>

record sudo_command =
  sc_command :: string
  sc_runas :: "string option"

definition sudo_root :: "string \<Rightarrow> sudo_command" where
  "sudo_root c = \<lparr>sc_command = c, sc_runas = None\<rparr>"

definition sudo_as_user :: "string \<Rightarrow> string \<Rightarrow> sudo_command" where
  "sudo_as_user c u = \<lparr>sc_command = c, sc_runas = Some u\<rparr>"

definition sudo_display :: "sudo_command \<Rightarrow> string" where
  "sudo_display c =
     (case sc_runas c of
        Some u \<Rightarrow> sc_command c @ '' (as '' @ u @ '')''
      | None \<Rightarrow> sc_command c)"

text \<open>The two on-disk forms: a bare string, or a table with an optional \<open>runas\<close>.\<close>

datatype raw_sudo = SudoBare string | SudoTable string "string option"

definition sudo_serialize :: "sudo_command \<Rightarrow> raw_sudo" where
  "sudo_serialize c =
     (case sc_runas c of
        None \<Rightarrow> SudoBare (sc_command c)
      | Some u \<Rightarrow> SudoTable (sc_command c) (Some u))"

definition sudo_deserialize :: "raw_sudo \<Rightarrow> sudo_command" where
  "sudo_deserialize r =
     (case r of
        SudoBare c \<Rightarrow> \<lparr>sc_command = c, sc_runas = None\<rparr>
      | SudoTable c u \<Rightarrow> \<lparr>sc_command = c, sc_runas = u\<rparr>)"

lemma sudo_deserialize_serialize [simp]: "sudo_deserialize (sudo_serialize c) = c"
  by (cases c) (simp add: sudo_serialize_def sudo_deserialize_def split: option.splits)

subsection \<open>Role composition\<close>

record limits =
  nofile :: "u64 option"
  nproc :: "u64 option"

definition limits_default :: limits where
  "limits_default = \<lparr>nofile = None, nproc = None\<rparr>"

text \<open>
  Parameter values: a TOML value with tables and datetimes collapsed.  A float is its
  IEEE 754 bit pattern; nothing in the source computes with it.
\<close>

datatype toml_value =
  TString string | TInteger "64 word" | TFloat u64 | TBoolean bool
| TArray "toml_value list" | TDatetime string | TTable "(string \<times> toml_value) list"

datatype param_value =
  PString string | PInteger "64 word" | PFloat u64 | PBoolean bool
| PArray "param_value list" | POther

fun from_toml :: "toml_value \<Rightarrow> param_value" where
  "from_toml (TString s) = PString s"
| "from_toml (TInteger i) = PInteger i"
| "from_toml (TFloat f) = PFloat f"
| "from_toml (TBoolean b) = PBoolean b"
| "from_toml (TArray vs) = PArray (map from_toml vs)"
| "from_toml (TDatetime _) = POther"
| "from_toml (TTable _) = POther"

record permission_ref =
  pr_id :: string
  pr_params :: "(string, param_value) btree"

datatype raw_permission = PermBare string | PermTable "(string, toml_value) btree"

datatype permission_ref_error = PermIdNotString | PermIdMissing

definition permission_ref_deserialize :: "raw_permission \<Rightarrow> permission_ref_error + permission_ref" where
  "permission_ref_deserialize r =
     (case r of
        PermBare i \<Rightarrow> Ok \<lparr>pr_id = i, pr_params = []\<rparr>
      | PermTable m \<Rightarrow>
          (case bt_get m ''id'' of
             None \<Rightarrow> Err PermIdMissing
           | Some (TString i) \<Rightarrow>
               Ok \<lparr>pr_id = i,
                   pr_params = map (\<lambda>(k, v). (k, from_toml v)) (filter (\<lambda>(k, _). k \<noteq> ''id'') m)\<rparr>
           | Some _ \<Rightarrow> Err PermIdNotString))"

record role_composition =
  rc_groups :: "string list"
  rc_sudo_role :: "string option"
  rc_limits :: limits
  rc_files :: "file_grant list"
  rc_sudo :: "string list"
  rc_permissions :: "permission_ref list"

record slice_payload =
  sp_groups :: "string list option"
  sp_sudo_role :: "string option"
  sp_limits :: "limits option"
  sp_files :: "file_grant list option"
  sp_sudo :: "string list option"
  sp_permissions :: "permission_ref list option"

text \<open>The on-disk slice: everything but its \<open>[payload]\<close> table is ignored.\<close>

record slice = sl_payload :: "slice_payload option"

subsection \<open>Bounded reads\<close>

text \<open>
  What the file system shows of a path when a reader opens it: an I/O error, or a file with
  the length its metadata reports and the bytes a read to the end would give, which need not
  agree with that length (the file may grow after the \<^verbatim>\<open>stat\<close>).
\<close>

datatype io_error = IoOs string | IoInvalidData | IoNotFound | IoAlreadyExists

record file_view =
  fv_reported :: u64
  fv_bytes :: string

definition MAX_INPUT_FILE_BYTES :: u64 where
  "MAX_INPUT_FILE_BYTES = 4 * 1024 * 1024"

text \<open>\<open>u64::saturating_add\<close>.\<close>

definition saturating_add :: "u64 \<Rightarrow> u64 \<Rightarrow> u64" where
  "saturating_add a b = (if unat a + unat b < 2 ^ 64 then a + b else - 1)"

definition read_capped ::
    "io_error + file_view \<Rightarrow> u64 \<Rightarrow> io_error + string" where
  "read_capped opened max_bytes =
     try_bind opened (\<lambda>f.
       if fv_reported f > max_bytes then Err IoInvalidData
       else (let buf = take (unat (saturating_add max_bytes 1)) (fv_bytes f) in
         if \<not> utf8_valid buf then Err IoInvalidData
         else if length buf > unat max_bytes then Err IoInvalidData
         else Ok buf))"

datatype role_store_error =
  RsNotFound path | RsIo path io_error | RsTomlParse path string

definition read_composition ::
    "(path \<Rightarrow> bool) \<Rightarrow> (path \<Rightarrow> io_error + file_view) \<Rightarrow> (string \<Rightarrow> string + slice) \<Rightarrow>
     path \<Rightarrow> string \<Rightarrow> role_store_error + role_composition" where
  "read_composition exists open_file toml_parse role_store role =
     (let p = path_join role_store (role @ ''.toml'') in
      if \<not> exists p then Err (RsNotFound p)
      else try_bind (map_err (RsIo p) (read_capped (open_file p) MAX_INPUT_FILE_BYTES)) (\<lambda>text.
        try_bind (map_err (RsTomlParse p) (toml_parse text)) (\<lambda>sl.
          let payload = (case sl_payload sl of Some q \<Rightarrow> q | None \<Rightarrow>
                \<lparr>sp_groups = None, sp_sudo_role = None, sp_limits = None, sp_files = None,
                 sp_sudo = None, sp_permissions = None\<rparr>) in
          Ok \<lparr>rc_groups = (case sp_groups payload of Some g \<Rightarrow> g | None \<Rightarrow> []),
              rc_sudo_role = sp_sudo_role payload,
              rc_limits = (case sp_limits payload of Some l \<Rightarrow> l | None \<Rightarrow> limits_default),
              rc_files = (case sp_files payload of Some f \<Rightarrow> f | None \<Rightarrow> []),
              rc_sudo = (case sp_sudo payload of Some s \<Rightarrow> s | None \<Rightarrow> []),
              rc_permissions = (case sp_permissions payload of Some q \<Rightarrow> q | None \<Rightarrow> [])\<rparr>)))"

subsection \<open>Resolved targets\<close>

datatype provenance = Created | Adopted

record resolved_account =
  ra_name :: string
  ra_uid :: u32
  ra_shell :: string
  ra_home :: path
  ra_groups :: "string list"
  ra_sudo_role :: "string option"
  ra_sudo_commands :: "sudo_command list"
  ra_limits :: limits
  ra_file_grants :: "resolved_file_grant list"
  ra_locked_password :: bool
  ra_provenance :: provenance

definition account_builder :: "string \<Rightarrow> u32 \<Rightarrow> string \<Rightarrow> path \<Rightarrow> resolved_account" where
  "account_builder nm uid shell home =
     \<lparr>ra_name = nm, ra_uid = uid, ra_shell = shell, ra_home = home, ra_groups = [],
      ra_sudo_role = None, ra_sudo_commands = [], ra_limits = limits_default,
      ra_file_grants = [], ra_locked_password = True, ra_provenance = Created\<rparr>"

record resolved_group =
  rg_name :: string
  rg_gid :: "u32 option"
  rg_provenance :: provenance
  rg_members :: "string list"
  rg_sudo_commands :: "sudo_command list"
  rg_file_grants :: "resolved_file_grant list"
  rg_limits :: limits
  rg_bound_roles :: "string list"

subsection \<open>The managed registry\<close>

record managed_file_grant =
  mfg_path :: path
  mfg_access :: access
  mfg_recursive :: bool

definition from_resolved :: "resolved_file_grant \<Rightarrow> managed_file_grant" where
  "from_resolved g = \<lparr>mfg_path = rfg_path g, mfg_access = rfg_access g, mfg_recursive = rfg_recursive g\<rparr>"

record group_baseline =
  gb_gid :: "u32 option"
  gb_members :: "string list"

record managed_account =
  ma_name :: string
  ma_uid :: u32
  ma_shell :: string
  ma_groups :: "string list"
  ma_sudo_role :: "string option"
  ma_sudo_commands :: "sudo_command list"
  ma_file_grants :: "managed_file_grant list"
  ma_provenance :: provenance
  ma_from_version :: u32

record managed_group =
  mg_name :: string
  mg_gid :: "u32 option"
  mg_provenance :: provenance
  mg_members_added :: "string list"
  mg_sudo_commands :: "sudo_command list"
  mg_file_grants :: "managed_file_grant list"
  mg_adopt_baseline :: "group_baseline option"
  mg_from_version :: u32

record registry_file =
  rf_accounts :: "managed_account list"
  rf_groups :: "managed_group list"

record registry_state =
  rs_accounts :: "(string, managed_account) btree"
  rs_groups :: "(string, managed_group) btree"

definition default_empty :: registry_state where
  "default_empty = \<lparr>rs_accounts = [], rs_groups = []\<rparr>"

subsection \<open>What a bounded read returns\<close>

lemma saturating_add_one:
  assumes "m < - 1"
  shows "unat (saturating_add m 1) = Suc (unat m)"
proof -
  have "unat m + 1 < 2 ^ 64"
    using assms by (simp add: word_less_nat_alt unsigned_minus_1_eq_mask mask_eq_exp_minus_1)
  then show ?thesis by (simp add: saturating_add_def unat_word_ariths(1))
qed

lemma read_capped_small:
  assumes "length (fv_bytes f) \<le> unat m" and "m < - 1" and "fv_reported f \<le> m" and "utf8_valid (fv_bytes f)"
  shows "read_capped (Ok f) m = Ok (fv_bytes f)"
  using assms by (simp add: read_capped_def saturating_add_one Let_def)

lemma read_capped_Ok:
  assumes "read_capped opened m = Ok s" and "m < - 1"
  shows "\<exists>f. opened = Ok f \<and> s = fv_bytes f \<and> length s \<le> unat m \<and> utf8_valid s"
proof -
  from assms obtain f where f: "opened = Ok f" and s: "s = take (Suc (unat m)) (fv_bytes f)"
    and len: "length s \<le> unat m" and utf8: "utf8_valid s"
    by (auto simp: read_capped_def try_bind_Ok_iff saturating_add_one Let_def split: if_splits)
  from s len have "length (fv_bytes f) \<le> unat m" by (auto simp: min_def split: if_splits)
  with f s len utf8 show ?thesis by auto
qed

text \<open>The same, comparing the length first, so that evaluating a small file does not count to the limit.\<close>

lemma read_capped_code [code]:
  "read_capped opened m =
     try_bind opened (\<lambda>f.
       if fv_reported f > m then Err IoInvalidData
       else if int (length (fv_bytes f)) \<le> uint m
       then (if utf8_valid (fv_bytes f) then Ok (fv_bytes f) else Err IoInvalidData)
       else (let buf = take (unat (saturating_add m 1)) (fv_bytes f) in
         if \<not> utf8_valid buf then Err IoInvalidData
         else if length buf > unat m then Err IoInvalidData
         else Ok buf))"
proof -
  have "take (unat (saturating_add m 1)) bs = bs" if "int (length bs) \<le> uint m" for bs :: string
  proof -
    have "length bs \<le> unat m" using that by (simp only: uint_nat of_nat_le_iff not_less)
    also have "\<dots> \<le> unat (saturating_add m 1)"
    proof (cases "m < - 1")
      case True
      then show ?thesis by (simp add: saturating_add_one)
    next
      case False
      then have "m = - 1" by (simp add: word_not_simps(3) not_less word_order.extremum_unique)
      then show ?thesis by (simp add: saturating_add_def unsigned_minus_1_eq_mask mask_eq_exp_minus_1)
    qed
    finally show ?thesis by simp
  qed
  moreover have "\<not> length bs > unat m" if "int (length bs) \<le> uint m" for bs :: string
    using that by (simp only: uint_nat of_nat_le_iff not_less)
  ultimately show ?thesis
    by (cases opened) (simp_all add: read_capped_def Let_def)
qed

end
