(* ===== verification/Fs.thy ===== *)
theory Fs
  imports Domain
begin

text \<open>
  The file system as the source uses it: regular files with contents, mode and ownership
  under their component path (a \<open>PathBuf\<close> up to its equality), and the calls of
  \<open>std::fs\<close> on them.  Every call consumes a tick of the clock and may fail with an
  operating-system error that the world's fault schedule decides; a failing write leaves a
  prefix of what it was to write.  \<open>Path::exists\<close> answers \<open>false\<close> when its \<^verbatim>\<open>stat\<close> fails, by
  its own schedule.  Symbolic links and directories are not represented.
\<close>

type_synonym node = "bool \<times> string list"

definition node_of :: "path \<Rightarrow> node" where
  "node_of p = path_components p"

definition node_join :: "node \<Rightarrow> string \<Rightarrow> node" where
  "node_join n nm = (fst n, snd n @ [nm])"

definition node_display :: "node \<Rightarrow> string" where
  "node_display n = (if fst n then ''/'' else []) @ join_with ''/'' (snd n)"

definition node_parent :: "node \<Rightarrow> node" where
  "node_parent n = (fst n, butlast (snd n))"

definition node_under :: "node \<Rightarrow> node \<Rightarrow> bool" where
  "node_under d n \<longleftrightarrow> fst n = fst d \<and> length (snd d) < length (snd n) \<and> take (length (snd d)) (snd n) = snd d"

record fs_file =
  f_bytes :: string
  f_mode :: u32
  f_uid :: u32
  f_gid :: u32

record 'x world =
  w_files :: "node \<Rightarrow> fs_file option"
  w_clock :: nat
  w_fault :: "nat \<Rightarrow> string option"
  w_stat_fault :: "nat \<Rightarrow> bool"
  w_short :: "nat \<Rightarrow> nat option"
  w_time :: "nat \<Rightarrow> (nat \<times> nat) option"
  w_pid :: nat
  w_counter :: u64
  w_ext :: 'x

definition tick :: "'x world \<Rightarrow> 'x world" where
  "tick w = w\<lparr>w_clock := Suc (w_clock w)\<rparr>"

definition set_file :: "node \<Rightarrow> fs_file option \<Rightarrow> 'x world \<Rightarrow> 'x world" where
  "set_file n f w = w\<lparr>w_files := (w_files w)(n := f)\<rparr>"

definition io :: "('x world, io_error, 'a) comp \<Rightarrow> ('x world, io_error, 'a) comp" where
  "io f w = (case w_fault w (w_clock w) of Some e \<Rightarrow> (Err (IoOs e), tick w) | None \<Rightarrow> f (tick w))"

subsection \<open>Calls\<close>

definition fs_exists :: "node \<Rightarrow> 'x world \<Rightarrow> bool \<times> 'x world" where
  "fs_exists n w = (w_files w n \<noteq> None \<and> \<not> w_stat_fault w (w_clock w), tick w)"

definition fs_read :: "node \<Rightarrow> ('x world, io_error, string) comp" where
  "fs_read n = io (\<lambda>w. case w_files w n of Some f \<Rightarrow> (Ok (f_bytes f), w) | None \<Rightarrow> (Err IoNotFound, w))"

definition fs_metadata :: "node \<Rightarrow> ('x world, io_error, fs_file) comp" where
  "fs_metadata n = io (\<lambda>w. case w_files w n of Some f \<Rightarrow> (Ok f, w) | None \<Rightarrow> (Err IoNotFound, w))"

text \<open>\<open>create_new(true)\<close> with a mode: the creator is root.\<close>

definition fs_create_new :: "node \<Rightarrow> u32 \<Rightarrow> ('x world, io_error, unit) comp" where
  "fs_create_new n m = io (\<lambda>w. case w_files w n of
       Some _ \<Rightarrow> (Err IoAlreadyExists, w)
     | None \<Rightarrow> (Ok (), set_file n (Some \<lparr>f_bytes = [], f_mode = m, f_uid = 0, f_gid = 0\<rparr>) w))"

text \<open>\<open>create(true).truncate(true)\<close> with a mode, which an existing file keeps.\<close>

definition fs_open_truncate :: "node \<Rightarrow> u32 \<Rightarrow> ('x world, io_error, unit) comp" where
  "fs_open_truncate n m = io (\<lambda>w. (Ok (), set_file n (Some (case w_files w n of
       Some f \<Rightarrow> f\<lparr>f_bytes := []\<rparr>
     | None \<Rightarrow> \<lparr>f_bytes = [], f_mode = m, f_uid = 0, f_gid = 0\<rparr>)) w))"

definition append_bytes :: "node \<Rightarrow> string \<Rightarrow> 'x world \<Rightarrow> 'x world" where
  "append_bytes n s w =
     (case w_files w n of
        Some f \<Rightarrow> set_file n (Some (f\<lparr>f_bytes := f_bytes f @ s\<rparr>)) w
      | None \<Rightarrow> w)"

definition fs_write_all :: "node \<Rightarrow> string \<Rightarrow> ('x world, io_error, unit) comp" where
  "fs_write_all n s w =
     (case w_fault w (w_clock w) of
        Some e \<Rightarrow> (Err (IoOs e), append_bytes n (case w_short w (w_clock w) of Some k \<Rightarrow> take k s | None \<Rightarrow> []) (tick w))
      | None \<Rightarrow> (Ok (), append_bytes n s (tick w)))"

definition fs_sync :: "('x world, io_error, unit) comp" where
  "fs_sync = io (\<lambda>w. (Ok (), w))"

definition fs_chown :: "node \<Rightarrow> u32 \<Rightarrow> u32 \<Rightarrow> ('x world, io_error, unit) comp" where
  "fs_chown n u g = io (\<lambda>w. (Ok (), set_file n (map_option (\<lambda>f. f\<lparr>f_uid := u, f_gid := g\<rparr>) (w_files w n)) w))"

definition fs_chmod :: "node \<Rightarrow> u32 \<Rightarrow> ('x world, io_error, unit) comp" where
  "fs_chmod n m = io (\<lambda>w. (Ok (), set_file n (map_option (\<lambda>f. f\<lparr>f_mode := m\<rparr>) (w_files w n)) w))"

definition fs_rename :: "node \<Rightarrow> node \<Rightarrow> ('x world, io_error, unit) comp" where
  "fs_rename a b = io (\<lambda>w. case w_files w a of
       None \<Rightarrow> (Err IoNotFound, w)
     | Some f \<Rightarrow> (Ok (), if a = b then w else set_file a None (set_file b (Some f) w)))"

definition fs_remove_file :: "node \<Rightarrow> ('x world, io_error, unit) comp" where
  "fs_remove_file n = io (\<lambda>w. case w_files w n of
       None \<Rightarrow> (Err IoNotFound, w)
     | Some _ \<Rightarrow> (Ok (), set_file n None w))"

definition fs_remove_dir_all :: "node \<Rightarrow> ('x world, io_error, unit) comp" where
  "fs_remove_dir_all d = io (\<lambda>w. (Ok (), w\<lparr>w_files := (\<lambda>n. if node_under d n then None else w_files w n)\<rparr>))"

text \<open>\<open>fs::copy\<close>: contents and permission bits; a failure may leave a partial copy.\<close>

definition fs_copy :: "node \<Rightarrow> node \<Rightarrow> ('x world, io_error, unit) comp" where
  "fs_copy a b w =
     (case w_files w a of
        None \<Rightarrow> (Err IoNotFound, tick w)
      | Some f \<Rightarrow>
          (let copy = (\<lambda>s. Some \<lparr>f_bytes = s, f_mode = f_mode f, f_uid = 0, f_gid = 0\<rparr>) in
           case w_fault w (w_clock w) of
             Some e \<Rightarrow> (Err (IoOs e), case w_short w (w_clock w) of
                 Some k \<Rightarrow> set_file b (copy (take k (f_bytes f))) (tick w) | None \<Rightarrow> tick w)
           | None \<Rightarrow> (Ok (), set_file b (copy (f_bytes f)) (tick w))))"

definition fs_create_dir :: "node \<Rightarrow> ('x world, io_error, unit) comp" where
  "fs_create_dir d = io (\<lambda>w. (Ok (), w))"

text \<open>Changing the error type of a computation (\<open>map_err\<close>), and running a clean-up whose own
  failure is only logged before the error is returned.\<close>

definition comp_err :: "('e \<Rightarrow> 'f) \<Rightarrow> ('w, 'e, 'a) comp \<Rightarrow> ('w, 'f, 'a) comp" where
  "comp_err f m w = (case m w of (Err e, w') \<Rightarrow> (Err (f e), w') | (Ok x, w') \<Rightarrow> (Ok x, w'))"

definition on_err :: "('w, 'e, 'a) comp \<Rightarrow> ('w \<Rightarrow> 'w) \<Rightarrow> ('w, 'e, 'a) comp" where
  "on_err m cleanup w = (case m w of (Err e, w') \<Rightarrow> (Err e, cleanup w') | (Ok x, w') \<Rightarrow> (Ok x, w'))"

definition cleanup_temp :: "node \<Rightarrow> 'x world \<Rightarrow> 'x world" where
  "cleanup_temp n w = snd (fs_remove_file n w)"

definition pure_ok :: "'a \<Rightarrow> ('w, 'e, 'a) comp" where
  "pure_ok a w = (Ok a, w)"

definition fail :: "'e \<Rightarrow> ('w, 'e, 'a) comp" where
  "fail e w = (Err e, w)"

subsection \<open>Frame lemmas\<close>

text \<open>
  \<open>only_touches N w w'\<close>: outside the nodes \<open>N\<close> the files are as before, and the schedules and
  the outside state are unchanged.
\<close>

definition only_touches :: "node set \<Rightarrow> 'x world \<Rightarrow> 'x world \<Rightarrow> bool" where
  "only_touches N w w' \<longleftrightarrow>
     (\<forall>n. n \<notin> N \<longrightarrow> w_files w' n = w_files w n)
     \<and> w_fault w' = w_fault w \<and> w_stat_fault w' = w_stat_fault w \<and> w_short w' = w_short w
     \<and> w_time w' = w_time w \<and> w_pid w' = w_pid w \<and> w_counter w' = w_counter w \<and> w_ext w' = w_ext w"

lemma only_touches_files: "only_touches N w w' \<Longrightarrow> n \<notin> N \<Longrightarrow> w_files w' n = w_files w n"
  by (simp add: only_touches_def)

lemma only_touches_sched:
  "only_touches N w w' \<Longrightarrow> w_stat_fault w' = w_stat_fault w"
  "only_touches N w w' \<Longrightarrow> w_fault w' = w_fault w"
  by (simp_all add: only_touches_def)

lemma only_touches_refl [simp, intro]: "only_touches N w w"
  by (simp add: only_touches_def)

lemma only_touches_trans: "only_touches N w w1 \<Longrightarrow> only_touches N w1 w2 \<Longrightarrow> only_touches N w w2"
  by (simp add: only_touches_def)

lemma only_touches_mono: "only_touches M w w' \<Longrightarrow> M \<subseteq> N \<Longrightarrow> only_touches N w w'"
  by (auto simp: only_touches_def)

lemma only_touches_step:
  "only_touches M w w1 \<Longrightarrow> only_touches N w1 w2 \<Longrightarrow> M \<subseteq> K \<Longrightarrow> N \<subseteq> K \<Longrightarrow> only_touches K w w2"
  by (rule only_touches_trans; erule only_touches_mono)

lemma only_touches_tick [simp]: "only_touches N w (tick w)"
  by (simp add: only_touches_def tick_def)

lemma only_touches_set_file [simp]: "only_touches {n} w (set_file n f w)" "only_touches {n} w (set_file n f (tick w))"
  by (simp_all add: only_touches_def set_file_def tick_def)

lemma files_tick [simp]: "w_files (tick w) = w_files w"
  by (simp add: tick_def)

lemma files_set_file [simp]: "w_files (set_file n f w) = (w_files w)(n := f)"
  by (simp add: set_file_def)

lemma sched_simps [simp]:
  "w_fault (tick w) = w_fault w" "w_stat_fault (tick w) = w_stat_fault w" "w_short (tick w) = w_short w"
  "w_fault (set_file n f w) = w_fault w" "w_stat_fault (set_file n f w) = w_stat_fault w"
  "w_clock (set_file n f w) = w_clock w" "w_clock (tick w) = Suc (w_clock w)"
  "w_short (set_file n f w) = w_short w" "w_time (set_file n f w) = w_time w" "w_pid (set_file n f w) = w_pid w"
  "w_counter (set_file n f w) = w_counter w" "w_ext (set_file n f w) = w_ext w"
  "w_time (tick w) = w_time w" "w_pid (tick w) = w_pid w" "w_counter (tick w) = w_counter w"
  "w_ext (tick w) = w_ext w"
  by (simp_all add: tick_def set_file_def)

lemma files_append_bytes:
  "w_files (append_bytes n s w) m =
     (if m = n then map_option (\<lambda>f. f\<lparr>f_bytes := f_bytes f @ s\<rparr>) (w_files w n) else w_files w m)"
  by (auto simp: append_bytes_def split: option.splits)

lemma only_touches_append_bytes [simp]: "only_touches {n} w (append_bytes n s (tick w))"
  by (auto simp: append_bytes_def split: option.splits)

text \<open>What each call touches, whatever its result.\<close>

lemma io_touches:
  assumes "\<And>w r w'. f w = (r, w') \<Longrightarrow> only_touches N w w'"
  shows "io f w = (r, w') \<Longrightarrow> only_touches N w w'"
  by (auto simp: io_def split: option.splits dest: assms intro: only_touches_trans [OF only_touches_tick])

lemma fs_touches [frame]:
  "fs_read n w = (r1, w') \<Longrightarrow> only_touches {} w w'"
  "fs_metadata n w = (r2, w') \<Longrightarrow> only_touches {} w w'"
  "fs_create_new n m w = (r3, w') \<Longrightarrow> only_touches {n} w w'"
  "fs_open_truncate n m w = (r3, w') \<Longrightarrow> only_touches {n} w w'"
  "fs_write_all n s w = (r3, w') \<Longrightarrow> only_touches {n} w w'"
  "fs_sync w = (r3, w') \<Longrightarrow> only_touches {} w w'"
  "fs_chown n u g w = (r3, w') \<Longrightarrow> only_touches {n} w w'"
  "fs_chmod n m w = (r3, w') \<Longrightarrow> only_touches {n} w w'"
  "fs_remove_file n w = (r3, w') \<Longrightarrow> only_touches {n} w w'"
  "fs_copy n b w = (r3, w') \<Longrightarrow> only_touches {b} w w'"
  "fs_create_dir n w = (r3, w') \<Longrightarrow> only_touches {} w w'"
  unfolding fs_read_def fs_metadata_def fs_create_new_def fs_open_truncate_def fs_sync_def fs_chown_def
    fs_chmod_def fs_remove_file_def fs_create_dir_def fs_write_all_def fs_copy_def Let_def io_def
  by (auto split: option.splits)

lemma fs_rename_touches [frame]: "fs_rename a b w = (r, w') \<Longrightarrow> only_touches {a, b} w w'"
  unfolding fs_rename_def
  by (erule io_touches [rotated]) (auto simp: only_touches_def set_file_def split: option.splits if_splits)

lemma cleanup_temp_touches [frame]: "only_touches {n} w (cleanup_temp n w)"
  unfolding cleanup_temp_def by (rule fs_touches(9)) (rule prod.collapse [symmetric])

subsection \<open>Errors and clean-ups\<close>

lemma comp_err_iff:
  "comp_err f m w = (Inr x, w') \<longleftrightarrow> m w = (Inr x, w')"
  "comp_err f m w = (Inl e, w') \<longleftrightarrow> (\<exists>e'. m w = (Inl e', w') \<and> e = f e')"
  by (auto simp: comp_err_def split: prod.splits sum.splits)

lemma on_err_iff:
  "on_err m c w = (Inr x, w') \<longleftrightarrow> m w = (Inr x, w')"
  "on_err m c w = (Inl e, w') \<longleftrightarrow> (\<exists>w1. m w = (Inl e, w1) \<and> w' = c w1)"
  by (auto simp: on_err_def split: prod.splits sum.splits)

lemma kept_comp_err: "kept K m \<Longrightarrow> kept K (comp_err f m)"
  by (rule tripleI) (auto simp: comp_err_iff dest: triple_Ok triple_Err)

lemma kept_on_err: "kept K m \<Longrightarrow> (\<And>w. K w \<Longrightarrow> K (c w)) \<Longrightarrow> kept K (on_err m c)"
  by (rule tripleI) (auto simp: on_err_iff dest: triple_Ok triple_Err)

lemma kept_pure [simp]: "kept K (pure_ok x)" "kept K (fail e)"
  by (simp_all add: triple_def pure_ok_def fail_def)

lemmas kept_rules = kept_seq kept_comp_err kept_on_err kept_for_each kept_pure

subsection \<open>A world with no files and no faults\<close>

definition blank_world :: "unit world" where
  "blank_world = \<lparr>w_files = (\<lambda>_. None), w_clock = 0, w_fault = (\<lambda>_. None), w_stat_fault = (\<lambda>_. False),
     w_short = (\<lambda>_. None), w_time = (\<lambda>_. None), w_pid = 7, w_counter = 0, w_ext = ()\<rparr>"

end
