(* ===== verification/Declaration.thy ===== *)
theory Declaration
  imports Domain
begin

text \<open>
  \<^verbatim>\<open>src/declaration.rs\<close>: the declaration as parsed, its validation with every error path in
  the order the code checks them, the defaults, and the required group set; and the load of
  the managed registry (\<^verbatim>\<open>src/state.rs\<close>), which re-validates persisted names with the same
  predicates.  Validation is shown equivalent to a declarative well-formedness condition.
\<close>

subsection \<open>The declaration\<close>

definition SUPPORTED_SCHEMA :: u32 where "SUPPORTED_SCHEMA = 1"

record defaults =
  df_uid_min :: u32
  df_uid_max :: u32
  df_shell :: string
  df_home_base :: path

record group_spec =
  gs_name :: string
  gs_gid :: "u32 option"
  gs_adopt :: bool
  gs_members :: "string list"

record role_account =
  ac_role :: string
  ac_uid :: "u32 option"
  ac_user :: "string option"
  ac_adopt :: bool
  ac_shell :: "string option"
  ac_home :: "path option"

definition is_adopted :: "role_account \<Rightarrow> bool" where
  "is_adopted a \<longleftrightarrow> ac_user a \<noteq> None"

record role_group =
  bi_role :: string
  bi_group :: string

record decl =
  d_schema :: u32
  d_version :: u32
  d_role_store :: path
  d_defaults :: defaults
  d_role_accounts :: "role_account list"
  d_groups :: "group_spec list"
  d_role_groups :: "role_group list"
  d_signature :: "string option"

datatype declaration_error =
  DeclTomlParse string
| SchemaUnsupported u32 u32
| VersionZero u32
| UidRangeInverted u32 u32
| UidOutOfRange string u32 u32 u32
| UidCollision u32 string string
| DuplicateRole string
| RoleIdInvalid string
| GroupNameInvalid string
| DuplicateGroup string
| InvalidGroupName string
| AccountUidAndUser string
| AccountAdoptInconsistent string
| AccountNoIdentity string
| UserNameInvalid string
| GroupAdoptWithGid string
| GroupMemberNameInvalid string string
| AdoptedGroupMemberUnmanaged string string
| RoleGroupUndeclaredGroup string string
| DuplicateRoleGroup string string

subsection \<open>Name predicates\<close>

definition is_valid_group_name :: "string \<Rightarrow> bool" where
  "is_valid_group_name nm =
     (if length nm > 32 then False
      else case nm of
        [] \<Rightarrow> False
      | first # rest \<Rightarrow>
          if \<not> (is_ascii_lowercase first \<or> first = CHR ''_'') then False
          else list_all (\<lambda>b. is_ascii_lowercase b \<or> is_ascii_digit b \<or> b = CHR ''_'' \<or> b = CHR ''-'') rest)"

definition is_valid_user_name :: "string \<Rightarrow> bool" where
  "is_valid_user_name nm = is_valid_group_name nm"

definition is_valid_role_id :: "string \<Rightarrow> bool" where
  "is_valid_role_id i =
     (if length i > 16 then False
      else case i of
        [] \<Rightarrow> False
      | first # rest \<Rightarrow>
          if \<not> is_ascii_lowercase first then False
          else list_all (\<lambda>b. is_ascii_lowercase b \<or> is_ascii_digit b \<or> b = CHR ''-'') rest)"

subsection \<open>Validation\<close>

text \<open>One account against the UIDs and role ids seen so far.\<close>

definition validate_account ::
    "u32 \<Rightarrow> u32 \<Rightarrow> role_account \<Rightarrow> (u32 \<times> string) list \<times> string list \<Rightarrow>
     declaration_error + (u32 \<times> string) list \<times> string list" where
  "validate_account mn mx acct seen =
     (let (seen_uid, seen_role) = seen; role = ac_role acct in
      if \<not> is_valid_role_id role then Err (RoleIdInvalid role)
      else if role \<in> set seen_role then Err (DuplicateRole role)
      else (let seen_role' = seen_role @ [role] in
        case (ac_uid acct, ac_user acct) of
          (Some _, Some _) \<Rightarrow> Err (AccountUidAndUser role)
        | (None, None) \<Rightarrow> Err (AccountNoIdentity role)
        | (Some uid, None) \<Rightarrow>
            if ac_adopt acct then Err (AccountAdoptInconsistent role)
            else if uid < mn \<or> uid > mx then Err (UidOutOfRange role uid mn mx)
            else (case find (\<lambda>(u, _). u = uid) seen_uid of
                Some (_, first) \<Rightarrow> Err (UidCollision uid first role)
              | None \<Rightarrow> Ok (seen_uid @ [(uid, role)], seen_role'))
        | (None, Some user) \<Rightarrow>
            if \<not> ac_adopt acct then Err (AccountAdoptInconsistent role)
            else if \<not> is_valid_user_name user then Err (UserNameInvalid user)
            else Ok (seen_uid, seen_role')))"

fun validate_accounts ::
    "u32 \<Rightarrow> u32 \<Rightarrow> role_account list \<Rightarrow> (u32 \<times> string) list \<times> string list \<Rightarrow>
     declaration_error + (u32 \<times> string) list \<times> string list" where
  "validate_accounts mn mx [] seen = Ok seen"
| "validate_accounts mn mx (a # as) seen =
     try_bind (validate_account mn mx a seen) (validate_accounts mn mx as)"

definition managed_users :: "role_account list \<Rightarrow> string list" where
  "managed_users as = map (\<lambda>a. case ac_user a of Some u \<Rightarrow> u | None \<Rightarrow> ac_role a) as"

fun validate_members :: "string list \<Rightarrow> group_spec \<Rightarrow> string list \<Rightarrow> declaration_error + unit" where
  "validate_members users g [] = Ok ()"
| "validate_members users g (m # ms) =
     (if \<not> is_valid_user_name m then Err (GroupMemberNameInvalid (gs_name g) m)
      else if gs_adopt g \<and> m \<notin> set users then Err (AdoptedGroupMemberUnmanaged (gs_name g) m)
      else validate_members users g ms)"

definition validate_group ::
    "string list \<Rightarrow> group_spec \<Rightarrow> string list \<Rightarrow> declaration_error + string list" where
  "validate_group users g seen =
     (if \<not> is_valid_group_name (gs_name g) then Err (GroupNameInvalid (gs_name g))
      else if gs_name g \<in> set seen then Err (DuplicateGroup (gs_name g))
      else if gs_adopt g \<and> gs_gid g \<noteq> None then Err (GroupAdoptWithGid (gs_name g))
      else try_bind (validate_members users g (gs_members g)) (\<lambda>_. Ok (seen @ [gs_name g])))"

fun validate_groups ::
    "string list \<Rightarrow> group_spec list \<Rightarrow> string list \<Rightarrow> declaration_error + string list" where
  "validate_groups users [] seen = Ok seen"
| "validate_groups users (g # gs) seen =
     try_bind (validate_group users g seen) (validate_groups users gs)"

fun validate_bindings ::
    "string list \<Rightarrow> role_group list \<Rightarrow> (string \<times> string) list \<Rightarrow> declaration_error + unit" where
  "validate_bindings groups [] seen = Ok ()"
| "validate_bindings groups (b # bs) seen =
     (if \<not> is_valid_role_id (bi_role b) then Err (RoleIdInvalid (bi_role b))
      else if bi_group b \<notin> set groups then Err (RoleGroupUndeclaredGroup (bi_role b) (bi_group b))
      else if (bi_role b, bi_group b) \<in> set seen then Err (DuplicateRoleGroup (bi_role b) (bi_group b))
      else validate_bindings groups bs (seen @ [(bi_role b, bi_group b)]))"

definition validate :: "decl \<Rightarrow> declaration_error + unit" where
  "validate d =
     (if d_schema d > SUPPORTED_SCHEMA then Err (SchemaUnsupported (d_schema d) SUPPORTED_SCHEMA)
      else if d_version d < 1 then Err (VersionZero (d_version d))
      else (let mn = df_uid_min (d_defaults d); mx = df_uid_max (d_defaults d) in
        if mn > mx then Err (UidRangeInverted mn mx)
        else try_bind (validate_accounts mn mx (d_role_accounts d) ([], [])) (\<lambda>_.
             try_bind (validate_groups (managed_users (d_role_accounts d)) (d_groups d) []) (\<lambda>seen_group.
             validate_bindings seen_group (d_role_groups d) []))))"

definition parse_declaration :: "(string \<Rightarrow> string + decl) \<Rightarrow> string \<Rightarrow> declaration_error + decl" where
  "parse_declaration toml_parse text =
     try_bind (map_err DeclTomlParse (toml_parse text)) (\<lambda>d.
       try_bind (validate d) (\<lambda>_. Ok d))"

definition shell_for :: "decl \<Rightarrow> role_account \<Rightarrow> string" where
  "shell_for d a = (case ac_shell a of Some s \<Rightarrow> s | None \<Rightarrow> df_shell (d_defaults d))"

definition home_for :: "decl \<Rightarrow> role_account \<Rightarrow> path" where
  "home_for d a = (case ac_home a of Some h \<Rightarrow> h | None \<Rightarrow> path_join (df_home_base (d_defaults d)) (ac_role a))"

subsection \<open>The required group set\<close>

definition role_group_names :: "resolved_account list \<Rightarrow> (string, u32 option) btree" where
  "role_group_names resolved =
     fold (\<lambda>a out. fold (\<lambda>g. bt_or_insert g None) (ra_groups a) out) resolved []"

definition required_groups ::
    "decl \<Rightarrow> resolved_account list \<Rightarrow> declaration_error + (string, u32 option) btree" where
  "required_groups d resolved =
     (let out = fold (\<lambda>g. bt_insert (gs_name g) (gs_gid g)) (d_groups d) (role_group_names resolved) in
      case find (\<lambda>n. \<not> is_valid_group_name n) (bt_keys out) of
        Some n \<Rightarrow> Err (InvalidGroupName n)
      | None \<Rightarrow> Ok out)"

subsection \<open>Loading the registry\<close>

datatype state_error = StIo path io_error | StTomlParse path string | StInvalidName path string string

definition registry_load ::
    "(path \<Rightarrow> bool) \<Rightarrow> (path \<Rightarrow> io_error + file_view) \<Rightarrow> (string \<Rightarrow> string + registry_file) \<Rightarrow>
     path \<Rightarrow> state_error + registry_state" where
  "registry_load exists open_file toml_parse p =
     (if \<not> exists p then Ok default_empty
      else try_bind (map_err (StIo p) (read_capped (open_file p) MAX_INPUT_FILE_BYTES)) (\<lambda>text.
        try_bind (map_err (StTomlParse p) (toml_parse text)) (\<lambda>file.
          case find (\<lambda>a. \<not> is_valid_user_name (ma_name a)) (rf_accounts file) of
            Some a \<Rightarrow> Err (StInvalidName p ''account'' (ma_name a))
          | None \<Rightarrow>
              (case find (\<lambda>g. \<not> is_valid_group_name (mg_name g)) (rf_groups file) of
                 Some g \<Rightarrow> Err (StInvalidName p ''group'' (mg_name g))
               | None \<Rightarrow>
                   Ok \<lparr>rs_accounts = bt_collect (map (\<lambda>a. (ma_name a, a)) (rf_accounts file)),
                       rs_groups = bt_collect (map (\<lambda>g. (mg_name g, g)) (rf_groups file))\<rparr>))))"

subsection \<open>Well-formed declarations\<close>

definition account_uids :: "role_account list \<Rightarrow> u32 list" where
  "account_uids as = concat (map (\<lambda>a. case ac_uid a of Some u \<Rightarrow> [u] | None \<Rightarrow> []) as)"

definition account_ok :: "u32 \<Rightarrow> u32 \<Rightarrow> role_account \<Rightarrow> bool" where
  "account_ok mn mx a \<longleftrightarrow> is_valid_role_id (ac_role a) \<and>
     (case (ac_uid a, ac_user a) of
        (Some u, None) \<Rightarrow> \<not> ac_adopt a \<and> mn \<le> u \<and> u \<le> mx
      | (None, Some n) \<Rightarrow> ac_adopt a \<and> is_valid_user_name n
      | _ \<Rightarrow> False)"

definition group_ok :: "string list \<Rightarrow> group_spec \<Rightarrow> bool" where
  "group_ok users g \<longleftrightarrow> is_valid_group_name (gs_name g) \<and> (gs_adopt g \<longrightarrow> gs_gid g = None)
     \<and> (\<forall>m\<in>set (gs_members g). is_valid_user_name m \<and> (gs_adopt g \<longrightarrow> m \<in> set users))"

definition well_formed :: "decl \<Rightarrow> bool" where
  "well_formed d \<longleftrightarrow>
     d_schema d \<le> SUPPORTED_SCHEMA \<and> 1 \<le> d_version d
     \<and> df_uid_min (d_defaults d) \<le> df_uid_max (d_defaults d)
     \<and> list_all (account_ok (df_uid_min (d_defaults d)) (df_uid_max (d_defaults d))) (d_role_accounts d)
     \<and> distinct (map ac_role (d_role_accounts d)) \<and> distinct (account_uids (d_role_accounts d))
     \<and> list_all (group_ok (managed_users (d_role_accounts d))) (d_groups d)
     \<and> distinct (map gs_name (d_groups d))
     \<and> list_all (\<lambda>b. is_valid_role_id (bi_role b) \<and> bi_group b \<in> set (map gs_name (d_groups d)))
         (d_role_groups d)
     \<and> distinct (map (\<lambda>b. (bi_role b, bi_group b)) (d_role_groups d))"

lemma account_uids_simps [simp]:
  "account_uids [] = []"
  "account_uids (a # as) = (case ac_uid a of Some u \<Rightarrow> [u] | None \<Rightarrow> []) @ account_uids as"
  by (simp_all add: account_uids_def)

lemma find_uid_None: "find (\<lambda>(u, _). u = uid) su = None \<longleftrightarrow> uid \<notin> fst ` set su"
  by (force simp: find_None_iff)

lemma validate_account_Ok:
  "validate_account mn mx a (su, sr) = Inr (su', sr') \<longleftrightarrow>
     account_ok mn mx a \<and> ac_role a \<notin> set sr \<and> set (account_uids [a]) \<inter> fst ` set su = {}
     \<and> su' = su @ map (\<lambda>u. (u, ac_role a)) (account_uids [a]) \<and> sr' = sr @ [ac_role a]"
proof (cases "is_valid_role_id (ac_role a) \<and> ac_role a \<notin> set sr")
  case False
  then show ?thesis by (auto simp: validate_account_def account_ok_def Let_def)
next
  case True
  then show ?thesis
    using find_uid_None [of "the (ac_uid a)" su]
    by (cases "ac_uid a"; cases "ac_user a"; cases "find (\<lambda>(u, _). u = the (ac_uid a)) su")
      (auto simp: validate_account_def account_ok_def Let_def split: prod.splits if_splits)
qed

lemma validate_accounts_Ok:
  "(\<exists>r. validate_accounts mn mx as (su, sr) = Inr r) \<longleftrightarrow>
     list_all (account_ok mn mx) as \<and> distinct (map ac_role as) \<and> set (map ac_role as) \<inter> set sr = {}
     \<and> distinct (account_uids as) \<and> set (account_uids as) \<inter> fst ` set su = {}"
proof (induction as arbitrary: su sr)
  case Nil
  then show ?case by simp
next
  case (Cons a as)
  let ?su = "su @ map (\<lambda>u. (u, ac_role a)) (account_uids [a])"
  have "(\<exists>r. validate_accounts mn mx (a # as) (su, sr) = Inr r) \<longleftrightarrow>
      validate_account mn mx a (su, sr) = Inr (?su, sr @ [ac_role a])
      \<and> (\<exists>r. validate_accounts mn mx as (?su, sr @ [ac_role a]) = Inr r)"
    by (auto simp add: split_paired_Ex try_bind_Ok_iff validate_account_Ok)
  also have "\<dots> \<longleftrightarrow> account_ok mn mx a \<and> ac_role a \<notin> set sr \<and> set (account_uids [a]) \<inter> fst ` set su = {}
      \<and> list_all (account_ok mn mx) as \<and> distinct (map ac_role as)
      \<and> set (map ac_role as) \<inter> set (sr @ [ac_role a]) = {}
      \<and> distinct (account_uids as) \<and> set (account_uids as) \<inter> fst ` set ?su = {}"
    by (simp only: Cons.IH validate_account_Ok simp_thms conj_assoc)
  also have "\<dots> \<longleftrightarrow> list_all (account_ok mn mx) (a # as) \<and> distinct (map ac_role (a # as))
      \<and> set (map ac_role (a # as)) \<inter> set sr = {}
      \<and> distinct (account_uids (a # as)) \<and> set (account_uids (a # as)) \<inter> fst ` set su = {}"
    by (cases "ac_uid a") (auto simp: image_iff)
  finally show ?case .
qed

lemma validate_members_Ok:
  "validate_members users g ms = Inr () \<longleftrightarrow>
     (\<forall>m\<in>set ms. is_valid_user_name m \<and> (gs_adopt g \<longrightarrow> m \<in> set users))"
  by (induction ms) auto

lemma validate_group_Ok:
  "validate_group users g seen = Inr seen' \<longleftrightarrow>
     group_ok users g \<and> gs_name g \<notin> set seen \<and> seen' = seen @ [gs_name g]"
  using validate_members_Ok [of users g "gs_members g"]
  by (auto simp: validate_group_def group_ok_def try_bind_Ok_iff)

lemma validate_groups_Ok:
  "validate_groups users gs seen = Inr seen' \<longleftrightarrow>
     list_all (group_ok users) gs \<and> distinct (map gs_name gs) \<and> set (map gs_name gs) \<inter> set seen = {}
     \<and> seen' = seen @ map gs_name gs"
  by (induction gs arbitrary: seen) (auto simp: try_bind_Ok_iff validate_group_Ok)

lemma validate_bindings_Ok:
  "validate_bindings groups bs seen = Inr () \<longleftrightarrow>
     list_all (\<lambda>b. is_valid_role_id (bi_role b) \<and> bi_group b \<in> set groups) bs
     \<and> distinct (map (\<lambda>b. (bi_role b, bi_group b)) bs)
     \<and> set (map (\<lambda>b. (bi_role b, bi_group b)) bs) \<inter> set seen = {}"
  by (induction bs arbitrary: seen) auto

lemma validate_ok_iff: "validate d = Inr () \<longleftrightarrow> well_formed d"
proof -
  let ?mn = "df_uid_min (d_defaults d)" and ?mx = "df_uid_max (d_defaults d)"
  let ?us = "managed_users (d_role_accounts d)"
  have "validate d = Inr () \<longleftrightarrow>
      d_schema d \<le> SUPPORTED_SCHEMA \<and> 1 \<le> d_version d \<and> ?mn \<le> ?mx
      \<and> (\<exists>r. validate_accounts ?mn ?mx (d_role_accounts d) ([], []) = Inr r)
      \<and> (\<exists>seen. validate_groups ?us (d_groups d) [] = Inr seen
          \<and> validate_bindings seen (d_role_groups d) [] = Inr ())"
    by (auto simp: validate_def Let_def try_bind_Ok_iff not_less word_one_le_iff)
  then show ?thesis
    by (simp only: validate_accounts_Ok validate_groups_Ok validate_bindings_Ok well_formed_def)
       auto
qed

subsection \<open>Names\<close>

definition name_char :: "char \<Rightarrow> bool" where
  "name_char c \<longleftrightarrow> is_ascii_lowercase c \<or> is_ascii_digit c \<or> c = CHR ''_'' \<or> c = CHR ''-''"

lemma valid_group_name_chars:
  "is_valid_group_name n \<Longrightarrow> n \<noteq> [] \<and> length n \<le> 32 \<and> hd n \<noteq> CHR ''-'' \<and> list_all name_char n"
  by (cases n) (auto simp: is_valid_group_name_def name_char_def is_ascii_lowercase_def list_all_iff
      split: if_splits)

lemma valid_role_id_chars: "is_valid_role_id i \<Longrightarrow> is_valid_group_name i"
  by (cases i) (auto simp: is_valid_role_id_def is_valid_group_name_def list_all_iff split: if_splits)

subsection \<open>The required set\<close>

lemma fold_or_insert:
  assumes "bt_inv m"
  shows "bt_inv (fold (\<lambda>g. bt_or_insert g None) gs m)
    \<and> (\<forall>k. bt_get (fold (\<lambda>g. bt_or_insert g None) gs m) k =
         (if bt_has m k then bt_get m k else if k \<in> set gs then Some None else None))"
  using assms
proof (induction gs arbitrary: m)
  case Nil
  then show ?case by (auto simp: bt_has_def)
next
  case (Cons g gs)
  from Cons.IH [of "bt_or_insert g None m"] Cons.prems show ?case
    by (auto simp: bt_or_insert_inv bt_or_insert_get bt_has_def split: if_splits)
qed

lemma fold_role_groups:
  assumes "bt_inv m"
  shows "bt_inv (fold (\<lambda>a out. fold (\<lambda>g. bt_or_insert g None) (ra_groups a) out) rs m)
    \<and> (\<forall>k. bt_get (fold (\<lambda>a out. fold (\<lambda>g. bt_or_insert g None) (ra_groups a) out) rs m) k =
         (if bt_has m k then bt_get m k
          else if k \<in> (\<Union>a\<in>set rs. set (ra_groups a)) then Some None else None))"
  using assms
proof (induction rs arbitrary: m)
  case Nil
  then show ?case by (auto simp: bt_has_def)
next
  case (Cons a rs)
  let ?m = "fold (\<lambda>g. bt_or_insert g None) (ra_groups a) m"
  have m: "bt_inv ?m" and get: "bt_get ?m k =
      (if bt_has m k then bt_get m k else if k \<in> set (ra_groups a) then Some None else None)" for k
    using fold_or_insert [OF Cons.prems, of "ra_groups a"] by auto
  from Cons.IH [OF m] show ?case
    by (auto simp: get bt_has_def)
qed

lemma role_group_names_get:
  "bt_inv (role_group_names rs)"
  "bt_get (role_group_names rs) k = (if k \<in> (\<Union>a\<in>set rs. set (ra_groups a)) then Some None else None)"
  using fold_role_groups [of "[] :: (string, u32 option) btree" rs]
  by (simp_all add: role_group_names_def bt_has_def bt.invar_empty bt.get_empty)

lemma find_no_name: "n \<notin> set (map gs_name gs) \<Longrightarrow> find (\<lambda>h. gs_name h = n) gs = None"
  by (auto simp: find_None_iff)

lemma fold_declared_groups:
  assumes "bt_inv m" and "distinct (map gs_name gs)"
  shows "bt_inv (fold (\<lambda>g. bt_insert (gs_name g) (gs_gid g)) gs m)
    \<and> (\<forall>k. bt_get (fold (\<lambda>g. bt_insert (gs_name g) (gs_gid g)) gs m) k =
         (case find (\<lambda>g. gs_name g = k) gs of Some g \<Rightarrow> Some (gs_gid g) | None \<Rightarrow> bt_get m k))"
  using assms
proof (induction gs arbitrary: m)
  case Nil
  then show ?case by simp
next
  case (Cons g gs)
  have "find (\<lambda>h. gs_name h = gs_name g) gs = None"
    using Cons.prems(2) by (intro find_no_name) simp
  with Cons.IH [of "bt_insert (gs_name g) (gs_gid g) m"] Cons.prems show ?case
    by (auto simp: bt_insert_inv bt_insert_get split: option.splits)
qed

lemma find_by_name:
  "distinct (map gs_name gs) \<Longrightarrow> g \<in> set gs \<Longrightarrow> find (\<lambda>h. gs_name h = gs_name g) gs = Some g"
  by (induction gs) auto



subsection \<open>Properties\<close>

text \<open>
  C7: validation accepts a declaration exactly when it is well formed: a supported schema, a
  positive version, an ordered UID band, every account either created with a UID in the band
  or adopted under a valid user name, role ids and UIDs unique, group names valid and unique,
  no adopted group with a pinned GID, no third party forced into an adopted group, and every
  binding naming a valid role and a declared group once.
\<close>

theorem validate_iff_well_formed: "validate d = Ok () \<longleftrightarrow> well_formed d"
  by (rule validate_ok_iff)

text \<open>
  When the required group set is computed, it is an ordered map whose names are exactly
  the declared groups and the groups of the resolved accounts, all of them valid group names;
  a declared group carries its pinned GID and every other one no pin.
\<close>

theorem required_groups_spec:
  assumes "required_groups d rs = Ok out" and "distinct (map gs_name (d_groups d))"
  shows "bt_inv out
    \<and> set (bt_keys out) = set (map gs_name (d_groups d)) \<union> (\<Union>a\<in>set rs. set (ra_groups a))
    \<and> (\<forall>g\<in>set (d_groups d). bt_get out (gs_name g) = Some (gs_gid g))
    \<and> (\<forall>n. n \<notin> set (map gs_name (d_groups d)) \<longrightarrow> bt_has out n \<longrightarrow> bt_get out n = Some None)
    \<and> list_all is_valid_group_name (bt_keys out)"
proof -
  let ?out = "fold (\<lambda>g. bt_insert (gs_name g) (gs_gid g)) (d_groups d) (role_group_names rs)"
  have out: "out = ?out" and valid: "find (\<lambda>n. \<not> is_valid_group_name n) (bt_keys ?out) = None"
    using assms(1) by (auto simp: required_groups_def Let_def split: option.splits)
  have inv: "bt_inv out" and get: "bt_get out k =
      (case find (\<lambda>g. gs_name g = k) (d_groups d) of Some g \<Rightarrow> Some (gs_gid g)
       | None \<Rightarrow> bt_get (role_group_names rs) k)" for k
    unfolding out using fold_declared_groups [OF role_group_names_get(1) assms(2)] by auto
  have declared: "bt_get out (gs_name g) = Some (gs_gid g)" if "g \<in> set (d_groups d)" for g
    using find_by_name [OF assms(2) that] by (simp add: get)
  have other: "bt_get out n = (if n \<in> (\<Union>a\<in>set rs. set (ra_groups a)) then Some None else None)"
    if "n \<notin> set (map gs_name (d_groups d))" for n
    using find_no_name [OF that] by (simp add: get role_group_names_get)
  have "bt_has out n \<longleftrightarrow> n \<in> set (map gs_name (d_groups d)) \<union> (\<Union>a\<in>set rs. set (ra_groups a))" for n
    using declared other [of n] by (cases "n \<in> set (map gs_name (d_groups d))") (auto simp: bt_has_def)
  then have "set (bt_keys out) = set (map gs_name (d_groups d)) \<union> (\<Union>a\<in>set rs. set (ra_groups a))"
    by (auto simp: bt_has_iff [symmetric])
  moreover have "list_all is_valid_group_name (bt_keys out)"
    using valid by (auto simp: out find_None_iff list_all_iff)
  ultimately show ?thesis using inv declared other by (auto simp: bt_has_def)
qed

definition sample_decl :: decl where
  "sample_decl = \<lparr>d_schema = 1, d_version = 3, d_role_store = ''/etc/roles'',
     d_defaults = \<lparr>df_uid_min = 9000, df_uid_max = 9099, df_shell = ''/bin/bash'', df_home_base = ''/home''\<rparr>,
     d_role_accounts =
       [\<lparr>ac_role = ''oper'', ac_uid = Some 9001, ac_user = None, ac_adopt = False, ac_shell = None, ac_home = None\<rparr>,
        \<lparr>ac_role = ''dba'', ac_uid = None, ac_user = Some ''postgres'', ac_adopt = True, ac_shell = None, ac_home = None\<rparr>],
     d_groups =
       [\<lparr>gs_name = ''ops'', gs_gid = Some 700, gs_adopt = False, gs_members = [''oper'']\<rparr>,
        \<lparr>gs_name = ''wheel'', gs_gid = None, gs_adopt = True, gs_members = [''postgres'']\<rparr>],
     d_role_groups = [\<lparr>bi_role = ''oper'', bi_group = ''ops''\<rparr>],
     d_signature = None\<rparr>"

definition sample_account :: resolved_account where
  "sample_account = (account_builder ''oper'' 9001 ''/bin/bash'' ''/home/oper'')\<lparr>ra_groups := [''netdev'', ''ops'']\<rparr>"

lemma sample_required:
  "required_groups sample_decl [sample_account] = Ok [(''netdev'', None), (''ops'', Some 700), (''wheel'', None)]"
  by code_simp

theorem required_groups_spec_witness:
  "bt_get [(''netdev'', None), (''ops'', Some 700), (''wheel'', None)] ''ops'' = Some (Some 700 :: u32 option)
   \<and> set (bt_keys [(''netdev'', None :: u32 option), (''ops'', Some 700), (''wheel'', None)])
     = set (map gs_name (d_groups sample_decl)) \<union> (\<Union>a\<in>set [sample_account]. set (ra_groups a))"
  using required_groups_spec [OF sample_required]
  by (simp add: sample_decl_def)

text \<open>
  a registry that loads holds only records whose names pass the name predicate, each
  under its own name and in strict name order; a name that fails is reported and nothing is
  loaded.
\<close>

theorem registry_load_names:
  assumes "registry_load exists open_file toml_parse p = Ok st"
  shows "bt_inv (rs_accounts st) \<and> bt_inv (rs_groups st)
    \<and> (\<forall>(n, a)\<in>set (rs_accounts st). ma_name a = n \<and> is_valid_user_name n)
    \<and> (\<forall>(n, g)\<in>set (rs_groups st). mg_name g = n \<and> is_valid_group_name n)"
proof (cases "exists p")
  case False
  with assms have "st = \<lparr>rs_accounts = [], rs_groups = []\<rparr>"
    by (simp add: registry_load_def default_empty_def)
  then show ?thesis by (simp add: bt.invar_empty)
next
  case True
  with assms obtain rf :: registry_file where rf:
    "find (\<lambda>a. \<not> is_valid_user_name (ma_name a)) (rf_accounts rf) = None"
    "find (\<lambda>g. \<not> is_valid_group_name (mg_name g)) (rf_groups rf) = None"
    "st = \<lparr>rs_accounts = bt_collect (map (\<lambda>a. (ma_name a, a)) (rf_accounts rf)),
           rs_groups = bt_collect (map (\<lambda>g. (mg_name g, g)) (rf_groups rf))\<rparr>"
    by (auto simp: registry_load_def try_bind_Ok_iff split: option.splits)
  have "set (rs_accounts st) \<subseteq> set (map (\<lambda>a. (ma_name a, a)) (rf_accounts rf))"
    "set (rs_groups st) \<subseteq> set (map (\<lambda>g. (mg_name g, g)) (rf_groups rf))"
    using bt_collect_subset [of "map (\<lambda>a. (ma_name a, a)) (rf_accounts rf)"]
      bt_collect_subset [of "map (\<lambda>g. (mg_name g, g)) (rf_groups rf)"] by (simp_all add: rf(3))
  then show ?thesis using rf by (auto simp: find_None_iff)
qed

definition sample_registry_file :: registry_file where
  "sample_registry_file =
     \<lparr>rf_accounts = [\<lparr>ma_name = ''oper'', ma_uid = 9001, ma_shell = ''/bin/bash'', ma_groups = [],
        ma_sudo_role = None, ma_sudo_commands = [], ma_file_grants = [], ma_provenance = Created,
        ma_from_version = 1\<rparr>],
      rf_groups = []\<rparr>"

lemma sample_load:
  "registry_load (\<lambda>_. True) (\<lambda>_. Ok \<lparr>fv_reported = 3, fv_bytes = ''abc''\<rparr>) (\<lambda>_. Ok sample_registry_file) ''/m''
   = Ok \<lparr>rs_accounts = [(''oper'', hd (rf_accounts sample_registry_file))], rs_groups = []\<rparr>"
proof -
  have "read_capped (Ok \<lparr>fv_reported = 3, fv_bytes = ''abc''\<rparr>) MAX_INPUT_FILE_BYTES = Ok ''abc''"
    using read_capped_small [of "\<lparr>fv_reported = 3, fv_bytes = ''abc''\<rparr>" MAX_INPUT_FILE_BYTES]
    by (simp add: MAX_INPUT_FILE_BYTES_def)
  moreover have "is_valid_user_name ''oper''" by code_simp
  ultimately show ?thesis
    by (simp add: registry_load_def sample_registry_file_def bt_collect_def)
qed

theorem registry_load_names_witness:
  "\<exists>st n a. registry_load (\<lambda>_. True) (\<lambda>_. Ok \<lparr>fv_reported = 3, fv_bytes = ''abc''\<rparr>)
       (\<lambda>_. Ok sample_registry_file) ''/m'' = Ok st
     \<and> rs_accounts st = [(n, a)] \<and> ma_name a = n \<and> is_valid_user_name n"
  using registry_load_names [OF sample_load] sample_load by fastforce

end
