(* ===== verification/Trust.thy ===== *)
theory Trust
  imports Fs Declaration
begin

text \<open>
  \<^verbatim>\<open>src/trust.rs\<close>: the signed payload of a declaration, the trust anchor, the anti-rollback
  floor and the trust decision.  Hexadecimal decoding and Ed25519 are other crates: they are a
  record of functions the definitions take as a parameter.
\<close>

subsection \<open>Data\<close>

definition VERSION_FILE :: string where "VERSION_FILE = ''declaration.version''"
definition MAX_DECLARATION_BYTES :: nat where "MAX_DECLARATION_BYTES = 256 * 1024"

record trust_options =
  to_trust_fs :: bool
  to_trust_anchor_path :: node
  to_persist_dir :: node

datatype trust_mode = Standalone | Managed u32

datatype trust_decision = Trusted trust_mode | NotTrusted

definition is_trusted :: "trust_decision \<Rightarrow> bool" where
  "is_trusted d = (case d of Trusted _ \<Rightarrow> True | NotTrusted \<Rightarrow> False)"

definition trust_decision_mode :: "trust_decision \<Rightarrow> trust_mode option" where
  "trust_decision_mode d = (case d of Trusted m \<Rightarrow> Some m | NotTrusted \<Rightarrow> None)"

datatype trust_error =
  MissingSignature
| NotUtf8
| Oversize nat nat
| BadSignatureHex
| AnchorUnreadable node io_error
| BadKey node
| SignatureMismatch
| Rollback u32 u32
| PersistUnreadable node
| PersistWrite node io_error

record 'k crypto =
  cr_hex_decode :: "string \<Rightarrow> string option"
  cr_key_from_bytes :: "string \<Rightarrow> 'k option"
  cr_verify_strict :: "'k \<Rightarrow> string \<Rightarrow> string \<Rightarrow> bool"

subsection \<open>The signed payload\<close>

definition is_signature_line :: "string \<Rightarrow> bool" where
  "is_signature_line line =
     (if \<not> utf8_valid line then False
      else case strip_prefix (trim_start line) ''signature'' of
        Some rest \<Rightarrow> starts_with (trim_start rest) ''=''
      | None \<Rightarrow> False)"

fun strip_signature :: "string list \<Rightarrow> bool \<Rightarrow> string \<Rightarrow> string \<times> bool" where
  "strip_signature [] removed out = (out, removed)"
| "strip_signature (line # lines) removed out =
     (if \<not> removed \<and> is_signature_line line then strip_signature lines True out
      else strip_signature lines removed (out @ line))"

definition signed_payload :: "string \<Rightarrow> trust_error + string" where
  "signed_payload bytes =
     (if length bytes > MAX_DECLARATION_BYTES then Err (Oversize (length bytes) MAX_DECLARATION_BYTES)
      else if \<not> utf8_valid bytes then Err NotUtf8
      else case strip_signature (split_inclusive bytes) False [] of
        (out, removed) \<Rightarrow> if removed then Ok out else Err MissingSignature)"

subsection \<open>Keys and signatures\<close>

text \<open>A bounded read of a file of the world: its reported length is its length.\<close>

definition fs_read_capped :: "node \<Rightarrow> ('x world, io_error, string) comp" where
  "fs_read_capped n = io (\<lambda>w.
     (read_capped (case w_files w n of
          Some f \<Rightarrow> Ok \<lparr>fv_reported = of_nat (length (f_bytes f)), fv_bytes = f_bytes f\<rparr>
        | None \<Rightarrow> Err IoNotFound) MAX_INPUT_FILE_BYTES, w))"

definition read_trust_anchor :: "'k crypto \<Rightarrow> node \<Rightarrow> ('x world, trust_error, 'k) comp" where
  "read_trust_anchor cr p =
     seq (comp_err (AnchorUnreadable p) (fs_read_capped p)) (\<lambda>raw.
       case cr_hex_decode cr (trim raw) of
         None \<Rightarrow> fail (BadKey p)
       | Some bytes \<Rightarrow>
           if length bytes \<noteq> 32 then fail (BadKey p)
           else (case cr_key_from_bytes cr bytes of None \<Rightarrow> fail (BadKey p) | Some k \<Rightarrow> pure_ok k))"

definition verify_ed25519 :: "'k crypto \<Rightarrow> 'k \<Rightarrow> string \<Rightarrow> string \<Rightarrow> trust_error + unit" where
  "verify_ed25519 cr k payload sig_hex =
     (case cr_hex_decode cr (trim sig_hex) of
        None \<Rightarrow> Err BadSignatureHex
      | Some sig \<Rightarrow>
          if length sig \<noteq> 64 then Err BadSignatureHex
          else if cr_verify_strict cr k payload sig then Ok () else Err SignatureMismatch)"

subsection \<open>The version floor\<close>

definition version_node :: "node \<Rightarrow> node" where
  "version_node dir = node_join dir VERSION_FILE"

definition version_temp :: "node \<Rightarrow> node" where
  "version_temp dir = node_join dir ''.declaration.version.tmp''"

definition last_applied_version :: "node \<Rightarrow> ('x world, trust_error, u32 option) comp" where
  "last_applied_version dir w =
     (case fs_read_capped (version_node dir) w of
        (Ok s, w') \<Rightarrow> (case parse_u32 (trim s) of
             Some v \<Rightarrow> (Ok (Some v), w')
           | None \<Rightarrow> (Err (PersistUnreadable (version_node dir)), w'))
      | (Err IoNotFound, w') \<Rightarrow> (Ok None, w')
      | (Err _, w') \<Rightarrow> (Err (PersistUnreadable (version_node dir)), w'))"

definition write_private :: "node \<Rightarrow> string \<Rightarrow> ('x world, io_error, unit) comp" where
  "write_private n bytes =
     seq (fs_open_truncate n 0x180) (\<lambda>_. seq (fs_write_all n bytes) (\<lambda>_. fs_sync))"

definition sync_parent_dir :: "node \<Rightarrow> ('x world, trust_error, unit) comp" where
  "sync_parent_dir n =
     seq (comp_err (PersistWrite (node_parent n)) fs_sync) (\<lambda>_.
       comp_err (PersistWrite (node_parent n)) fs_sync)"

definition persist_version :: "node \<Rightarrow> u32 \<Rightarrow> ('x world, trust_error, unit) comp" where
  "persist_version dir version =
     (let p = version_node dir; tmp = version_temp dir; body = show_u32 version @ [CHR 0x0A] in
      seq (comp_err (PersistWrite tmp) (write_private tmp body)) (\<lambda>_.
      seq (comp_err (PersistWrite p) (on_err (fs_rename tmp p) (cleanup_temp tmp))) (\<lambda>_.
      sync_parent_dir p)))"

definition check_rollback :: "u32 \<Rightarrow> u32 option \<Rightarrow> trust_error + unit" where
  "check_rollback version floor =
     (case floor of Some f \<Rightarrow> if version < f then Err (Rollback version f) else Ok () | None \<Rightarrow> Ok ())"

subsection \<open>The decision\<close>

text \<open>A pure result inside a computation.\<close>

definition lift_res :: "'e + 'a \<Rightarrow> ('w, 'e, 'a) comp" where
  "lift_res r w = (r, w)"

definition verify_trust ::
    "'k crypto \<Rightarrow> decl \<Rightarrow> string \<Rightarrow> trust_options \<Rightarrow> ('x world, trust_error, trust_decision) comp" where
  "verify_trust cr d bytes opts =
     (if to_trust_fs opts then pure_ok (Trusted Standalone)
      else case d_signature d of
        None \<Rightarrow> fail MissingSignature
      | Some sig_hex \<Rightarrow>
          seq (read_trust_anchor cr (to_trust_anchor_path opts)) (\<lambda>pubkey.
          seq (lift_res (signed_payload bytes)) (\<lambda>payload.
          seq (lift_res (verify_ed25519 cr pubkey payload sig_hex)) (\<lambda>_.
          seq (last_applied_version (to_persist_dir opts)) (\<lambda>floor.
          seq (lift_res (check_rollback (d_version d) floor)) (\<lambda>_.
          pure_ok (Trusted (Managed (d_version d)))))))))"

subsection \<open>Lemmas\<close>

lemma io_Pair_same: "io (\<lambda>w. (f w, w)) w = (r, w') \<Longrightarrow> w_files w' = w_files w"
  by (auto simp: io_def split: option.splits)

lemma fs_read_capped_same: "fs_read_capped n w = (r, w') \<Longrightarrow> w_files w' = w_files w"
  unfolding fs_read_capped_def by (rule io_Pair_same)

lemma cap_small: "MAX_INPUT_FILE_BYTES < - 1"
  by (simp add: MAX_INPUT_FILE_BYTES_def)

lemma fs_read_capped_Ok:
  assumes "fs_read_capped n w = (Inr s, w')"
  shows "\<exists>f. w_files w n = Some f \<and> s = f_bytes f"
  using assms read_capped_Ok [OF _ cap_small]
  by (fastforce simp: fs_read_capped_def io_def split: option.splits)

lemma fs_read_capped_NotFound:
  "fs_read_capped n w = (Inl IoNotFound, w') \<Longrightarrow> w_files w n = None"
  by (auto simp: fs_read_capped_def io_def read_capped_def Let_def split: option.splits if_splits)

text \<open>The floor the file on disk denotes.\<close>

definition stored_floor :: "node \<Rightarrow> 'x world \<Rightarrow> u32 option" where
  "stored_floor dir w =
     (case w_files w (version_node dir) of None \<Rightarrow> None | Some f \<Rightarrow> parse_u32 (trim (f_bytes f)))"

lemma last_applied_version_Ok:
  assumes "last_applied_version dir w = (Inr fl, w')"
  shows "fl = stored_floor dir w \<and> w_files w' = w_files w"
proof (cases "fs_read_capped (version_node dir) w")
  case (Pair r w1)
  have w1: "w_files w1 = w_files w" using Pair by (rule fs_read_capped_same)
  show ?thesis
  proof (cases r)
    case (Inr s)
    with Pair fs_read_capped_Ok [of "version_node dir" w s w1] obtain f where
      "w_files w (version_node dir) = Some f" "s = f_bytes f" by auto
    with assms Pair Inr w1 show ?thesis
      by (auto simp: last_applied_version_def stored_floor_def split: option.splits)
  next
    case (Inl e)
    with assms Pair have "e = IoNotFound" and "fl = None" and "w' = w1"
      by (cases e; simp add: last_applied_version_def)+
    with Pair Inl w1 fs_read_capped_NotFound [of "version_node dir" w w1] show ?thesis
      by (simp add: stored_floor_def)
  qed
qed

lemma last_applied_version_same: "last_applied_version dir w = (r, w') \<Longrightarrow> w_files w' = w_files w"
  by (auto simp: last_applied_version_def split: prod.splits sum.splits option.splits io_error.splits
      dest!: fs_read_capped_same)

lemma read_trust_anchor_same: "read_trust_anchor cr p w = (r, w') \<Longrightarrow> w_files w' = w_files w"
  by (auto simp: read_trust_anchor_def seq_def comp_err_def fail_def pure_ok_def
      split: prod.splits sum.splits option.splits if_splits dest!: fs_read_capped_same)

lemma verify_trust_same: "verify_trust cr d bytes opts w = (r, w') \<Longrightarrow> w_files w' = w_files w"
  by (auto simp: verify_trust_def seq_def lift_res_def fail_def pure_ok_def
      split: prod.splits sum.splits option.splits if_splits
      dest!: read_trust_anchor_same last_applied_version_same)

lemma verify_trust_Managed:
  assumes "verify_trust cr d bytes opts w = (Inr (Trusted (Managed v)), w')"
  obtains sig_hex k w1 payload where "\<not> to_trust_fs opts" and "v = d_version d"
    and "d_signature d = Some sig_hex"
    and "read_trust_anchor cr (to_trust_anchor_path opts) w = (Inr k, w1)"
    and "signed_payload bytes = Inr payload" and "verify_ed25519 cr k payload sig_hex = Inr ()"
    and "check_rollback v (stored_floor (to_persist_dir opts) w) = Inr ()"
proof -
  from assms obtain sig_hex k w1 payload fl w2 where a: "\<not> to_trust_fs opts" "v = d_version d"
    "d_signature d = Some sig_hex"
    "read_trust_anchor cr (to_trust_anchor_path opts) w = (Inr k, w1)"
    "signed_payload bytes = Inr payload" "verify_ed25519 cr k payload sig_hex = Inr ()"
    and fl: "last_applied_version (to_persist_dir opts) w1 = (Inr fl, w2)" and ck: "check_rollback v fl = Inr ()"
    by (auto simp: verify_trust_def seq_Ok_iff lift_res_def pure_ok_def fail_def split: if_splits option.splits)
  have "w_files w1 = w_files w" using a(4) by (rule read_trust_anchor_same)
  with last_applied_version_Ok [OF fl] have "fl = stored_floor (to_persist_dir opts) w"
    by (simp add: stored_floor_def)
  with a ck that show ?thesis by blast
qed

lemma check_rollback_Ok: "check_rollback v fl = Inr () \<longleftrightarrow> (\<forall>f. fl = Some f \<longrightarrow> f \<le> v)"
  by (auto simp: check_rollback_def not_less split: option.splits)

lemma verify_ed25519_Ok:
  "verify_ed25519 cr k payload sig_hex = Inr () \<longleftrightarrow>
     (\<exists>sig. cr_hex_decode cr (trim sig_hex) = Some sig \<and> length sig = 64 \<and> cr_verify_strict cr k payload sig)"
  by (auto simp: verify_ed25519_def split: option.splits)

lemma read_trust_anchor_Ok:
  assumes "read_trust_anchor cr p w = (Inr k, w')"
  shows "\<exists>f key. w_files w p = Some f \<and> cr_hex_decode cr (trim (f_bytes f)) = Some key \<and> length key = 32
    \<and> cr_key_from_bytes cr key = Some k"
proof -
  from assms obtain raw w1 where r: "fs_read_capped p w = (Inr raw, w1)"
    and k: "(case cr_hex_decode cr (trim raw) of
         None \<Rightarrow> fail (BadKey p)
       | Some bytes \<Rightarrow>
           if length bytes \<noteq> 32 then fail (BadKey p)
           else (case cr_key_from_bytes cr bytes of None \<Rightarrow> fail (BadKey p) | Some k \<Rightarrow> pure_ok k)) w1 = (Inr k, w')"
    by (auto simp: read_trust_anchor_def seq_Ok_iff comp_err_iff)
  from k have "\<exists>key. cr_hex_decode cr (trim raw) = Some key \<and> length key = 32 \<and> cr_key_from_bytes cr key = Some k"
    by (auto simp: fail_def pure_ok_def split: option.splits if_splits)
  with fs_read_capped_Ok [OF r] show ?thesis by auto
qed

subsection \<open>The payload\<close>

lemma strip_signature_out: "strip_signature ls True out = (out @ concat ls, True)"
  by (induction ls arbitrary: out) auto

lemma strip_signature_append:
  "list_all (\<lambda>l. \<not> is_signature_line l) ls \<Longrightarrow>
     strip_signature (ls @ ms) False out = strip_signature ms False (out @ concat ls)"
  by (induction ls arbitrary: out) auto

lemma strip_signature_none:
  "list_all (\<lambda>l. \<not> is_signature_line l) ls \<Longrightarrow> strip_signature ls False out = (out @ concat ls, False)"
  using strip_signature_append [of ls "[]" out] by simp

subsection \<open>Persisting the floor\<close>






subsection \<open>Runs over time\<close>

text \<open>
  What may happen to the floor over the life of a host: an apply that was trusted in managed
  mode, did its work and persisted (or failed to persist) its version; an apply that was
  refused, or trusted on file-system integrity only; and any other change of the system that
  leaves the version file alone.
\<close>

inductive trust_step :: "'k crypto \<Rightarrow> node \<Rightarrow> 'x world \<Rightarrow> 'x world \<Rightarrow> bool" for cr dir where
  managed_run:
    "verify_trust cr d bytes opts w = (Ok (Trusted (Managed v)), w1) \<Longrightarrow> to_persist_dir opts = dir \<Longrightarrow>
     w_files w2 (version_node dir) = w_files w1 (version_node dir) \<Longrightarrow>
     persist_version dir v w2 = (r, w3) \<Longrightarrow> trust_step cr dir w w3"
| refused: "verify_trust cr d bytes opts w = (Err e, w1) \<Longrightarrow> trust_step cr dir w w1"
| elsewhere: "w_files w2 (version_node dir) = w_files w (version_node dir) \<Longrightarrow> trust_step cr dir w w2"

inductive_cases trust_stepE: "trust_step cr dir w w'"



subsection \<open>Properties\<close>

text \<open>
  C5: managed trust is earned.  A decision of managed trust means that the declaration carries
  a signature which, decoded to 64 bytes, verifies under the 32-byte key in the pinned anchor
  file over exactly the declaration bytes without their signature line, and that its version
  is not below the stored floor; evaluating trust changes no file.
\<close>

theorem managed_trust_sound:
  assumes "verify_trust cr d bytes opts w = (Ok (Trusted (Managed v)), w')"
  shows "v = d_version d \<and> \<not> to_trust_fs opts \<and> w_files w' = w_files w
    \<and> (\<exists>anchor key k sig_hex sig payload.
         w_files w (to_trust_anchor_path opts) = Some anchor
         \<and> cr_hex_decode cr (trim (f_bytes anchor)) = Some key \<and> length key = 32
         \<and> cr_key_from_bytes cr key = Some k
         \<and> d_signature d = Some sig_hex \<and> cr_hex_decode cr (trim sig_hex) = Some sig \<and> length sig = 64
         \<and> signed_payload bytes = Ok payload \<and> cr_verify_strict cr k payload sig)
    \<and> (\<forall>f. stored_floor (to_persist_dir opts) w = Some f \<longrightarrow> f \<le> v)"
  using assms
proof (rule verify_trust_Managed)
  fix sig_hex k w1 payload
  assume a: "\<not> to_trust_fs opts" "v = d_version d" "d_signature d = Some sig_hex"
    "read_trust_anchor cr (to_trust_anchor_path opts) w = (Ok k, w1)"
    "signed_payload bytes = Ok payload" "verify_ed25519 cr k payload sig_hex = Ok ()"
    "check_rollback v (stored_floor (to_persist_dir opts) w) = Ok ()"
  from a(7) have fl: "\<forall>f. stored_floor (to_persist_dir opts) w = Some f \<longrightarrow> f \<le> v"
    by (simp only: check_rollback_Ok)
  from read_trust_anchor_Ok [OF a(4)] a(3,5,6) have
    "\<exists>anchor key k sig_hex sig payload.
         w_files w (to_trust_anchor_path opts) = Some anchor
         \<and> cr_hex_decode cr (trim (f_bytes anchor)) = Some key \<and> length key = 32
         \<and> cr_key_from_bytes cr key = Some k
         \<and> d_signature d = Some sig_hex \<and> cr_hex_decode cr (trim sig_hex) = Some sig \<and> length sig = 64
         \<and> signed_payload bytes = Ok payload \<and> cr_verify_strict cr k payload sig"
    by (auto simp: verify_ed25519_Ok)
  with a(1,2) fl verify_trust_same [OF assms] show ?thesis by blast
qed

definition sample_crypto :: "string crypto" where
  "sample_crypto = \<lparr>cr_hex_decode = (\<lambda>s. if s = ''aa'' then Some (replicate 32 CHR ''k'') else Some (replicate 64 CHR ''s'')),
     cr_key_from_bytes = Some, cr_verify_strict = (\<lambda>_ payload _. payload = ''version = 3'' @ [CHR 0x0A])\<rparr>"

definition signed_text :: string where
  "signed_text = ''signature = 1'' @ [CHR 0x0A] @ ''version = 3'' @ [CHR 0x0A]"

definition trust_world :: "unit world" where
  "trust_world = \<lparr>w_files = (\<lambda>n. if n = (True, [''a'']) then Some \<lparr>f_bytes = ''aa'', f_mode = 0, f_uid = 0, f_gid = 0\<rparr> else None),
     w_clock = 0, w_fault = (\<lambda>_. None), w_stat_fault = (\<lambda>_. False), w_short = (\<lambda>_. None),
     w_time = (\<lambda>_. None), w_pid = 7, w_counter = 0, w_ext = ()\<rparr>"

definition trust_opts :: trust_options where
  "trust_opts = \<lparr>to_trust_fs = False, to_trust_anchor_path = (True, [''a'']), to_persist_dir = (True, [''p''])\<rparr>"

lemma signed_text_payload: "signed_payload signed_text = Ok (''version = 3'' @ [CHR 0x0A])"
  by (simp add: signed_payload_def signed_text_def MAX_DECLARATION_BYTES_def is_signature_line_def
      strip_prefix_def starts_with_def ws_len_def trim_start.simps)

lemma trust_sample:
  "\<exists>w'. verify_trust sample_crypto (sample_decl\<lparr>d_signature := Some ''ff''\<rparr>) signed_text trust_opts trust_world
     = (Ok (Trusted (Managed 3)), w')"
proof -
  have "read_capped (Ok \<lparr>fv_reported = 2, fv_bytes = ''aa''\<rparr>) MAX_INPUT_FILE_BYTES = Ok ''aa''"
    using read_capped_small [of "\<lparr>fv_reported = 2, fv_bytes = ''aa''\<rparr>" MAX_INPUT_FILE_BYTES]
    by (simp add: MAX_INPUT_FILE_BYTES_def)
  moreover have "trim ''aa'' = ''aa''" "trim ''ff'' = ''ff''"
    by (simp_all add: trim_def ws_len_def ws_suffix_len_def)
  ultimately show ?thesis
    by (simp add: verify_trust_def trust_opts_def read_trust_anchor_def fs_read_capped_def io_def trust_world_def
        tick_def seq_def comp_err_def pure_ok_def lift_res_def sample_crypto_def signed_text_payload
        verify_ed25519_def last_applied_version_def version_node_def node_join_def read_capped_def
        check_rollback_def sample_decl_def)
qed

theorem managed_trust_sound_witness:
  "\<exists>w'. verify_trust sample_crypto (sample_decl\<lparr>d_signature := Some ''ff''\<rparr>) signed_text trust_opts trust_world
     = (Ok (Trusted (Managed 3)), w')
   \<and> (\<exists>payload. signed_payload signed_text = Ok payload
        \<and> (\<exists>k sig. cr_verify_strict sample_crypto k payload sig))"
proof -
  obtain w' where t: "verify_trust sample_crypto (sample_decl\<lparr>d_signature := Some ''ff''\<rparr>) signed_text trust_opts
      trust_world = (Ok (Trusted (Managed 3)), w')" using trust_sample by blast
  from managed_trust_sound [OF t] t show ?thesis by blast
qed




text \<open>
  signing and verifying agree on the bytes.  Inserting one signature line, whatever its
  value, after complete lines none of which is a signature line gives a text whose signed
  payload is the original text.
\<close>

theorem signed_payload_roundtrip:
  assumes "pre = [] \<or> last pre = CHR 0x0A" and "CHR 0x0A \<notin> set sig" and "is_signature_line (sig @ [CHR 0x0A])"
    and "list_all (\<lambda>l. \<not> is_signature_line l) (split_inclusive pre)"
    and "utf8_valid (pre @ sig @ [CHR 0x0A] @ post)"
    and "length (pre @ sig @ [CHR 0x0A] @ post) \<le> MAX_DECLARATION_BYTES"
  shows "signed_payload (pre @ sig @ [CHR 0x0A] @ post) = Ok (pre @ post)"
proof -
  have "split_inclusive (pre @ sig @ CHR 0x0A # post) =
      split_inclusive pre @ (sig @ [CHR 0x0A]) # split_inclusive post"
    using split_inclusive_append [OF assms(1)] split_inclusive_line [OF assms(2)] by simp
  then have "strip_signature (split_inclusive (pre @ sig @ CHR 0x0A # post)) False [] = (pre @ post, True)"
    using assms(3) by (simp add: strip_signature_append [OF assms(4)] strip_signature_out concat_split_inclusive)
  with assms(5,6) show ?thesis by (simp add: signed_payload_def)
qed

theorem signed_payload_roundtrip_witness:
  "signed_payload ([] @ ''signature = 1'' @ [CHR 0x0A] @ ''version = 3'') = Ok ([] @ ''version = 3'')"
  by (rule signed_payload_roundtrip)
    (simp_all add: is_signature_line_def MAX_DECLARATION_BYTES_def strip_prefix_def starts_with_def ws_len_def
      trim_start.simps)

end
