(* ===== verification/Backup.thy ===== *)
theory Backup
  imports Fs
begin

text \<open>
  \<^verbatim>\<open>src/backup.rs\<close>: the snapshot of the auth-critical files before a mutation and their
  restore after a failed phase.  The session's fields are a record that \<open>snapshot\<close> and
  \<open>commit_success\<close> update.
\<close>

subsection \<open>The session\<close>

definition auth_db_default :: "node list" where
  "auth_db_default = map node_of [''/etc/passwd'', ''/etc/shadow'', ''/etc/group'', ''/etc/gshadow'']"

datatype backup_error =
  BkMkdir node io_error
| BkCopy node node io_error
| BkNoSnapshot

record backup =
  bk_targets :: "node list"
  bk_root :: node
  bk_snapshot_dir :: "node option"
  bk_saved :: "(node \<times> node) list"

definition backup_new :: "node list \<Rightarrow> node \<Rightarrow> backup" where
  "backup_new targets root = \<lparr>bk_targets = targets, bk_root = root, bk_snapshot_dir = None, bk_saved = []\<rparr>"

definition backup_add_file :: "node \<Rightarrow> backup \<Rightarrow> backup" where
  "backup_add_file n b = b\<lparr>bk_targets := push_unique n (bk_targets b)\<rparr>"

subsection \<open>Names of the copies\<close>

text \<open>Each character outside ASCII alphanumerics becomes one underscore.\<close>

definition sanitize :: "node \<Rightarrow> string" where
  "sanitize n =
     map (\<lambda>c. if is_ascii_alphanumeric c then c else CHR ''_'')
       (filter (\<lambda>c. \<not> is_continuation c) (node_display n))"

definition pad_dec :: "nat \<Rightarrow> nat \<Rightarrow> string" where
  "pad_dec k n = replicate (k - length (dec n)) (CHR ''0'') @ dec n"

definition copy_name :: "nat \<Rightarrow> node \<Rightarrow> string" where
  "copy_name i original = pad_dec 3 i @ ''-'' @ sanitize original"

definition timestamp_component :: "'x world \<Rightarrow> string \<times> 'x world" where
  "timestamp_component w =
     (case w_time w (w_clock w) of
        Some (secs, nanos) \<Rightarrow> (dec secs @ ''-'' @ pad_dec 9 nanos, tick w)
      | None \<Rightarrow> (''snapshot-'' @ dec (w_pid w) @ ''-'' @ dec (unat (w_counter w)),
                 tick w\<lparr>w_counter := w_counter w + 1\<rparr>))"

subsection \<open>Snapshot\<close>

definition create_dir_0700 :: "node \<Rightarrow> ('x world, backup_error, unit) comp" where
  "create_dir_0700 d = comp_err (BkMkdir d) (fs_create_dir d)"

definition copy_file :: "node \<Rightarrow> node \<Rightarrow> ('x world, backup_error, unit) comp" where
  "copy_file a b = comp_err (BkCopy a b) (fs_copy a b)"

fun snapshot_files ::
    "node \<Rightarrow> nat \<Rightarrow> node list \<Rightarrow> (node \<times> node) list \<Rightarrow> ('x world, backup_error, (node \<times> node) list) comp" where
  "snapshot_files dir i [] saved w = (Ok saved, w)"
| "snapshot_files dir i (original # rest) saved w =
     (let copy_path = node_join dir (copy_name i original) in
      case fs_exists original w of (ex, w1) \<Rightarrow>
        seq (if ex then copy_file original copy_path else pure_ok ())
            (\<lambda>_. snapshot_files dir (Suc i) rest (saved @ [(original, copy_path)])) w1)"

definition snapshot :: "backup \<Rightarrow> ('x world, backup_error, backup) comp" where
  "snapshot b w =
     (case timestamp_component w of (stamp, w1) \<Rightarrow>
        (let dir = node_join (bk_root b) stamp in
         seq (create_dir_0700 dir) (\<lambda>_.
           seq (snapshot_files dir 0 (bk_targets b) [])
               (\<lambda>saved. pure_ok (b\<lparr>bk_snapshot_dir := Some dir, bk_saved := saved\<rparr>))) w1))"

subsection \<open>Atomic replacement\<close>

definition restore_temp :: "node \<Rightarrow> node" where
  "restore_temp dest =
     (let name = (if snd dest = [] \<or> last (snd dest) = ''..'' then ''tmp'' else last (snd dest)) in
      node_join (node_parent dest) (''.census-restore-'' @ name))"

definition open_restore_temp :: "node \<Rightarrow> ('x world, io_error, unit) comp" where
  "open_restore_temp tmp = fs_create_new tmp 0x180"

definition preserve_dest_permissions :: "node \<Rightarrow> node \<Rightarrow> ('x world, io_error, unit) comp" where
  "preserve_dest_permissions tmp dest w =
     (case fs_metadata dest w of
        (Ok meta, w1) \<Rightarrow>
          seq (fs_chown tmp (f_uid meta) (f_gid meta)) (\<lambda>_. fs_chmod tmp (and (f_mode meta) 0xFFF)) w1
      | (Err IoNotFound, w1) \<Rightarrow> (Ok (), w1)
      | (Err e, w1) \<Rightarrow> (Err e, w1))"

definition open_or_retry :: "node \<Rightarrow> ('x world, io_error, unit) comp" where
  "open_or_retry tmp w =
     (case open_restore_temp tmp w of
        (Ok _, w1) \<Rightarrow> (Ok (), w1)
      | (Err IoAlreadyExists, w1) \<Rightarrow> open_restore_temp tmp (cleanup_temp tmp w1)
      | (Err e, w1) \<Rightarrow> (Err e, w1))"

definition atomic_replace :: "node \<Rightarrow> node \<Rightarrow> ('x world, backup_error, unit) comp" where
  "atomic_replace src dest =
     (let tmp = restore_temp dest in
      seq (comp_err (BkCopy src tmp) (fs_read src)) (\<lambda>bytes.
      seq (comp_err (BkCopy src tmp) (open_or_retry tmp)) (\<lambda>_.
      seq (comp_err (BkCopy src tmp) (on_err (fs_write_all tmp bytes) (cleanup_temp tmp))) (\<lambda>_.
      seq (comp_err (BkCopy src dest) (on_err (preserve_dest_permissions tmp dest) (cleanup_temp tmp))) (\<lambda>_.
      comp_err (BkCopy tmp dest) (on_err (fs_rename tmp dest) (cleanup_temp tmp)))))))"

subsection \<open>Restore and retention\<close>

definition restore_one :: "node \<times> node \<Rightarrow> ('x world, backup_error, unit) comp" where
  "restore_one oc w =
     (case oc of (original, copy_path) \<Rightarrow>
       (case fs_exists copy_path w of (ex, w1) \<Rightarrow>
          if ex then atomic_replace copy_path original w1
          else (Ok (), snd (fs_remove_file original w1))))"

fun restore_files :: "(node \<times> node) list \<Rightarrow> ('x world, backup_error, unit) comp" where
  "restore_files [] w = (Ok (), w)"
| "restore_files (oc # ocs) w = seq (restore_one oc) (\<lambda>_. restore_files ocs) w"

definition restore :: "backup \<Rightarrow> ('x world, backup_error, unit) comp" where
  "restore b w = (if bk_snapshot_dir b = None then (Err BkNoSnapshot, w) else restore_files (bk_saved b) w)"

definition commit_success :: "backup \<Rightarrow> 'x world \<Rightarrow> backup \<times> 'x world" where
  "commit_success b w =
     (case bk_snapshot_dir b of
        Some dir \<Rightarrow> (b\<lparr>bk_snapshot_dir := None, bk_saved := []\<rparr>, snd (fs_remove_dir_all dir w))
      | None \<Rightarrow> (b\<lparr>bk_saved := []\<rparr>, w))"

definition keep_on_failure :: "backup \<Rightarrow> node option" where
  "keep_on_failure b = bk_snapshot_dir b"

subsection \<open>Copies do not collide\<close>

lemma pad_dec_digits: "\<forall>c\<in>set (pad_dec k n). is_ascii_digit c"
  using dec_digits by (auto simp: pad_dec_def is_ascii_digit_def)

lemma undec_pad_dec: "undec 0 (pad_dec k n) = n"
  by (simp add: pad_dec_def undec_zeros undec_dec)

lemma copy_name_index: "copy_name i a = copy_name j b \<Longrightarrow> i = j"
proof -
  assume eq: "copy_name i a = copy_name j b"
  have "takeWhile is_ascii_digit (copy_name n c) = pad_dec 3 n" for n c
    using takeWhile_digits [OF pad_dec_digits] by (simp add: copy_name_def)
  with eq have "pad_dec 3 i = pad_dec 3 j" by metis
  then show ?thesis using undec_pad_dec by metis
qed

abbreviation copy_node :: "node \<Rightarrow> nat \<Rightarrow> node \<Rightarrow> node" where
  "copy_node dir i original \<equiv> node_join dir (copy_name i original)"

lemma copy_node_inj: "copy_node dir i a = copy_node dir j b \<Longrightarrow> i = j"
  using copy_name_index by (auto simp: node_join_def)

lemma copy_node_under [simp]: "node_under dir (copy_node dir i a)"
  by (simp add: node_under_def node_join_def)

definition copies_from :: "node \<Rightarrow> nat \<Rightarrow> node set" where
  "copies_from dir i = {copy_node dir j a | j a. i \<le> j}"

lemma copies_from_mono: "copies_from dir (Suc i) \<subseteq> copies_from dir i"
  by (auto simp: copies_from_def)

lemma copies_from_under: "n \<in> copies_from dir i \<Longrightarrow> node_under dir n"
  by (auto simp: copies_from_def)

lemma copy_node_notin: "copy_node dir i a \<notin> copies_from dir (Suc i)"
  using copy_node_inj by (fastforce simp: copies_from_def)

subsection \<open>What a snapshot holds\<close>

abbreviation bytes_at :: "'x world \<Rightarrow> node \<Rightarrow> string option" where
  "bytes_at w n \<equiv> map_option f_bytes (w_files w n)"

abbreviation stats_ok :: "'x world \<Rightarrow> bool" where
  "stats_ok w \<equiv> \<forall>t. \<not> w_stat_fault w t"

abbreviation faultless :: "'x world \<Rightarrow> bool" where
  "faultless w \<equiv> \<forall>t. w_fault w t = None"

lemma copy_file_Ok:
  "copy_file a b w = (Ok u, w') \<Longrightarrow> bytes_at w' b = bytes_at w a \<and> only_touches {b} w w'"
  by (auto simp: copy_file_def comp_err_def fs_copy_def Let_def split: option.splits prod.splits sum.splits)

lemma snapshot_step:
  assumes "snapshot_files dir i (a # rest) saved w = (Ok saved', w')" and "stats_ok w"
    and "w_files w (copy_node dir i a) = None"
  obtains w1 where "snapshot_files dir (Suc i) rest (saved @ [(a, copy_node dir i a)]) w1 = (Ok saved', w')"
    and "only_touches {copy_node dir i a} w w1" and "bytes_at w1 (copy_node dir i a) = bytes_at w a"
proof (cases "w_files w a = None")
  case True
  with assms that [of "tick w"] show ?thesis
    by (auto simp: Let_def fs_exists_def pure_ok_def seq_def)
next
  case False
  with assms obtain w1 where c: "copy_file a (copy_node dir i a) (tick w) = (Ok (), w1)"
    and r: "snapshot_files dir (Suc i) rest (saved @ [(a, copy_node dir i a)]) w1 = (Ok saved', w')"
    by (auto simp: Let_def fs_exists_def seq_Ok_iff)
  from copy_file_Ok [OF c] have "bytes_at w1 (copy_node dir i a) = bytes_at w a"
    and "only_touches {copy_node dir i a} w w1"
    by (auto intro: only_touches_trans [OF only_touches_tick])
  with r show ?thesis using that by blast
qed

lemma snapshot_files_Ok:
  assumes "snapshot_files dir i os saved w = (Ok saved', w')" and "stats_ok w"
    and "\<forall>a\<in>set os. \<not> node_under dir a" and "\<forall>n\<in>copies_from dir i. w_files w n = None"
  shows "saved' = saved @ map (\<lambda>(j, a). (a, copy_node dir j a)) (enumerate i os)
    \<and> only_touches (copies_from dir i) w w'
    \<and> (\<forall>(j, a)\<in>set (enumerate i os). bytes_at w' (copy_node dir j a) = bytes_at w a)"
  using assms
proof (induction os arbitrary: i saved w)
  case Nil
  then show ?case by simp
next
  case (Cons a os)
  let ?c = "copy_node dir i a"
  have "?c \<in> copies_from dir i" unfolding copies_from_def by blast
  then have "w_files w ?c = None" using Cons.prems(4) by blast
  with snapshot_step [OF Cons.prems(1,2)] obtain w1 where
    r: "snapshot_files dir (Suc i) os (saved @ [(a, ?c)]) w1 = (Ok saved', w')"
    and t: "only_touches {?c} w w1" and b: "bytes_at w1 ?c = bytes_at w a" by metis
  have st: "stats_ok w1" using Cons.prems(2) t by (simp add: only_touches_def)
  have fresh: "\<forall>n\<in>copies_from dir (Suc i). w_files w1 n = None"
  proof
    fix n assume n: "n \<in> copies_from dir (Suc i)"
    then have "n \<noteq> ?c" using copy_node_notin [of dir i a] by metis
    with t have "w_files w1 n = w_files w n" by (auto dest: only_touches_files)
    with n Cons.prems(4) copies_from_mono [of dir i] show "w_files w1 n = None" by auto
  qed
  have same: "w_files w1 x = w_files w x" if "\<not> node_under dir x" for x
    using t that copy_node_under [of dir i a] by (metis only_touches_files singletonD)
  have IH: "saved' = (saved @ [(a, ?c)]) @ map (\<lambda>(j, a). (a, copy_node dir j a)) (enumerate (Suc i) os)
      \<and> only_touches (copies_from dir (Suc i)) w1 w'
      \<and> (\<forall>(j, a)\<in>set (enumerate (Suc i) os). bytes_at w' (copy_node dir j a) = bytes_at w1 a)"
    using Cons.IH [OF r st _ fresh] Cons.prems(3) by auto
  have keep: "bytes_at w' ?c = bytes_at w a"
    using IH b copy_node_notin [of dir i a] by (simp add: only_touches_def)
  have all: "only_touches (copies_from dir i) w w'"
    using IH copies_from_mono [of dir i] \<open>?c \<in> copies_from dir i\<close>
    by (intro only_touches_step [OF t]) auto
  have "bytes_at w1 x = bytes_at w x" if "(j, x) \<in> set (enumerate (Suc i) os)" for j x
  proof -
    have "x \<in> set os" using imageI [OF that, of snd] by (metis list.set_map map_snd_enumerate snd_conv)
    then have "\<not> node_under dir x" using Cons.prems(3) by simp
    from same [OF this] show ?thesis by simp
  qed
  with IH keep all show ?case by auto
qed

subsection \<open>What a restore does\<close>

lemma fs_read_Ok: "fs_read n w = (Inr s, w') \<Longrightarrow> bytes_at w n = Some s \<and> only_touches {} w w'"
  by (auto simp: fs_read_def io_def split: option.splits)

lemma create_new_Ok:
  "fs_create_new n m w = (Inr u, w') \<Longrightarrow>
     w_files w' n = Some \<lparr>f_bytes = [], f_mode = m, f_uid = 0, f_gid = 0\<rparr> \<and> only_touches {n} w w'"
  by (auto simp: fs_create_new_def io_def split: option.splits)

lemma open_or_retry_Ok:
  assumes "open_or_retry tmp w = (Inr u, w')"
  shows "w_files w' tmp = Some \<lparr>f_bytes = [], f_mode = 0x180, f_uid = 0, f_gid = 0\<rparr> \<and> only_touches {tmp} w w'"
proof (cases "open_restore_temp tmp w")
  case (Pair r w1)
  show ?thesis
  proof (cases r)
    case (Inr x)
    with Pair assms show ?thesis
      using create_new_Ok [of tmp "0x180" w x w1] by (auto simp: open_or_retry_def open_restore_temp_def)
  next
    case (Inl e)
    with Pair assms have e: "e = IoAlreadyExists"
      by (auto simp: open_or_retry_def split: io_error.splits)
    with Inl Pair assms have o: "fs_create_new tmp 0x180 (cleanup_temp tmp w1) = (Inr u, w')"
      by (simp add: open_or_retry_def open_restore_temp_def)
    have "only_touches {tmp} w w1"
      using Pair by (auto simp: open_restore_temp_def dest: fs_touches(3))
    then have "only_touches {tmp} w (cleanup_temp tmp w1)"
      using cleanup_temp_touches [of tmp w1] by (rule only_touches_trans)
    with create_new_Ok [OF o] show ?thesis by (auto intro: only_touches_trans)
  qed
qed

lemma write_all_Ok:
  "fs_write_all n s w = (Inr u, w') \<Longrightarrow>
     w_files w' n = map_option (\<lambda>f. f\<lparr>f_bytes := f_bytes f @ s\<rparr>) (w_files w n) \<and> only_touches {n} w w'"
  by (auto simp: fs_write_all_def files_append_bytes split: option.splits)

text \<open>The replacement takes mode and owner of the file it replaces, as it is found then.\<close>

lemma preserve_Ok:
  assumes "preserve_dest_permissions tmp dest w = (Inr u, w')" and "w_files w tmp = Some t" and "tmp \<noteq> dest"
  shows "w_files w' tmp = Some (case w_files w dest of
       None \<Rightarrow> t
     | Some d \<Rightarrow> t\<lparr>f_uid := f_uid d, f_gid := f_gid d, f_mode := and (f_mode d) 0xFFF\<rparr>)
     \<and> only_touches {tmp} w w'"
  using assms
  by (auto simp: preserve_dest_permissions_def fs_metadata_def fs_chown_def fs_chmod_def io_def seq_def
      only_touches_def split: option.splits if_splits)

lemma rename_Ok:
  "fs_rename a b w = (Inr u, w') \<Longrightarrow> a \<noteq> b \<Longrightarrow>
     w_files w' b = w_files w a \<and> w_files w a \<noteq> None \<and> only_touches {a, b} w w'"
  using fs_rename_touches [of a b w "Inr u" w'] by (auto simp: fs_rename_def io_def split: option.splits)

lemma restore_temp_neq: "snd dest \<noteq> [] \<Longrightarrow> last (snd dest) \<noteq> ''..'' \<Longrightarrow> restore_temp dest \<noteq> dest"
proof
  assume d: "snd dest \<noteq> []" "last (snd dest) \<noteq> ''..''" and eq: "restore_temp dest = dest"
  from d have "length (last (snd (restore_temp dest))) = 16 + length (last (snd dest))"
    by (simp add: restore_temp_def node_join_def)
  with eq show False by simp
qed

lemma atomic_replace_Ok:
  assumes "atomic_replace src dest w = (Inr u, w')" and "restore_temp dest \<noteq> dest" and "src \<noteq> restore_temp dest"
  shows "bytes_at w' dest = bytes_at w src \<and> bytes_at w src \<noteq> None
    \<and> map_option f_mode (w_files w' dest) =
        Some (case w_files w dest of None \<Rightarrow> 0x180 | Some d \<Rightarrow> and (f_mode d) 0xFFF)
    \<and> only_touches {restore_temp dest, dest} w w'"
proof -
  let ?tmp = "restore_temp dest"
  from assms(1) obtain s w1 w2 w3 w4 where
    r: "fs_read src w = (Inr s, w1)" and o: "open_or_retry ?tmp w1 = (Inr (), w2)"
    and wr: "fs_write_all ?tmp s w2 = (Inr (), w3)"
    and p: "preserve_dest_permissions ?tmp dest w3 = (Inr (), w4)"
    and rn: "fs_rename ?tmp dest w4 = (Inr u, w')"
    by (auto simp: atomic_replace_def Let_def seq_Ok_iff comp_err_iff on_err_iff)
  note r = fs_read_Ok [OF r] and o = open_or_retry_Ok [OF o] and wr = write_all_Ok [OF wr]
  have t3: "w_files w3 ?tmp = Some \<lparr>f_bytes = s, f_mode = 0x180, f_uid = 0, f_gid = 0\<rparr>" using o wr by simp
  note p = preserve_Ok [OF p t3 assms(2)] and rn = rename_Ok [OF rn assms(2)]
  have d3: "w_files w3 dest = w_files w dest" using r o wr assms(2) by (simp add: only_touches_def)
  have "only_touches {?tmp, dest} w w1" "only_touches {?tmp, dest} w1 w2" "only_touches {?tmp, dest} w2 w3"
    "only_touches {?tmp, dest} w3 w4" "only_touches {?tmp, dest} w4 w'"
    using r o wr p rn by (auto intro: only_touches_mono)
  then have "only_touches {?tmp, dest} w w'" by (blast intro: only_touches_trans)
  then show ?thesis using r p rn d3 by (auto split: option.splits)
qed

text \<open>A failed replacement leaves the destination as it was.\<close>

lemma atomic_replace_Err:
  assumes "atomic_replace src dest w = (Inl e, w')" and "restore_temp dest \<noteq> dest"
  shows "w_files w' dest = w_files w dest"
proof -
  let ?tmp = "restore_temp dest" and ?same = "\<lambda>u v. w_files v dest = (w_files u dest :: fs_file option)"
  have touch: "only_touches {?tmp} u v \<Longrightarrow> ?same u v" "only_touches {} u v \<Longrightarrow> ?same u v"
    for u v :: "'a world" using assms(2) by (auto simp: only_touches_def)
  have cl: "?same u (cleanup_temp ?tmp u)" for u :: "'a world"
    by (rule touch(1)) (rule cleanup_temp_touches)
  have rd: "fs_read src u = (r, v) \<Longrightarrow> ?same u v" for u v :: "'a world" and r
    by (rule touch(2)) (rule fs_touches(1))
  have cn: "fs_create_new ?tmp m u = (r, v) \<Longrightarrow> ?same u v" for u v :: "'a world" and m r
    by (rule touch(1)) (rule fs_touches(3))
  have op: "open_or_retry ?tmp u = (r, v) \<Longrightarrow> ?same u v" for u v :: "'a world" and r
    by (auto simp: open_or_retry_def open_restore_temp_def cl split: prod.splits sum.splits io_error.splits
        dest!: cn)
  have wr: "fs_write_all ?tmp s u = (r, v) \<Longrightarrow> ?same u v" for u v :: "'a world" and s r
    by (rule touch(1)) (rule fs_touches(5))
  have pr: "preserve_dest_permissions ?tmp dest u = (r, v) \<Longrightarrow> ?same u v" for u v :: "'a world" and r
    using assms(2)
    by (auto simp: preserve_dest_permissions_def fs_metadata_def fs_chown_def fs_chmod_def io_def seq_def
        split: option.splits if_splits)
  have rn: "fs_rename ?tmp dest u = (Inl r, v) \<Longrightarrow> ?same u v" for u v :: "'a world" and r
    by (auto simp: fs_rename_def io_def split: option.splits if_splits)
  from assms(1) show ?thesis
    by (auto simp: atomic_replace_def Let_def seq_Err_iff comp_err_iff on_err_iff cl
        dest!: rd op wr pr rn)
qed

text \<open>
  The originals, their copies and the temporary names used beside the originals are apart
  from each other.
\<close>

definition separated :: "(node \<times> node) list \<Rightarrow> bool" where
  "separated ocs \<longleftrightarrow> distinct (map fst ocs)
     \<and> set (map fst ocs) \<inter> set (map snd ocs) = {}
     \<and> restore_temp ` set (map fst ocs) \<inter> (set (map fst ocs) \<union> set (map snd ocs)) = {}"

lemma separated_Cons: "separated (oc # ocs) \<Longrightarrow> separated ocs"
  by (auto simp: separated_def)

lemma restore_one_Ok:
  assumes "restore_one (a, c) w = (Inr u, w')" and "stats_ok w" and "separated ((a, c) # ocs)"
  shows "only_touches {restore_temp a, a} w w'
    \<and> (w_files w c \<noteq> None \<longrightarrow> bytes_at w' a = bytes_at w c)
    \<and> (w_files w c = None \<longrightarrow> faultless w \<longrightarrow> w_files w' a = None)"
proof (cases "w_files w c = None")
  case True
  with assms(1) have w': "w' = snd (fs_remove_file a (tick w))" by (simp add: restore_one_def fs_exists_def)
  have t: "only_touches {a} (tick w) w'" unfolding w' by (rule fs_touches(9)) (rule prod.collapse [symmetric])
  have "only_touches {restore_temp a, a} w w'"
    by (rule only_touches_trans [OF only_touches_tick only_touches_mono [OF t]]) auto
  moreover have "w_files w' a = None" if "faultless w"
    using that by (auto simp: w' fs_remove_file_def io_def split: option.splits)
  ultimately show ?thesis using True by auto
next
  case False
  with assms(1,2) have r: "atomic_replace c a (tick w) = (Inr u, w')" by (auto simp: restore_one_def fs_exists_def)
  have "restore_temp a \<noteq> a" "c \<noteq> restore_temp a" using assms(3) by (auto simp: separated_def)
  from atomic_replace_Ok [OF r this] False show ?thesis
    by (auto intro: only_touches_trans [OF only_touches_tick])
qed

lemma restore_files_Ok:
  assumes "restore_files ocs w = (Inr (), w')" and "stats_ok w" and "separated ocs"
  shows "only_touches (set (map fst ocs) \<union> restore_temp ` set (map fst ocs)) w w'
    \<and> (\<forall>(a, c)\<in>set ocs. (w_files w c \<noteq> None \<longrightarrow> bytes_at w' a = bytes_at w c)
         \<and> (w_files w c = None \<longrightarrow> faultless w \<longrightarrow> w_files w' a = None))"
  using assms
proof (induction ocs arbitrary: w)
  case Nil
  then show ?case by simp
next
  case (Cons oc ocs)
  obtain a c where oc: "oc = (a, c)" by fastforce
  let ?T = "\<lambda>xs. set (map fst xs) \<union> restore_temp ` set (map fst xs)"
  from Cons.prems(1) obtain w1 where one: "restore_one (a, c) w = (Inr (), w1)"
    and rest: "restore_files ocs w1 = (Inr (), w')" by (auto simp: oc seq_Ok_iff)
  note o = restore_one_Ok [OF one Cons.prems(2), of ocs] Cons.prems(3)
  from o have t1: "only_touches {restore_temp a, a} w w1" by (simp add: oc)
  have st: "stats_ok w1" "faultless w1 \<longleftrightarrow> faultless w"
    using Cons.prems(2) only_touches_sched [OF t1] by auto
  note IH = Cons.IH [OF rest st(1) separated_Cons [OF Cons.prems(3)]]
  have sep: "a \<notin> ?T ocs" "c' \<notin> {restore_temp a, a}" if "(a', c') \<in> set ocs" for a' c'
    using Cons.prems(3) that unfolding separated_def oc by (auto simp: image_iff; force)+
  have "a \<notin> ?T ocs" using Cons.prems(3) unfolding separated_def oc by (auto simp: image_iff; force)
  then have keep: "w_files w' a = w_files w1 a" using IH by (blast dest: only_touches_files)
  have copies: "w_files w1 c' = w_files w c'" if "(a', c') \<in> set ocs" for a' c'
    using t1 sep(2) [OF that] by (rule only_touches_files)
  have "only_touches (?T (oc # ocs)) w w'"
    using IH by (intro only_touches_step [OF t1]) (auto simp: oc)
  moreover have "(w_files w c \<noteq> None \<longrightarrow> bytes_at w' a = bytes_at w c)
      \<and> (w_files w c = None \<longrightarrow> faultless w \<longrightarrow> w_files w' a = None)"
    using o keep by (simp add: oc)
  ultimately show ?case using IH copies st(2) by (auto simp: oc)
qed

subsection \<open>Without faults nothing fails\<close>

lemma faultless_keep:
  "faultless w \<Longrightarrow> faultless (tick w)" "faultless w \<Longrightarrow> faultless (set_file n f w)"
  "faultless w \<Longrightarrow> faultless (append_bytes n s w)"
  by (auto simp: append_bytes_def split: option.splits)

lemma io_faultless: "faultless w \<Longrightarrow> io f w = f (tick w)"
  by (simp add: io_def)

lemma open_or_retry_total:
  assumes "faultless w"
  shows "\<exists>w'. open_or_retry tmp w = (Inr (), w')"
  using assms
  by (cases "w_files w tmp")
    (simp_all add: open_or_retry_def open_restore_temp_def fs_create_new_def cleanup_temp_def
      fs_remove_file_def io_faultless)

lemma preserve_total:
  assumes "faultless w"
  shows "\<exists>w'. preserve_dest_permissions tmp dest w = (Inr (), w')"
  using assms
  by (cases "w_files w dest")
    (simp_all add: preserve_dest_permissions_def fs_metadata_def fs_chown_def fs_chmod_def io_faultless seq_def)

lemma atomic_replace_total:
  assumes "faultless w" and "w_files w src \<noteq> None" and "restore_temp dest \<noteq> dest" and "src \<noteq> restore_temp dest"
  shows "\<exists>w'. atomic_replace src dest w = (Inr (), w')"
proof -
  let ?tmp = "restore_temp dest"
  obtain s w1 where r: "fs_read src w = (Inr s, w1)"
    using assms(1,2) by (auto simp: fs_read_def io_faultless)
  then have f1: "faultless w1" using assms(1) fs_read_Ok [OF r] by (auto dest: only_touches_sched)
  obtain w2 where o: "open_or_retry ?tmp w1 = (Inr (), w2)" using open_or_retry_total [OF f1] by blast
  then have f2: "faultless w2" and t2: "w_files w2 ?tmp \<noteq> None"
    using f1 open_or_retry_Ok [OF o] by (auto dest: only_touches_sched)
  obtain w3 where wr: "fs_write_all ?tmp s w2 = (Inr (), w3)"
    using f2 by (simp add: fs_write_all_def)
  then have f3: "faultless w3" and t3: "w_files w3 ?tmp \<noteq> None"
    using f2 t2 write_all_Ok [OF wr] by (auto dest: only_touches_sched)
  obtain w4 where p: "preserve_dest_permissions ?tmp dest w3 = (Inr (), w4)"
    using preserve_total [OF f3] by blast
  obtain t where "w_files w3 ?tmp = Some t" using t3 by blast
  from preserve_Ok [OF p this assms(3)] have f4: "faultless w4" and t4: "w_files w4 ?tmp \<noteq> None"
    using f3 by (auto dest: only_touches_sched)
  obtain w5 where "fs_rename ?tmp dest w4 = (Inr (), w5)"
    using f4 t4 by (auto simp: fs_rename_def io_faultless)
  with r o wr p show ?thesis by (auto simp: atomic_replace_def Let_def seq_def comp_err_def on_err_def)
qed

lemma restore_files_total:
  assumes "faultless w" and "stats_ok w" and "separated ocs"
  shows "\<exists>w'. restore_files ocs w = (Inr (), w')"
  using assms
proof (induction ocs arbitrary: w)
  case Nil
  then show ?case by simp
next
  case (Cons oc ocs)
  obtain a c where oc: "oc = (a, c)" by fastforce
  have sep: "restore_temp a \<noteq> a" "c \<noteq> restore_temp a" using Cons.prems(3) by (auto simp: oc separated_def)
  obtain w1 where one: "restore_one (a, c) w = (Inr (), w1)"
    using Cons.prems(1,2) atomic_replace_total [of "tick w" c a] sep
    by (cases "w_files w c = None") (auto simp: restore_one_def fs_exists_def)
  have "only_touches {restore_temp a, a} w w1"
    using restore_one_Ok [OF one Cons.prems(2)] Cons.prems(3) by (auto simp: oc)
  then have "faultless w1" "stats_ok w1" using Cons.prems(1,2) by (auto dest: only_touches_sched)
  from Cons.IH [OF this separated_Cons [OF Cons.prems(3)]] one show ?case by (auto simp: oc)
qed

subsection \<open>Properties\<close>

lemma timestamp_frame:
  "timestamp_component w = (s, w1) \<Longrightarrow>
     w_files w1 = w_files w \<and> w_stat_fault w1 = w_stat_fault w \<and> w_fault w1 = w_fault w"
  by (auto simp: timestamp_component_def split: option.splits)

lemma snapshot_Ok:
  assumes "snapshot b w = (Inr b', w')" and "stats_ok w" and dir: "bk_snapshot_dir b' = Some dir"
    and "\<forall>n. node_under dir n \<longrightarrow> w_files w n = None"
    and "\<forall>a\<in>set (bk_targets b). \<not> node_under dir a"
  shows "bk_saved b' = map (\<lambda>(j, a). (a, copy_node dir j a)) (enumerate 0 (bk_targets b))
    \<and> (\<forall>(a, c)\<in>set (bk_saved b'). bytes_at w' c = bytes_at w a)
    \<and> (\<forall>n. \<not> node_under dir n \<longrightarrow> w_files w' n = w_files w n)
    \<and> w_stat_fault w' = w_stat_fault w"
proof -
  obtain stamp w1 where ts: "timestamp_component w = (stamp, w1)" by fastforce
  note f1 = timestamp_frame [OF ts]
  from assms(1) ts dir obtain w2 saved where mk: "create_dir_0700 dir w1 = (Inr (), w2)"
    and sn: "snapshot_files dir 0 (bk_targets b) [] w2 = (Inr saved, w')" and b': "bk_saved b' = saved"
    by (auto simp: snapshot_def Let_def seq_Ok_iff pure_ok_def)
  have t2: "only_touches {} w1 w2"
    using mk by (auto simp: create_dir_0700_def comp_err_iff dest: fs_touches(11))
  have same: "w_files w2 n = w_files w n" for n using f1 t2 by (auto dest: only_touches_files)
  have st: "stats_ok w2" using assms(2) f1 only_touches_sched(1) [OF t2] by simp
  have fresh: "\<forall>n\<in>copies_from dir 0. w_files w2 n = None"
    using same assms(4) copies_from_under [of _ dir 0] by simp
  note sf = snapshot_files_Ok [OF sn st assms(5) fresh]
  have "w_files w' n = w_files w n" if "\<not> node_under dir n" for n
    using sf same that copies_from_under [of n dir 0] by (metis only_touches_files)
  moreover have "w_stat_fault w' = w_stat_fault w"
    using sf f1 only_touches_sched(1) [OF t2] by (auto dest: only_touches_sched)
  moreover have "\<forall>(a, c)\<in>set saved. bytes_at w' c = bytes_at w a"
    using sf same by auto
  ultimately show ?thesis using sf b' by simp
qed

lemma snapshot_separated:
  assumes "distinct ts" and "\<forall>a\<in>set ts. \<not> node_under dir a \<and> \<not> node_under dir (restore_temp a) \<and> restore_temp a \<notin> set ts"
  shows "separated (map (\<lambda>(j, a). (a, copy_node dir j a)) (enumerate 0 ts))"
proof -
  let ?ocs = "map (\<lambda>(j, a). (a, copy_node dir j a)) (enumerate 0 ts)"
  have fst: "map fst ?ocs = ts" by (simp add: comp_def split_beta)
  have "node_under dir c" if "c \<in> set (map snd ?ocs)" for c using that by auto
  then show ?thesis using assms unfolding separated_def fst by blast
qed

lemma restore_after_snapshot:
  assumes "snapshot b w = (Ok b', w1)" and "stats_ok w" and dir: "bk_snapshot_dir b' = Some dir"
    and "\<forall>n. node_under dir n \<longrightarrow> w_files w n = None" and "distinct (bk_targets b)"
    and "\<forall>a\<in>set (bk_targets b).
           \<not> node_under dir a \<and> \<not> node_under dir (restore_temp a) \<and> restore_temp a \<notin> set (bk_targets b)"
    and copies: "\<forall>n. node_under dir n \<longrightarrow> w_files w2 n = w_files w1 n" and st2: "stats_ok w2"
  shows "(\<forall>w3. restore b' w2 = (Ok (), w3) \<longrightarrow>
           (\<forall>a\<in>set (bk_targets b). w_files w a \<noteq> None \<longrightarrow> bytes_at w3 a = bytes_at w a))
    \<and> (faultless w2 \<longrightarrow> (\<exists>w3. restore b' w2 = (Ok (), w3)
           \<and> (\<forall>a\<in>set (bk_targets b). bytes_at w3 a = bytes_at w a)))"
proof -
  let ?ocs = "bk_saved b'"
  note sn = snapshot_Ok [OF assms(1,2) dir assms(4)]
  have saved: "?ocs = map (\<lambda>(j, a). (a, copy_node dir j a)) (enumerate 0 (bk_targets b))"
    and b1: "\<forall>(a, c)\<in>set ?ocs. bytes_at w1 c = bytes_at w a" using sn assms(6) by auto
  have sep: "separated ?ocs" unfolding saved using assms(5,6) by (rule snapshot_separated)
  have "map fst ?ocs = bk_targets b" by (simp add: saved comp_def split_beta)
  then have pick: "\<exists>c. (a, c) \<in> set ?ocs" if "a \<in> set (bk_targets b)" for a
    using that by (metis (no_types, lifting) fst_conv imageE list.set_map old.prod.exhaust)
  have b2: "bytes_at w2 c = bytes_at w a" if "(a, c) \<in> set ?ocs" for a c
  proof -
    have "node_under dir c" using that by (auto simp: saved)
    then show ?thesis using copies b1 that by auto
  qed
  have re: "restore b' w2 = restore_files ?ocs w2" by (simp add: restore_def dir)
  have ok: "(w_files w a \<noteq> None \<longrightarrow> bytes_at w3 a = bytes_at w a)
      \<and> (w_files w a = None \<longrightarrow> faultless w2 \<longrightarrow> w_files w3 a = None)"
    if "restore_files ?ocs w2 = (Ok (), w3)" and "a \<in> set (bk_targets b)" for w3 a
  proof -
    obtain c where c: "(a, c) \<in> set ?ocs" using pick [OF \<open>a \<in> set (bk_targets b)\<close>] by blast
    have "(w_files w2 c \<noteq> None \<longrightarrow> bytes_at w3 a = bytes_at w2 c)
        \<and> (w_files w2 c = None \<longrightarrow> faultless w2 \<longrightarrow> w_files w3 a = None)"
      using bspec [OF conjunct2 [OF restore_files_Ok [OF \<open>restore_files ?ocs w2 = (Ok (), w3)\<close> st2 sep]] c]
      by simp
    with b2 [OF c] show ?thesis by auto
  qed
  show ?thesis
  proof (intro conjI impI)
    show "\<forall>w3. restore b' w2 = (Ok (), w3) \<longrightarrow>
        (\<forall>a\<in>set (bk_targets b). w_files w a \<noteq> None \<longrightarrow> bytes_at w3 a = bytes_at w a)"
      using ok by (auto simp: re)
    assume "faultless w2"
    with restore_files_total [OF _ st2 sep] obtain w3 where r: "restore_files ?ocs w2 = (Ok (), w3)" by blast
    have "bytes_at w3 a = bytes_at w a" if "a \<in> set (bk_targets b)" for a
      using ok [OF r that] \<open>faultless w2\<close> by (cases "w_files w a") auto
    with r show "\<exists>w3. restore b' w2 = (Ok (), w3) \<and> (\<forall>a\<in>set (bk_targets b). bytes_at w3 a = bytes_at w a)"
      by (auto simp: re)
  qed
qed

text \<open>
  C17: rollback restores contents.  After a snapshot whose directory is new, whatever the
  mutations do to the system outside that directory, a restore that reports success has put
  back the bytes of every file the snapshot saw, and with no I/O fault the restore does report
  success and also removes every target that did not exist at snapshot time.
\<close>

theorem backup_roundtrip:
  assumes "snapshot b w = (Ok b', w1)" and "stats_ok w" and dir: "bk_snapshot_dir b' = Some dir"
    and "\<forall>n. node_under dir n \<longrightarrow> w_files w n = None" and "distinct (bk_targets b)"
    and "\<forall>a\<in>set (bk_targets b).
           \<not> node_under dir a \<and> \<not> node_under dir (restore_temp a) \<and> restore_temp a \<notin> set (bk_targets b)"
    and copies: "\<forall>n. node_under dir n \<longrightarrow> w_files w2 n = w_files w1 n" and st2: "stats_ok w2"
  shows "(\<forall>w3. restore b' w2 = (Ok (), w3) \<longrightarrow>
           (\<forall>a\<in>set (bk_targets b). w_files w a \<noteq> None \<longrightarrow> bytes_at w3 a = bytes_at w a))
    \<and> (faultless w2 \<longrightarrow> (\<exists>w3. restore b' w2 = (Ok (), w3)
           \<and> (\<forall>a\<in>set (bk_targets b). bytes_at w3 a = bytes_at w a)))"
  using assms by (rule restore_after_snapshot)

definition passwd_node :: node where "passwd_node = (True, [''etc'', ''passwd''])"
definition shadow_node :: node where "shadow_node = (True, [''etc'', ''shadow''])"
definition snap_root :: node where "snap_root = (True, [''snap''])"

lemmas sample_nodes = passwd_node_def shadow_node_def snap_root_def

text \<open>A world with one target present and one absent, and no faults.\<close>

definition sample_world :: "unit world" where
  "sample_world = \<lparr>w_files = (\<lambda>n. if n = passwd_node then Some \<lparr>f_bytes = ''root'', f_mode = 0x1A4, f_uid = 0, f_gid = 0\<rparr> else None),
     w_clock = 0, w_fault = (\<lambda>_. None), w_stat_fault = (\<lambda>_. False), w_short = (\<lambda>_. None),
     w_time = (\<lambda>_. None), w_pid = 7, w_counter = 0, w_ext = ()\<rparr>"

definition sample_backup :: backup where
  "sample_backup = backup_new [passwd_node, shadow_node] snap_root"

definition sample_dir :: node where
  "sample_dir = node_join snap_root (fst (timestamp_component sample_world))"

lemma sample_under: "node_under sample_dir n \<Longrightarrow> fst n \<and> snd n \<noteq> [] \<and> hd (snd n) = ''snap''"
  by (cases n; cases "snd n") (auto simp: sample_dir_def node_join_def snap_root_def node_under_def)

lemma sample_snapshot:
  "\<exists>b' w1. snapshot sample_backup sample_world = (Ok b', w1) \<and> bk_snapshot_dir b' = Some sample_dir
     \<and> w_stat_fault w1 = (\<lambda>_. False) \<and> w_fault w1 = (\<lambda>_. None)"
  by (simp add: snapshot_def sample_world_def sample_backup_def backup_new_def sample_dir_def
      timestamp_component_def create_dir_0700_def fs_create_dir_def io_def comp_err_def copy_file_def fs_copy_def
      fs_exists_def seq_def pure_ok_def Let_def sample_nodes tick_def set_file_def)

theorem backup_roundtrip_witness:
  "\<exists>b' w1 w3. snapshot sample_backup sample_world = (Ok b', w1)
     \<and> restore b' (set_file shadow_node (Some \<lparr>f_bytes = ''x'', f_mode = 0, f_uid = 0, f_gid = 0\<rparr>)
                    (set_file passwd_node None w1)) = (Ok (), w3)
     \<and> bytes_at w3 passwd_node = Some ''root'' \<and> bytes_at w3 shadow_node = None"
proof -
  obtain b' w1 where s: "snapshot sample_backup sample_world = (Ok b', w1)" and d: "bk_snapshot_dir b' = Some sample_dir"
    and f: "w_stat_fault w1 = (\<lambda>_. False)" "w_fault w1 = (\<lambda>_. None)"
    using sample_snapshot by blast
  let ?w2 = "set_file shadow_node (Some \<lparr>f_bytes = ''x'', f_mode = 0, f_uid = 0, f_gid = 0\<rparr>) (set_file passwd_node None w1)"
  have under: "\<not> node_under sample_dir n" if "snd n = [] \<or> hd (snd n) = ''etc''" for n
    using sample_under [of n] that by auto
  have t: "bk_targets sample_backup = [passwd_node, shadow_node]" by (simp add: sample_backup_def backup_new_def)
  have fresh: "\<forall>n. node_under sample_dir n \<longrightarrow> w_files sample_world n = None"
    using under [of passwd_node] by (auto simp: sample_world_def sample_nodes)
  have temps: "restore_temp passwd_node = (True, [''etc'', ''.census-restore-passwd''])"
    "restore_temp shadow_node = (True, [''etc'', ''.census-restore-shadow''])"
    by (simp_all add: restore_temp_def sample_nodes node_join_def node_parent_def)
  have tg: "\<forall>a\<in>set (bk_targets sample_backup). \<not> node_under sample_dir a \<and> \<not> node_under sample_dir (restore_temp a)
      \<and> restore_temp a \<notin> set (bk_targets sample_backup)"
    using under [of passwd_node] under [of shadow_node] under [of "restore_temp passwd_node"]
      under [of "restore_temp shadow_node"]
    by (simp add: t temps) (simp add: sample_nodes)
  have copies: "\<forall>n. node_under sample_dir n \<longrightarrow> w_files ?w2 n = w_files w1 n"
    using under [of passwd_node] under [of shadow_node] by (auto simp: sample_nodes)
  from backup_roundtrip [OF s _ d fresh _ tg copies] f obtain w3 where
    "restore b' ?w2 = (Ok (), w3)" "\<forall>a\<in>set (bk_targets sample_backup). bytes_at w3 a = bytes_at sample_world a"
    by (auto simp: sample_world_def t sample_nodes)
  with s show ?thesis by (auto simp: t sample_world_def sample_nodes)
qed

text \<open>
  C18: replacing a file is all or nothing: on success the destination holds exactly the bytes
  of the source under the mode the destination had (0600 if it did not exist), and on any
  error the destination is untouched.
\<close>

theorem atomic_replace_all_or_nothing:
  assumes "restore_temp dest \<noteq> dest" and "src \<noteq> restore_temp dest"
  shows "case atomic_replace src dest w of
      (Ok _, w') \<Rightarrow> bytes_at w' dest = bytes_at w src \<and> bytes_at w src \<noteq> None
         \<and> map_option f_mode (w_files w' dest) =
             Some (case w_files w dest of None \<Rightarrow> 0x180 | Some d \<Rightarrow> and (f_mode d) 0xFFF)
    | (Err _, w') \<Rightarrow> w_files w' dest = w_files w dest"
proof (cases "atomic_replace src dest w")
  case (Pair r w')
  then show ?thesis
    using atomic_replace_Ok [of src dest w _ w', OF _ assms] atomic_replace_Err [of src dest w _ w', OF _ assms(1)]
    by (cases r) simp_all
qed

theorem atomic_replace_all_or_nothing_witness:
  "case atomic_replace passwd_node shadow_node sample_world of
      (Ok _, w') \<Rightarrow> bytes_at w' shadow_node = Some ''root''
    | (Err _, w') \<Rightarrow> False"
proof -
  have t: "restore_temp shadow_node = (True, [''etc'', ''.census-restore-shadow''])"
    by (simp add: restore_temp_def sample_nodes node_join_def node_parent_def)
  have "\<exists>w'. atomic_replace passwd_node shadow_node sample_world = (Ok (), w')"
    by (rule atomic_replace_total) (simp_all only: t, simp_all add: sample_world_def sample_nodes)
  moreover have "bytes_at sample_world passwd_node = Some ''root''" by (simp add: sample_world_def)
  ultimately show ?thesis
    using atomic_replace_all_or_nothing [of shadow_node passwd_node sample_world]
    by (auto simp: t) (auto simp: sample_nodes)
qed

end
