(* ===== verification/Sudoers.thy ===== *)
theory Sudoers
  imports Fs Declaration
begin

text \<open>
  \<^verbatim>\<open>src/sudoers.rs\<close>: the names and contents of the sudoers fragments Census owns, the escaping
  of command lists, and their activation through a temporary file that \<^verbatim>\<open>visudo\<close> has checked.
  \<^verbatim>\<open>visudo\<close> is another program: a computation the writer takes as a parameter.
\<close>

subsection \<open>Names\<close>

definition sudoers_filename :: "string \<Rightarrow> string" where
  "sudoers_filename role = ''census-'' @ role"

definition sudoers_group_filename :: "string \<Rightarrow> string" where
  "sudoers_group_filename grp = ''census-grp-'' @ grp"

definition sudoers_group_path :: "node \<Rightarrow> string \<Rightarrow> node" where
  "sudoers_group_path dir grp = node_join dir (sudoers_group_filename grp)"

subsection \<open>Contents\<close>

definition sudoers_metachars :: string where
  "sudoers_metachars = '',:=()!#'' @ [CHR 0x5C]"

definition escape_sudoers_command :: "string \<Rightarrow> string" where
  "escape_sudoers_command cmd =
     concat (map (\<lambda>c. if c \<in> set sudoers_metachars then [CHR 0x5C, c] else [c]) cmd)"

fun add_to_group :: "string option \<Rightarrow> string \<Rightarrow> (string option \<times> string list) list \<Rightarrow> (string option \<times> string list) list" where
  "add_to_group r c [] = [(r, [c])]"
| "add_to_group r c ((q, cs) # gs) = (if q = r then (q, cs @ [c]) # gs else (q, cs) # add_to_group r c gs)"

definition runspec_groups :: "sudo_command list \<Rightarrow> (string option \<times> string list) list" where
  "runspec_groups cmds =
     fold (\<lambda>c gs. add_to_group (sc_runas c) (escape_sudoers_command (sc_command c)) gs) cmds []"

definition render_group :: "string option \<times> string list \<Rightarrow> string" where
  "render_group g =
     (case g of (runas, cmds) \<Rightarrow>
        (let spec = (case runas of None \<Rightarrow> ''ALL'' | Some u \<Rightarrow> escape_sudoers_command u) in
         ''('' @ spec @ '') NOPASSWD: '' @ join_with '', '' cmds))"

definition render_runspec :: "sudo_command list \<Rightarrow> string" where
  "render_runspec cmds = join_with '', '' (map render_group (runspec_groups cmds))"

text \<open>One output character for each scalar value of the input.\<close>

definition sudo_role_alias :: "string \<Rightarrow> string" where
  "sudo_role_alias r =
     ''CENSUS_'' @ map (\<lambda>c. if is_ascii_alphanumeric c then to_ascii_uppercase c else CHR ''_'')
       (filter (\<lambda>c. \<not> is_continuation c) r)"

definition em_dash :: string where
  "em_dash = [CHR 0xE2, CHR 0x80, CHR 0x94]"

abbreviation newline :: string where "newline \<equiv> [CHR 0x0A]"

definition build_account_sudoers_from_parts ::
    "string \<Rightarrow> sudo_command list \<Rightarrow> string option \<Rightarrow> string option" where
  "build_account_sudoers_from_parts nm cmds sudo_role =
     (if cmds \<noteq> [] then
        Some (''# Managed by Census '' @ em_dash @ '' role '' @ nm @ ''. Do not edit by hand.'' @ newline
          @ ''# Concrete commands expanded from the role's permissions.'' @ newline
          @ ''# NOPASSWD: role accounts have locked passwords (no password to prompt).'' @ newline
          @ nm @ '' ALL='' @ render_runspec cmds @ newline)
      else map_option (\<lambda>r.
          ''# Managed by Census '' @ em_dash @ '' role '' @ nm @ ''. Do not edit by hand.'' @ newline
          @ ''# Command set is the site-provisioned Cmnd_Alias '' @ sudo_role_alias r @ ''.'' @ newline
          @ nm @ '' ALL=(ALL) '' @ sudo_role_alias r @ newline) sudo_role)"

definition build_sudoers_content :: "resolved_account \<Rightarrow> string option" where
  "build_sudoers_content a = build_account_sudoers_from_parts (ra_name a) (ra_sudo_commands a) (ra_sudo_role a)"

definition build_group_sudoers_from_parts :: "string \<Rightarrow> sudo_command list \<Rightarrow> string option" where
  "build_group_sudoers_from_parts nm cmds =
     (if cmds = [] then None
      else Some (''# Managed by Census '' @ em_dash @ '' group '' @ nm @ ''. Do not edit by hand.'' @ newline
        @ ''# Concrete commands expanded from the bound roles' permissions.'' @ newline
        @ ''# Subject is the Unix group (%): every effective member inherits the rule,'' @ newline
        @ ''# including LDAP nested-group members resolved behind the group name.'' @ newline
        @ ''# NOPASSWD: a managed group sudo grant is not an interactive re-auth point.'' @ newline
        @ ''%'' @ nm @ '' ALL='' @ render_runspec cmds @ newline))"

definition build_group_sudoers_content :: "resolved_group \<Rightarrow> string option" where
  "build_group_sudoers_content g = build_group_sudoers_from_parts (rg_name g) (rg_sudo_commands g)"

subsection \<open>Activation\<close>

datatype sudoers_error =
  SudWriteTemp node io_error
| SudMode node io_error
| SudVisudoSpawn string
| SudVisudoRejected string string
| SudActivate node io_error
| SudRemove node io_error

text \<open>What running \<^verbatim>\<open>visudo -c -f\<close> on a file gives: it was accepted or not, and its stderr.\<close>

type_synonym 'x visudo = "node \<Rightarrow> ('x world, string, bool \<times> string) comp"

definition open_excl :: "node \<Rightarrow> ('x world, io_error, unit) comp" where
  "open_excl n = fs_create_new n 0x1A4"

definition open_excl_or_retry :: "node \<Rightarrow> ('x world, io_error, unit) comp" where
  "open_excl_or_retry tmp w =
     (case open_excl tmp w of
        (Ok _, w1) \<Rightarrow> (Ok (), w1)
      | (Err IoAlreadyExists, w1) \<Rightarrow> open_excl tmp (cleanup_temp tmp w1)
      | (Err e, w1) \<Rightarrow> (Err e, w1))"

definition set_mode_0440 :: "node \<Rightarrow> ('x world, sudoers_error, unit) comp" where
  "set_mode_0440 n = comp_err (SudMode n) (fs_chmod n 0x120)"

definition run_visudo :: "'x visudo \<Rightarrow> node \<Rightarrow> string \<Rightarrow> ('x world, sudoers_error, unit) comp" where
  "run_visudo visudo tmp subject w =
     (case visudo tmp w of
        (Err e, w1) \<Rightarrow> (Err (SudVisudoSpawn e), w1)
      | (Ok (success, stderr), w1) \<Rightarrow>
          if \<not> success then (Err (SudVisudoRejected subject (trim stderr)), w1) else (Ok (), w1))"

definition fragment_temp :: "node \<Rightarrow> string \<Rightarrow> node" where
  "fragment_temp dir filename = node_join dir (''.'' @ filename @ ''.tmp'')"

definition write_fragment ::
    "'x visudo \<Rightarrow> node \<Rightarrow> string \<Rightarrow> string \<Rightarrow> string \<Rightarrow> ('x world, sudoers_error, unit) comp" where
  "write_fragment visudo dir filename content subject =
     (let tmp = fragment_temp dir filename; dest = node_join dir filename in
      seq (comp_err (SudWriteTemp tmp) (open_excl_or_retry tmp)) (\<lambda>_.
      seq (comp_err (SudWriteTemp tmp) (on_err (fs_write_all tmp content) (cleanup_temp tmp))) (\<lambda>_.
      seq (on_err (set_mode_0440 tmp) (cleanup_temp tmp)) (\<lambda>_.
      seq (on_err (run_visudo visudo tmp subject) (cleanup_temp tmp)) (\<lambda>_.
      comp_err (SudActivate dest) (on_err (fs_rename tmp dest) (cleanup_temp tmp)))))))"

definition remove_fragment :: "node \<Rightarrow> string \<Rightarrow> ('x world, sudoers_error, unit) comp" where
  "remove_fragment dir filename w =
     (let p = node_join dir filename in
      case fs_remove_file p w of
        (Ok _, w1) \<Rightarrow> (Ok (), w1)
      | (Err IoNotFound, w1) \<Rightarrow> (Ok (), w1)
      | (Err e, w1) \<Rightarrow> (Err (SudRemove p e), w1))"

definition write_sudoers :: "'x visudo \<Rightarrow> node \<Rightarrow> string \<Rightarrow> string \<Rightarrow> ('x world, sudoers_error, unit) comp" where
  "write_sudoers visudo dir role content = write_fragment visudo dir (sudoers_filename role) content role"

definition remove_sudoers :: "node \<Rightarrow> string \<Rightarrow> ('x world, sudoers_error, unit) comp" where
  "remove_sudoers dir role = remove_fragment dir (sudoers_filename role)"

definition write_group_sudoers :: "'x visudo \<Rightarrow> node \<Rightarrow> string \<Rightarrow> string \<Rightarrow> ('x world, sudoers_error, unit) comp" where
  "write_group_sudoers visudo dir grp content =
     write_fragment visudo dir (sudoers_group_filename grp) content grp"

definition remove_group_sudoers :: "node \<Rightarrow> string \<Rightarrow> ('x world, sudoers_error, unit) comp" where
  "remove_group_sudoers dir grp = remove_fragment dir (sudoers_group_filename grp)"

subsection \<open>Command lists read back\<close>

text \<open>
  How a sudoers command list is read: a backslash takes the next character literally, an
  unescaped comma ends a command, blanks before a command are skipped.
\<close>

fun read_cmnds :: "bool \<Rightarrow> string \<Rightarrow> string \<Rightarrow> string list" where
  "read_cmnds sk acc [] = [acc]"
| "read_cmnds sk acc (c # s) =
     (if sk \<and> c = CHR '' '' then read_cmnds True acc s
      else if c = CHR 0x5C then (case s of [] \<Rightarrow> [acc] | d # t \<Rightarrow> read_cmnds False (acc @ [d]) t)
      else if c = CHR '','' then acc # read_cmnds True [] s
      else read_cmnds False (acc @ [c]) s)"

lemma escape_simps [simp]:
  "escape_sudoers_command [] = []"
  "escape_sudoers_command (c # s) =
     (if c \<in> set sudoers_metachars then [CHR 0x5C, c] else [c]) @ escape_sudoers_command s"
  by (simp_all add: escape_sudoers_command_def)

lemma metachar_cases:
  "c \<notin> set sudoers_metachars \<Longrightarrow> c \<noteq> CHR '','' \<and> c \<noteq> CHR 0x5C"
  by (auto simp: sudoers_metachars_def)

lemma read_escaped: "read_cmnds False acc (escape_sudoers_command c @ rest) = read_cmnds False (acc @ c) rest"
proof (induction c arbitrary: acc)
  case (Cons a c)
  show ?case using Cons [of "acc @ [a]"] metachar_cases [of a] by auto
qed simp

lemma read_escaped_start:
  assumes "c \<noteq> []" and "hd c \<noteq> CHR '' ''"
  shows "read_cmnds True [] (escape_sudoers_command c @ rest) = read_cmnds False c rest"
proof -
  obtain a s where c: "c = a # s" "a \<noteq> CHR '' ''" using assms by (cases c) auto
  then show ?thesis
    using read_escaped [of "[a]" s rest] metachar_cases [of a] by auto
qed

lemma read_joined:
  assumes "cmds \<noteq> []" and "list_all (\<lambda>c. c \<noteq> [] \<and> hd c \<noteq> CHR '' '') cmds"
  shows "read_cmnds True [] (join_with '', '' (map escape_sudoers_command cmds)) = cmds"
  using assms
proof (induction cmds rule: induct_list012)
  case (2 c)
  then show ?case using read_escaped_start [of c "[]"] by simp
next
  case (3 c d cmds)
  have rest: "read_cmnds True [] (join_with '', '' (map escape_sudoers_command (d # cmds))) = d # cmds"
    using 3 by simp
  have "read_cmnds True [] (join_with '', '' (map escape_sudoers_command (c # d # cmds)))
      = read_cmnds False c ('', '' @ join_with '', '' (map escape_sudoers_command (d # cmds)))"
    using read_escaped_start [of c] 3(4) by simp
  also have "\<dots> = c # read_cmnds True [] (join_with '', '' (map escape_sudoers_command (d # cmds)))" by simp
  finally show ?case using rest by simp
qed simp

subsection \<open>Grouping by run-as account\<close>

text \<open>The reference: one group per run-as account in order of first appearance, its commands in order.\<close>

definition runspec_reference :: "sudo_command list \<Rightarrow> (string option \<times> string list) list" where
  "runspec_reference cmds =
     map (\<lambda>r. (r, map (\<lambda>c. escape_sudoers_command (sc_command c)) (filter (\<lambda>c. sc_runas c = r) cmds)))
       (extend_unique (map sc_runas cmds) [])"

lemma add_to_group_map:
  assumes "distinct rs"
  shows "add_to_group r c (map (\<lambda>q. (q, f q)) rs) =
     map (\<lambda>q. (q, (if q \<in> set rs then f q else []) @ (if q = r then [c] else []))) (push_unique r rs)"
  using assms
proof (induction rs)
  case (Cons q rs)
  show ?case
  proof (cases "q = r")
    case True
    with Cons.prems show ?thesis by (auto simp: push_unique_def)
  next
    case False
    with Cons show ?thesis by (auto simp: push_unique_def)
  qed
qed (simp add: push_unique_def)

lemma runspec_groups_reference: "runspec_groups cmds = runspec_reference cmds"
proof (induction cmds rule: rev_induct)
  case Nil
  show ?case by (simp add: runspec_groups_def runspec_reference_def extend_unique_def)
next
  case (snoc c cmds)
  let ?rs = "extend_unique (map sc_runas cmds) []"
  let ?f = "\<lambda>r cs. map (\<lambda>c. escape_sudoers_command (sc_command c)) (filter (\<lambda>c. sc_runas c = r) cs)"
  have d: "distinct ?rs" by simp
  have none: "?f q cmds = []" if "q \<notin> set ?rs" for q
    using that by (auto simp: filter_empty_conv)
  have "runspec_groups (cmds @ [c]) =
      add_to_group (sc_runas c) (escape_sudoers_command (sc_command c)) (map (\<lambda>r. (r, ?f r cmds)) ?rs)"
    using snoc by (simp add: runspec_groups_def runspec_reference_def)
  also have "\<dots> = map (\<lambda>q. (q, ?f q (cmds @ [c]))) (push_unique (sc_runas c) ?rs)"
    unfolding add_to_group_map [OF d] using none by (auto intro!: map_cong)
  also have "push_unique (sc_runas c) ?rs = extend_unique (map sc_runas (cmds @ [c])) []"
    by (simp add: extend_unique_def)
  finally show ?case by (simp add: runspec_reference_def)
qed

subsection \<open>One directive per fragment\<close>

lemma newline_not_meta: "CHR 0x0A \<notin> set sudoers_metachars"
  by (simp add: sudoers_metachars_def)











subsection \<open>The write path\<close>

text \<open>What the writer relies on: checking a file with \<^verbatim>\<open>visudo -c\<close> changes no file.\<close>

definition visudo_only_checks :: "'x visudo \<Rightarrow> bool" where
  "visudo_only_checks visudo \<longleftrightarrow> (\<forall>n w r w'. visudo n w = (r, w') \<longrightarrow> only_touches {} w w')"

lemma run_visudo_touches:
  assumes "visudo_only_checks v" and "run_visudo v tmp s w = (r, w')"
  shows "only_touches {} w w'"
proof -
  obtain r1 w1 where v: "v tmp w = (r1, w1)" by fastforce
  then have "only_touches {} w w1" using assms(1) by (auto simp: visudo_only_checks_def)
  moreover have "w' = w1" using assms(2) v by (auto simp: run_visudo_def split: sum.splits if_splits)
  ultimately show ?thesis by simp
qed

lemma open_excl_or_retry_Ok:
  assumes "open_excl_or_retry tmp w = (Inr u, w')"
  shows "map_option f_bytes (w_files w' tmp) = Some [] \<and> only_touches {tmp} w w'"
proof (cases "open_excl tmp w")
  case (Pair r w1)
  have t: "only_touches {tmp} w w1" using Pair by (auto simp: open_excl_def dest: fs_touches(3))
  show ?thesis
  proof (cases r)
    case (Inr x)
    with Pair assms t show ?thesis
      by (auto simp: open_excl_or_retry_def open_excl_def fs_create_new_def io_def split: option.splits)
  next
    case (Inl e)
    with Pair assms have "e = IoAlreadyExists"
      by (auto simp: open_excl_or_retry_def split: io_error.splits)
    with Inl Pair assms have o: "fs_create_new tmp 0x1A4 (cleanup_temp tmp w1) = (Inr u, w')"
      by (simp add: open_excl_or_retry_def open_excl_def)
    have "only_touches {tmp} w (cleanup_temp tmp w1)"
      using t cleanup_temp_touches [of tmp w1] by (rule only_touches_trans)
    moreover have "only_touches {tmp} (cleanup_temp tmp w1) w'" using o by (rule fs_touches(3))
    ultimately show ?thesis using o
      by (auto simp: fs_create_new_def io_def split: option.splits intro: only_touches_trans)
  qed
qed

lemma open_excl_or_retry_touches: "open_excl_or_retry tmp w = (r, w') \<Longrightarrow> only_touches {tmp} w w'"
proof -
  assume a: "open_excl_or_retry tmp w = (r, w')"
  obtain r1 w1 where o: "open_excl tmp w = (r1, w1)" by fastforce
  then have t: "only_touches {tmp} w w1" by (auto simp: open_excl_def dest: fs_touches(3))
  obtain r2 w2 where o2: "open_excl tmp (cleanup_temp tmp w1) = (r2, w2)" by fastforce
  then have "only_touches {tmp} (cleanup_temp tmp w1) w2" by (auto simp: open_excl_def dest: fs_touches(3))
  then have "only_touches {tmp} w w2"
    using t cleanup_temp_touches [of tmp w1] by (blast intro: only_touches_trans)
  with a o o2 t show ?thesis
    by (auto simp: open_excl_or_retry_def split: sum.splits io_error.splits)
qed

text \<open>Up to the final rename, only the temporary file is touched.\<close>

lemma fragment_steps:
  assumes "visudo_only_checks visudo"
  shows "fs_write_all tmp s u = (r1, v) \<Longrightarrow> only_touches {tmp} u v"
    and "set_mode_0440 tmp u = (r2, v) \<Longrightarrow> only_touches {tmp} u v"
    and "run_visudo visudo tmp sb u = (r2, v) \<Longrightarrow> only_touches {tmp} u v"
    and "only_touches {tmp} u (cleanup_temp tmp u)"
proof -
  show "fs_write_all tmp s u = (r1, v) \<Longrightarrow> only_touches {tmp} u v" by (rule fs_touches(5))
  show "set_mode_0440 tmp u = (r2, v) \<Longrightarrow> only_touches {tmp} u v"
    by (auto simp: set_mode_0440_def comp_err_def split: prod.splits sum.splits dest!: fs_touches(8))
  show "run_visudo visudo tmp sb u = (r2, v) \<Longrightarrow> only_touches {tmp} u v"
    using run_visudo_touches [OF assms] by (blast intro: only_touches_mono)
  show "only_touches {tmp} u (cleanup_temp tmp u)" by (rule cleanup_temp_touches)
qed

lemma fragment_temp_neq: "fragment_temp dir f \<noteq> node_join dir f"
proof
  assume "fragment_temp dir f = node_join dir f"
  then have "length (''.'' @ f @ ''.tmp'') = length f" by (simp add: fragment_temp_def node_join_def)
  then show False by simp
qed

lemma rename_Err_same: "fs_rename a b w = (Inl e, w') \<Longrightarrow> w_files w' = w_files w"
  by (auto simp: fs_rename_def io_def split: option.splits if_splits)

lemma write_fragment_Err:
  assumes v: "visudo_only_checks visudo" and "write_fragment visudo dir f s sb w = (Inl e, w')"
  shows "w_files w' (node_join dir f) = w_files w (node_join dir f)"
proof -
  let ?tmp = "fragment_temp dir f" and ?d = "node_join dir f"
  have same: "w_files v ?d = w_files u ?d" if "only_touches {?tmp} u v" for u v :: "'a world"
    using that fragment_temp_neq [of dir f] by (metis only_touches_files singletonD)
  note st = fragment_steps [OF v, THEN same] open_excl_or_retry_touches [THEN same]
  from assms(2) show ?thesis
    by (auto simp: write_fragment_def Let_def seq_Err_iff comp_err_iff on_err_iff st(4)
        dest!: st(1,2,3,5) rename_Err_same)
qed

lemma write_fragment_Ok:
  assumes v: "visudo_only_checks visudo" and "write_fragment visudo dir f s sb w = (Inr u, w')"
  shows "\<exists>w3 w4 fl err. visudo (fragment_temp dir f) w3 = (Inr (True, err), w4)
     \<and> w_files w3 (fragment_temp dir f) = Some fl
     \<and> w_files w' (node_join dir f) = Some fl \<and> f_bytes fl = s \<and> f_mode fl = 0x120
     \<and> only_touches {fragment_temp dir f, node_join dir f} w w'"
proof -
  let ?tmp = "fragment_temp dir f" and ?d = "node_join dir f"
  from assms(2) obtain w1 w2 w3 w4 where
    o: "open_excl_or_retry ?tmp w = (Inr (), w1)" and wr: "fs_write_all ?tmp s w1 = (Inr (), w2)"
    and md: "set_mode_0440 ?tmp w2 = (Inr (), w3)" and vi: "run_visudo visudo ?tmp sb w3 = (Inr (), w4)"
    and rn: "fs_rename ?tmp ?d w4 = (Inr u, w')"
    by (auto simp: write_fragment_def Let_def seq_Ok_iff comp_err_iff on_err_iff)
  have b1: "map_option f_bytes (w_files w1 ?tmp) = Some []" using open_excl_or_retry_Ok [OF o] by blast
  have "map_option f_bytes (w_files w2 ?tmp) = Some s"
    using wr b1 by (auto simp: fs_write_all_def files_append_bytes split: option.splits)
  with md obtain fl where f3: "w_files w3 ?tmp = Some fl" "f_bytes fl = s" "f_mode fl = 0x120"
    by (auto simp: set_mode_0440_def comp_err_iff fs_chmod_def io_def split: option.splits)
  have t4: "only_touches {} w3 w4" using run_visudo_touches [OF v vi] .
  then have f4: "w_files w4 ?tmp = Some fl" using f3 by (simp add: only_touches_files)
  then have d: "w_files w' ?d = Some fl"
    using rn fragment_temp_neq [of dir f] by (auto simp: fs_rename_def io_def split: option.splits if_splits)
  obtain err where "visudo ?tmp w3 = (Inr (True, err), w4)"
    using vi by (auto simp: run_visudo_def split: prod.splits sum.splits if_splits)
  moreover have "only_touches {?tmp, ?d} w w'"
    using open_excl_or_retry_touches [OF o] fragment_steps(1) [OF v wr] fragment_steps(2) [OF v md]
      fragment_steps(3) [OF v vi] fs_rename_touches [OF rn]
    by (meson empty_subsetI insert_subset only_touches_step order_refl subset_insertI)
  ultimately show ?thesis using f3 d by blast
qed

subsection \<open>Properties\<close>

text \<open>
  a fragment never grants what was not asked.  However hostile the command strings, a
  sudoers reader splits the rendered list back into exactly the original commands, in order:
  no metacharacter separates, negates or comments out anything.
\<close>

theorem command_list_roundtrip:
  assumes "cmds \<noteq> []" and "list_all (\<lambda>c. c \<noteq> [] \<and> hd c \<noteq> CHR '' '') cmds"
  shows "read_cmnds True [] (join_with '', '' (map escape_sudoers_command cmds)) = cmds"
  using assms by (rule read_joined)

theorem command_list_roundtrip_witness:
  "read_cmnds True [] (join_with '', '' (map escape_sudoers_command [''/bin/a, !/bin/b'', ''/bin/c #x'']))
   = [''/bin/a, !/bin/b'', ''/bin/c #x'']"
  by (rule command_list_roundtrip) simp_all

text \<open>
  the run-spec is grouped by run-as account as the reference says: one group per account
  in order of first appearance, each with its own commands in their order.
\<close>

theorem runspec_groups_exact: "runspec_groups cmds = runspec_reference cmds"
  by (rule runspec_groups_reference)



text \<open>
  C19: a fragment becomes live only as checked.  If writing succeeds, the live file holds
  exactly the content, mode 0440, that \<^verbatim>\<open>visudo\<close> accepted in the temporary file; if it fails at any
  step, the live file is what it was.
\<close>

theorem write_fragment_activation:
  assumes "visudo_only_checks visudo"
  shows "case write_fragment visudo dir f content subject w of
      (Ok _, w') \<Rightarrow> \<exists>w3 w4 fl err. visudo (fragment_temp dir f) w3 = (Ok (True, err), w4)
         \<and> w_files w3 (fragment_temp dir f) = Some fl \<and> w_files w' (node_join dir f) = Some fl
         \<and> f_bytes fl = content \<and> f_mode fl = 0x120
    | (Err _, w') \<Rightarrow> w_files w' (node_join dir f) = w_files w (node_join dir f)"
proof (cases "write_fragment visudo dir f content subject w")
  case (Pair r w')
  show ?thesis
  proof (cases r)
    case (Inl e)
    with Pair write_fragment_Err [OF assms, of dir f content subject w e w'] show ?thesis by simp
  next
    case (Inr u)
    with Pair have "write_fragment visudo dir f content subject w = (Inr u, w')" by simp
    from write_fragment_Ok [OF assms this] Pair Inr show ?thesis by auto
  qed
qed

lemma accepting_run:
  "\<exists>w'. write_fragment (\<lambda>n w. (Ok (True, []), w)) (True, []) ''census-a'' ''a ALL=x'' ''a'' blank_world = (Ok (), w')"
  by (simp add: write_fragment_def Let_def seq_def comp_err_def on_err_def open_excl_or_retry_def open_excl_def
      fs_create_new_def fs_write_all_def append_bytes_def set_mode_0440_def fs_chmod_def run_visudo_def fs_rename_def
      io_def blank_world_def tick_def set_file_def fragment_temp_def)

theorem write_fragment_activation_witness:
  "\<exists>w' fl. write_fragment (\<lambda>n w. (Ok (True, []), w)) (True, []) ''census-a'' ''a ALL=x'' ''a'' blank_world = (Ok (), w')
     \<and> w_files w' (node_join (True, []) ''census-a'') = Some fl \<and> f_bytes fl = ''a ALL=x'' \<and> f_mode fl = 0x120"
proof -
  have v: "visudo_only_checks (\<lambda>n (w :: unit world). (Ok (True, []), w))" by (simp add: visudo_only_checks_def)
  obtain w' where "write_fragment (\<lambda>n w. (Ok (True, []), w)) (True, []) ''census-a'' ''a ALL=x'' ''a'' blank_world = (Ok (), w')"
    using accepting_run by blast
  with write_fragment_activation [OF v, where dir = "(True, [])" and f = "''census-a''" and content = "''a ALL=x''"
      and subject = "''a''" and w = blank_world]
  show ?thesis by auto
qed

text \<open>
  the alias of a sudo role is a legal alias token whatever the role string holds: the
  prefix \<^verbatim>\<open>CENSUS_\<close> and then only capitals, digits and underscores.
\<close>

theorem sudo_role_alias_legal:
  "list_all (\<lambda>c. is_ascii_uppercase c \<or> is_ascii_digit c \<or> c = CHR ''_'') (sudo_role_alias r)
   \<and> starts_with (sudo_role_alias r) ''CENSUS_''"
proof -
  have up: "is_ascii_uppercase (to_ascii_uppercase c) \<or> is_ascii_digit (to_ascii_uppercase c)"
    if "is_ascii_alphanumeric c" for c
  proof (cases "is_ascii_lowercase c")
    case True
    then have "byte c - 32 < 256" by (auto simp: is_ascii_lowercase_def)
    then have "byte (char_of (byte c - 32) :: char) = byte c - 32" by simp
    with True show ?thesis
      by (auto simp: to_ascii_uppercase_def is_ascii_uppercase_def is_ascii_lowercase_def)
  next
    case False
    with that show ?thesis by (auto simp: to_ascii_uppercase_def is_ascii_alphanumeric_def)
  qed
  have "list_all (\<lambda>c. is_ascii_uppercase c \<or> is_ascii_digit c \<or> c = CHR ''_'') ''CENSUS_''" by code_simp
  with up show ?thesis by (auto simp: sudo_role_alias_def list_all_iff starts_with_def)
qed

text \<open>
  fragment names.  Distinct roles own distinct fragment files and so do distinct groups,
  but the two families overlap: the valid role id \<^verbatim>\<open>grp-ops\<close> owns the very file the group
  \<^verbatim>\<open>ops\<close> owns.
\<close>

theorem fragment_names:
  "(sudoers_filename a = sudoers_filename b \<longleftrightarrow> a = b)
   \<and> (sudoers_group_filename a = sudoers_group_filename b \<longleftrightarrow> a = b)
   \<and> is_valid_role_id ''grp-ops'' \<and> is_valid_group_name ''ops''
   \<and> sudoers_filename ''grp-ops'' = sudoers_group_filename ''ops''"
proof -
  have "is_valid_role_id ''grp-ops''" "is_valid_group_name ''ops''" by code_simp+
  then show ?thesis by (simp add: sudoers_filename_def sudoers_group_filename_def)
qed

end
