(* ===== verification/FileAccess.thy ===== *)
theory FileAccess
  imports Fs
begin

text \<open>
  File-access enforcement (\<^verbatim>\<open>src/fileaccess.rs\<close>): principals and the \<^verbatim>\<open>setfacl\<close> and
  \<^verbatim>\<open>getfacl\<close> argument vectors, the resolution of a grant path to a target no symbolic link
  can redirect, the ACL backend over a command runner, and the routing of grants to backends by
  capability.  The processes are a parameter: what running a program with arguments returns and
  does to the world.  The directory tree, with its symbolic links, is a view of the world that
  the path resolution of the operating system is defined over.
\<close>

subsection \<open>Principals, capabilities and errors\<close>

datatype principal = PUser string | PGroup string | PUid u32 | PGid u32

fun acl_prefix :: "principal \<Rightarrow> string" where
  "acl_prefix (PUser _) = ''u''"
| "acl_prefix (PUid _) = ''u''"
| "acl_prefix (PGroup _) = ''g''"
| "acl_prefix (PGid _) = ''g''"

fun qualifier :: "principal \<Rightarrow> string" where
  "qualifier (PUser n) = n"
| "qualifier (PGroup n) = n"
| "qualifier (PUid i) = show_u32 i"
| "qualifier (PGid i) = show_u32 i"

record capabilities =
  cap_dir :: bool
  cap_per_path :: bool
  cap_pattern :: bool
  cap_realtime :: bool
  cap_rewrite_proof :: bool

datatype command_error =
  CmdSpawn string io_error
| CmdNonZero string string string

datatype unresolvable_reason =
  UnresolvableParent node io_error
| UnresolvablePath io_error
| UnresolvableLeaf node io_error

datatype file_access_error =
  Unsupported path shape string
| Setfacl path command_error
| FaIo node io_error
| SymlinkTarget path
| Unresolvable path unresolvable_reason

subsection \<open>Argument vectors\<close>

definition acl_perm :: "access \<Rightarrow> string" where
  "acl_perm a =
     [if contains a READ then CHR ''r'' else CHR ''-'',
      if contains a WRITE then CHR ''w'' else CHR ''-'',
      if contains a EXECUTE then CHR ''x'' else if contains a TRAVERSE then CHR ''X'' else CHR ''-'']"

definition setfacl_args :: "principal \<Rightarrow> resolved_file_grant \<Rightarrow> string list list" where
  "setfacl_args pr g =
     (let entry = acl_prefix pr @ '':'' @ qualifier pr @ '':'' @ acl_perm (rfg_access g) in
      [[''-R'', ''--physical'', ''-m'', entry, rfg_path g],
       [''-d'', ''-R'', ''--physical'', ''-m'', entry, rfg_path g]])"

definition revoke_args :: "principal \<Rightarrow> resolved_file_grant \<Rightarrow> string list list" where
  "revoke_args pr g =
     (let entry = acl_prefix pr @ '':'' @ qualifier pr in
      [[''-R'', ''--physical'', ''-x'', entry, rfg_path g],
       [''-d'', ''-R'', ''--physical'', ''-x'', entry, rfg_path g]])"

definition getfacl_args :: "path \<Rightarrow> string list" where
  "getfacl_args p = [''--absolute-names'', ''-R'', ''--physical'', p]"

definition restore_args :: "node \<Rightarrow> string list" where
  "restore_args n = [''--restore='' @ node_display n]"

subsection \<open>Path resolution\<close>

text \<open>
  The directory tree as \<^verbatim>\<open>lstat\<close> sees it: an entry per absolute component list, the
  current directory, and the paths whose \<^verbatim>\<open>lstat\<close> fails for another reason.
\<close>

datatype dentry = DDir | DFile | DLink path

record dir_tree =
  dt_at :: "string list \<Rightarrow> dentry option"
  dt_cwd :: "string list"
  dt_fault :: "string list \<Rightarrow> string option"

definition dir_at :: "dir_tree \<Rightarrow> string list \<Rightarrow> bool" where
  "dir_at t p \<longleftrightarrow> p = [] \<or> dt_at t p = Some DDir"

definition lstat :: "dir_tree \<Rightarrow> string list \<Rightarrow> io_error + dentry" where
  "lstat t p =
     (case dt_fault t p of
        Some e \<Rightarrow> Err (IoOs e)
      | None \<Rightarrow>
          if p = [] then Ok DDir
          else if \<not> dir_at t (butlast p)
            then (if dt_at t (butlast p) = None then Err IoNotFound else Err (IoOs ''ENOTDIR''))
          else (case dt_at t p of None \<Rightarrow> Err IoNotFound | Some d \<Rightarrow> Ok d))"

text \<open>
  \<^verbatim>\<open>realpath\<close>: the components are walked from a resolved directory; a link's target is
  walked in its place, at most as often as the link budget allows.
\<close>

fun canon :: "dir_tree \<Rightarrow> nat \<Rightarrow> string list \<Rightarrow> string list \<Rightarrow> io_error + string list" where
  "canon t n done [] = Ok done"
| "canon t n done (c # cs) =
     (if c = [] \<or> c = ''.'' then canon t n done cs
      else if c = ''..'' then canon t n (butlast done) cs
      else case lstat t (done @ [c]) of
          Err e \<Rightarrow> Err e
        | Ok DDir \<Rightarrow> canon t n (done @ [c]) cs
        | Ok DFile \<Rightarrow> if cs = [] then Ok (done @ [c]) else Err (IoOs ''ENOTDIR'')
        | Ok (DLink tgt) \<Rightarrow>
            (case n of
               0 \<Rightarrow> Err (IoOs ''ELOOP'')
             | Suc m \<Rightarrow> canon t m (if starts_with tgt ''/'' then [] else done) (split_on (CHR ''/'') tgt @ cs)))"

definition MAX_LINKS :: nat where "MAX_LINKS = 40"

definition fs_canonicalize :: "dir_tree \<Rightarrow> node \<Rightarrow> io_error + string list" where
  "fs_canonicalize t n =
     (if n = (False, []) then Err IoNotFound
      else canon t MAX_LINKS (if fst n then [] else dt_cwd t) (snd n))"

text \<open>\<open>Path::file_name\<close> and \<open>Path::parent\<close> on the components.\<close>

definition file_name :: "node \<Rightarrow> string option" where
  "file_name n =
     (if snd n = [] \<or> last (snd n) = ''..'' \<or> last (snd n) = ''.'' then None else Some (last (snd n)))"

definition path_parent :: "node \<Rightarrow> node option" where
  "path_parent n = (if snd n = [] then None else Some (node_parent n))"

definition resolve_target :: "dir_tree \<Rightarrow> path \<Rightarrow> file_access_error + string list" where
  "resolve_target t p =
     (case (path_parent (node_of p), file_name (node_of p)) of
        (Some parent, Some leaf) \<Rightarrow>
          (let parent_dir = if parent = (False, []) then (False, [''.'']) else parent in
           try_bind (map_err (\<lambda>e. Unresolvable p (UnresolvableParent parent_dir e)) (fs_canonicalize t parent_dir))
             (\<lambda>canonical_parent. Ok (canonical_parent @ [leaf])))
      | _ \<Rightarrow> map_err (\<lambda>e. Unresolvable p (UnresolvablePath e)) (fs_canonicalize t (node_of p)))"

definition resolve_grant_path :: "dir_tree \<Rightarrow> path \<Rightarrow> file_access_error + path" where
  "resolve_grant_path t p =
     try_bind (resolve_target t p) (\<lambda>resolved.
       case lstat t resolved of
         Ok (DLink _) \<Rightarrow> Err (SymlinkTarget (node_display (True, resolved)))
       | Ok _ \<Rightarrow> Ok (node_display (True, resolved))
       | Err IoNotFound \<Rightarrow> Ok (node_display (True, resolved))
       | Err e \<Rightarrow> Err (Unresolvable p (UnresolvableLeaf (True, resolved) e)))"

subsection \<open>Running programs\<close>

text \<open>
  What a finished process leaves: whether its status is success, the status as text, its
  output and its error text; or the error of spawning it.
\<close>

record proc_output =
  po_success :: bool
  po_status :: string
  po_stdout :: string
  po_stderr :: string

type_synonym 'w exec = "string \<Rightarrow> string list \<Rightarrow> ('w, io_error, proc_output) comp"
type_synonym 'w runner = "string \<Rightarrow> string list \<Rightarrow> ('w, command_error, string) comp"

definition process_run :: "'w exec \<Rightarrow> 'w runner" where
  "process_run exec binary args =
     seq (comp_err (CmdSpawn binary) (exec binary args)) (\<lambda>out.
       if po_success out then pure_ok (po_stdout out)
       else fail (CmdNonZero binary (po_status out) (trim (po_stderr out))))"

subsection \<open>The ACL backend\<close>

record acl_backend =
  ab_setfacl_bin :: string
  ab_getfacl_bin :: string
  ab_rollback_dir :: node
  ab_last_snapshot :: "node option"

definition acl_new :: "string \<Rightarrow> string \<Rightarrow> node \<Rightarrow> acl_backend" where
  "acl_new setfacl_bin getfacl_bin rollback_dir =
     \<lparr>ab_setfacl_bin = setfacl_bin, ab_getfacl_bin = getfacl_bin, ab_rollback_dir = rollback_dir,
      ab_last_snapshot = None\<rparr>"

definition acl_production :: "node \<Rightarrow> acl_backend" where
  "acl_production rollback_dir = acl_new ''setfacl'' ''getfacl'' rollback_dir"

definition acl_capabilities :: capabilities where
  "acl_capabilities =
     \<lparr>cap_dir = True, cap_per_path = False, cap_pattern = False, cap_realtime = False, cap_rewrite_proof = True\<rparr>"

text \<open>The environment of the backend: its command runner, and the directory tree of a world.\<close>

record 'x acl_env =
  ae_run :: "'x world runner"
  ae_tree :: "'x world \<Rightarrow> dir_tree"

definition resolve_in :: "'x acl_env \<Rightarrow> path \<Rightarrow> ('x world, file_access_error, path) comp" where
  "resolve_in env p w = (resolve_grant_path (ae_tree env w) p, w)"

definition run_passes ::
    "'x acl_env \<Rightarrow> acl_backend \<Rightarrow> path \<Rightarrow> string list list \<Rightarrow> ('x world, file_access_error, unit) comp" where
  "run_passes env b declared argss =
     for_each (\<lambda>args _. seq (comp_err (Setfacl declared) (ae_run env (ab_setfacl_bin b) args)) (\<lambda>_. pure_ok ()))
       argss ()"

definition materialize_one ::
    "'x acl_env \<Rightarrow> acl_backend \<Rightarrow> principal \<Rightarrow> resolved_file_grant \<Rightarrow> ('x world, file_access_error, unit) comp" where
  "materialize_one env b pr g =
     (if rfg_shape g \<noteq> Dir
        then fail (Unsupported (rfg_path g) (rfg_shape g) ''AclBackend enforces directory grants only'')
      else seq (resolve_in env (rfg_path g)) (\<lambda>target_path.
             run_passes env b (rfg_path g) (setfacl_args pr (g\<lparr>rfg_path := target_path\<rparr>))))"

definition acl_materialize ::
    "'x acl_env \<Rightarrow> acl_backend \<Rightarrow> principal \<Rightarrow> resolved_file_grant list \<Rightarrow> ('x world, file_access_error, unit) comp" where
  "acl_materialize env b pr grants = for_each (\<lambda>g _. materialize_one env b pr g) grants ()"

definition acl_revoke ::
    "'x acl_env \<Rightarrow> acl_backend \<Rightarrow> principal \<Rightarrow> resolved_file_grant \<Rightarrow> ('x world, file_access_error, unit) comp" where
  "acl_revoke env b pr g =
     seq (resolve_in env (rfg_path g)) (\<lambda>target_path.
       run_passes env b (rfg_path g) (revoke_args pr (g\<lparr>rfg_path := target_path\<rparr>)))"

definition dump_one ::
    "'x acl_env \<Rightarrow> acl_backend \<Rightarrow> path \<Rightarrow> string \<Rightarrow> ('x world, file_access_error, string) comp" where
  "dump_one env b p dump =
     seq (resolve_in env p) (\<lambda>target_path.
     seq (comp_err (Setfacl p) (ae_run env (ab_getfacl_bin b) (getfacl_args target_path))) (\<lambda>out.
     pure_ok (dump @ out)))"

text \<open>\<open>fs::write\<close>: created with the default mode under a 022 umask, then filled.\<close>

definition fs_write :: "node \<Rightarrow> string \<Rightarrow> ('x world, io_error, unit) comp" where
  "fs_write n s = seq (fs_open_truncate n 0x1A4) (\<lambda>_. fs_write_all n s)"

definition acl_snapshot_file :: "acl_backend \<Rightarrow> node" where
  "acl_snapshot_file b = node_join (ab_rollback_dir b) ''file-access-acl.snapshot''"

definition acl_snapshot ::
    "'x acl_env \<Rightarrow> acl_backend \<Rightarrow> path list \<Rightarrow> ('x world, file_access_error, acl_backend) comp" where
  "acl_snapshot env b paths =
     seq (for_each (dump_one env b) paths []) (\<lambda>dump.
     seq (comp_err (FaIo (ab_rollback_dir b)) (fs_create_dir (ab_rollback_dir b))) (\<lambda>_.
     seq (comp_err (FaIo (acl_snapshot_file b)) (fs_write (acl_snapshot_file b) dump)) (\<lambda>_.
     pure_ok (b\<lparr>ab_last_snapshot := Some (acl_snapshot_file b)\<rparr>))))"

definition acl_restore :: "'x acl_env \<Rightarrow> acl_backend \<Rightarrow> ('x world, file_access_error, unit) comp" where
  "acl_restore env b =
     (case ab_last_snapshot b of
        None \<Rightarrow> pure_ok ()
      | Some n \<Rightarrow> seq (comp_err (Setfacl (node_display n)) (ae_run env (ab_setfacl_bin b) (restore_args n)))
                  (\<lambda>_. pure_ok ()))"

subsection \<open>Routing\<close>

definition shape_requires :: "shape \<Rightarrow> capabilities \<Rightarrow> bool" where
  "shape_requires s caps =
     (case s of Dir \<Rightarrow> cap_dir caps | File \<Rightarrow> cap_per_path caps | Pattern \<Rightarrow> cap_pattern caps)"

definition unsupported_suggestion :: "shape \<Rightarrow> string" where
  "unsupported_suggestion s =
     (case s of
        File \<Rightarrow> ''no backend provides per-file enforcement; widen the grant to its containing directory (which the open ACL backend enforces rewrite-proof), or install a per-file-capable backend''
      | Pattern \<Rightarrow> ''no backend provides pattern enforcement; install a pattern-capable backend (watcher / MAC labels), or replace the glob with a directory grant''
      | Dir \<Rightarrow> ''no backend provides directory enforcement; install the ACL backend'')"

fun choose_backend :: "nat \<Rightarrow> shape \<Rightarrow> capabilities list \<Rightarrow> nat option" where
  "choose_backend i s [] = None"
| "choose_backend i s (c # cs) = (if shape_requires s c then Some i else choose_backend (Suc i) s cs)"

fun route_grants ::
    "resolved_file_grant list \<Rightarrow> capabilities list \<Rightarrow>
     file_access_error + (nat \<times> resolved_file_grant) list" where
  "route_grants [] caps = Ok []"
| "route_grants (g # gs) caps =
     (case choose_backend 0 (rfg_shape g) caps of
        None \<Rightarrow> Err (Unsupported (rfg_path g) (rfg_shape g) (unsupported_suggestion (rfg_shape g)))
      | Some i \<Rightarrow> try_bind (route_grants gs caps) (\<lambda>routed. Ok ((i, g) # routed)))"

subsection \<open>Routing, exactly\<close>

definition covers :: "capabilities list \<Rightarrow> nat \<times> resolved_file_grant \<Rightarrow> bool" where
  "covers caps ig \<longleftrightarrow>
     fst ig < length caps \<and> shape_requires (rfg_shape (snd ig)) (caps ! fst ig)
     \<and> list_all (\<lambda>c. \<not> shape_requires (rfg_shape (snd ig)) c) (take (fst ig) caps)"

definition coverable :: "capabilities list \<Rightarrow> resolved_file_grant \<Rightarrow> bool" where
  "coverable caps g \<longleftrightarrow> list_ex (shape_requires (rfg_shape g)) caps"

lemma choose_backend_Some_iff:
  "choose_backend i s cs = Some k \<longleftrightarrow>
     (\<exists>j. k = i + j \<and> j < length cs \<and> shape_requires s (cs ! j)
        \<and> list_all (\<lambda>c. \<not> shape_requires s c) (take j cs))"
proof (induction cs arbitrary: i)
  case Nil
  then show ?case by simp
next
  case (Cons c cs)
  have split: "(\<exists>j. P j) \<longleftrightarrow> P 0 \<or> (\<exists>j. P (Suc j))" for P :: "nat \<Rightarrow> bool"
    by (metis not0_implies_Suc)
  show ?case by (subst split) (auto simp: Cons.IH)
qed

lemma choose_backend_None_iff: "choose_backend i s cs = None \<longleftrightarrow> \<not> list_ex (shape_requires s) cs"
  by (induction i s cs rule: choose_backend.induct) auto

lemma choose_covers: "choose_backend 0 (rfg_shape g) caps = Some i \<longleftrightarrow> covers caps (i, g)"
  by (simp add: choose_backend_Some_iff covers_def)

lemma choose_uncovered: "choose_backend 0 (rfg_shape g) caps = None \<longleftrightarrow> \<not> coverable caps g"
  by (simp add: choose_backend_None_iff coverable_def)

lemma covers_coverable: "covers caps (i, g) \<Longrightarrow> coverable caps g"
  using choose_covers [of g caps i] choose_uncovered [of g caps] by auto

lemma route_grants_Ok_iff:
  "route_grants gs caps = Ok rs \<longleftrightarrow> map snd rs = gs \<and> list_all (covers caps) rs"
proof (induction gs arbitrary: rs)
  case Nil
  then show ?case by auto
next
  case (Cons g gs)
  have "route_grants (g # gs) caps = Ok rs \<longleftrightarrow>
      (\<exists>i rs'. rs = (i, g) # rs' \<and> covers caps (i, g) \<and> route_grants gs caps = Ok rs')"
    by (simp only: choose_covers [symmetric]) (auto simp: try_bind_Ok_iff split: option.splits)
  then show ?case by (cases rs) (auto simp: Cons.IH)
qed

lemma route_grants_Err_iff:
  "route_grants gs caps = Err e \<longleftrightarrow>
     (\<exists>g. find (\<lambda>g. \<not> coverable caps g) gs = Some g
        \<and> e = Unsupported (rfg_path g) (rfg_shape g) (unsupported_suggestion (rfg_shape g)))"
  by (induction gs) (auto simp: choose_uncovered [symmetric] try_bind_Err_iff split: option.splits)

lemma route_acl_iff:
  "(\<exists>rs. route_grants gs [acl_capabilities] = Ok rs) \<longleftrightarrow> list_all (\<lambda>g. rfg_shape g = Dir) gs"
proof (induction gs)
  case Nil
  then show ?case by simp
next
  case (Cons g gs)
  then show ?case
    by (cases "rfg_shape g") (auto simp: shape_requires_def acl_capabilities_def try_bind_Ok_iff)
qed

text \<open>
  routing is exact and fails closed.  It succeeds iff every grant is covered, and then
  sends each, in order, to the first backend whose capabilities cover its shape; otherwise it
  names the first grant no backend covers.  With the open ACL backend alone it succeeds iff
  every grant is a directory grant.
\<close>

theorem route_grants_exact:
  "(route_grants gs caps = Ok rs \<longleftrightarrow> map snd rs = gs \<and> list_all (covers caps) rs)
   \<and> (route_grants gs caps = Err e \<longleftrightarrow>
        (\<exists>g. find (\<lambda>g. \<not> coverable caps g) gs = Some g
           \<and> e = Unsupported (rfg_path g) (rfg_shape g) (unsupported_suggestion (rfg_shape g))))
   \<and> ((\<exists>rs. route_grants gs [acl_capabilities] = Ok rs) \<longleftrightarrow> list_all (\<lambda>g. rfg_shape g = Dir) gs)"
  by (intro conjI route_grants_Ok_iff route_grants_Err_iff route_acl_iff)

subsection \<open>Targets no link can redirect\<close>

definition plain_component :: "string \<Rightarrow> bool" where
  "plain_component c \<longleftrightarrow> c \<noteq> [] \<and> c \<noteq> ''.'' \<and> c \<noteq> ''..'' \<and> CHR ''/'' \<notin> set c"

text \<open>A real directory: every component list down to it is a directory, not a link.\<close>

definition real_dir :: "dir_tree \<Rightarrow> string list \<Rightarrow> bool" where
  "real_dir t p \<longleftrightarrow> list_all (\<lambda>k. dir_at t (take k p)) [0..<Suc (length p)] \<and> list_all plain_component p"

definition not_a_link :: "dir_tree \<Rightarrow> string list \<Rightarrow> bool" where
  "not_a_link t p \<longleftrightarrow> (case dt_at t p of Some (DLink _) \<Rightarrow> p = [] | _ \<Rightarrow> True)"

lemma real_dir_Nil [simp]: "real_dir t []"
  by (simp add: real_dir_def dir_at_def)

lemma real_dir_snoc: "real_dir t (p @ [c]) \<longleftrightarrow> real_dir t p \<and> dir_at t (p @ [c]) \<and> plain_component c"
  by (auto simp: real_dir_def list_all_iff less_Suc_eq_le le_Suc_eq)


lemma real_dir_not_link: "real_dir t p \<Longrightarrow> not_a_link t p"
  by (cases p rule: rev_cases) (auto simp: real_dir_snoc dir_at_def not_a_link_def split: option.splits dentry.splits)



















definition sample_tree :: dir_tree where
  "sample_tree = \<lparr>dt_at = (\<lambda>p. if p = [''home''] then Some (DLink ''export/home'')
       else if p = [''export''] \<or> p = [''export'', ''home''] \<or> p = [''export'', ''home'', ''ops''] then Some DDir
       else if p = [''export'', ''home'', ''evil''] then Some (DLink ''/etc'') else None),
     dt_cwd = [], dt_fault = (\<lambda>_. None)\<rparr>"


subsection \<open>Only the principal's own entry\<close>

text \<open>
  The arguments of a \<^verbatim>\<open>setfacl\<close> call that changes one principal's entry, for a target that the
  directory tree resolves some grant to.
\<close>

definition entry_of :: "principal \<Rightarrow> string" where
  "entry_of pr = acl_prefix pr @ '':'' @ qualifier pr"

definition entry_flags :: "string \<Rightarrow> string list list" where
  "entry_flags op = [[''-R'', ''--physical'', op], [''-d'', ''-R'', ''--physical'', op]]"

definition sets_entry :: "principal \<Rightarrow> dir_tree \<Rightarrow> resolved_file_grant \<Rightarrow> string list \<Rightarrow> bool" where
  "sets_entry pr t g args \<longleftrightarrow> rfg_shape g = Dir \<and>
     (\<exists>fl q. fl \<in> set (entry_flags ''-m'') \<and> resolve_grant_path t (rfg_path g) = Ok q
        \<and> args = fl @ [entry_of pr @ '':'' @ acl_perm (rfg_access g), q])"

definition drops_entry :: "principal \<Rightarrow> dir_tree \<Rightarrow> resolved_file_grant \<Rightarrow> string list \<Rightarrow> bool" where
  "drops_entry pr t g args \<longleftrightarrow>
     (\<exists>fl q. fl \<in> set (entry_flags ''-x'') \<and> resolve_grant_path t (rfg_path g) = Ok q
        \<and> args = fl @ [entry_of pr, q])"

text \<open>\<^verbatim>\<open>setfacl\<close> changes access entries and not the tree.\<close>

definition keeps_tree :: "'x acl_env \<Rightarrow> bool" where
  "keeps_tree env \<longleftrightarrow> (\<forall>bin args w. ae_tree env (snd (ae_run env bin args w)) = ae_tree env w)"

text \<open>What holds of the world before a call and is kept by each command of it holds after.\<close>

definition kept_by :: "('x world \<Rightarrow> bool) \<Rightarrow> 'x acl_env \<Rightarrow> string \<Rightarrow> (string list \<Rightarrow> bool) \<Rightarrow> bool" where
  "kept_by I env bin ok \<longleftrightarrow> (\<forall>args w. ok args \<longrightarrow> I w \<longrightarrow> I (snd (ae_run env bin args w)))"

lemma run_passes_kept:
  assumes tree: "keeps_tree env" and kept: "kept_by I env (ab_setfacl_bin b) ok" and "list_all ok argss"
    and "I w" and "run_passes env b d argss w = (r, w')"
  shows "I w' \<and> ae_tree env w' = ae_tree env w"
  using assms(3-5) unfolding run_passes_def
proof (induction argss arbitrary: w)
  case Nil
  then show ?case by simp
next
  case (Cons args argss)
  obtain x w1 where run: "ae_run env (ab_setfacl_bin b) args w = (x, w1)" by fastforce
  have i: "I w1"
    using kept [unfolded kept_by_def, rule_format, of args w] Cons.prems(1,2) run by simp
  have t: "ae_tree env w1 = ae_tree env w"
    using tree [unfolded keeps_tree_def, rule_format, of "ab_setfacl_bin b" args w] run by simp
  show ?case
  proof (cases x)
    case (Inl e)
    then show ?thesis using i t run Cons.prems(3) by (simp add: seq_def comp_err_def)
  next
    case (Inr y)
    then show ?thesis using Cons.IH [of w1] i t run Cons.prems(1,3) by (simp add: seq_def comp_err_def pure_ok_def)
  qed
qed

lemma setfacl_args_entry:
  "resolve_grant_path t (rfg_path g) = Ok q \<Longrightarrow> rfg_shape g = Dir \<Longrightarrow>
     list_all (sets_entry pr t g) (setfacl_args pr (g\<lparr>rfg_path := q\<rparr>))"
  by (auto simp: setfacl_args_def Let_def sets_entry_def entry_of_def entry_flags_def)

lemma revoke_args_entry:
  "resolve_grant_path t (rfg_path g) = Ok q \<Longrightarrow> list_all (drops_entry pr t g) (revoke_args pr (g\<lparr>rfg_path := q\<rparr>))"
  by (auto simp: revoke_args_def Let_def drops_entry_def entry_of_def entry_flags_def)

lemma materialize_one_kept:
  assumes "keeps_tree env" and "kept_by I env (ab_setfacl_bin b) (sets_entry pr (ae_tree env w) g)" and "I w"
    and "materialize_one env b pr g w = (r, w')"
  shows "I w' \<and> ae_tree env w' = ae_tree env w"
proof (cases "rfg_shape g = Dir \<and> (\<exists>q. resolve_grant_path (ae_tree env w) (rfg_path g) = Ok q)")
  case True
  then obtain q where q: "rfg_shape g = Dir" "resolve_grant_path (ae_tree env w) (rfg_path g) = Ok q" by blast
  then have "run_passes env b (rfg_path g) (setfacl_args pr (g\<lparr>rfg_path := q\<rparr>)) w = (r, w')"
    using assms(4) by (simp add: materialize_one_def seq_def resolve_in_def)
  from run_passes_kept [OF assms(1,2) setfacl_args_entry [OF q(2,1)] assms(3) this] show ?thesis .
next
  case False
  then show ?thesis
    using assms(3,4)
    by (auto simp: materialize_one_def fail_def seq_def resolve_in_def split: if_splits sum.splits)
qed

lemma acl_materialize_kept:
  assumes "keeps_tree env" and "I w"
    and "kept_by I env (ab_setfacl_bin b) (\<lambda>args. list_ex (\<lambda>g. sets_entry pr (ae_tree env w) g args) gs)"
    and "acl_materialize env b pr gs w = (r, w')"
  shows "I w'"
  using assms(2-4) unfolding acl_materialize_def
proof (induction gs arbitrary: w)
  case Nil
  then show ?case by simp
next
  case (Cons g gs)
  obtain x w1 where one: "materialize_one env b pr g w = (x, w1)" by fastforce
  have "kept_by I env (ab_setfacl_bin b) (sets_entry pr (ae_tree env w) g)"
    using Cons.prems(2) by (simp add: kept_by_def)
  from materialize_one_kept [OF assms(1) this Cons.prems(1) one]
  have k: "I w1" "ae_tree env w1 = ae_tree env w" by simp_all
  have rest: "kept_by I env (ab_setfacl_bin b) (\<lambda>args. list_ex (\<lambda>g. sets_entry pr (ae_tree env w1) g args) gs)"
    using Cons.prems(2) k(2) by (simp add: kept_by_def)
  show ?case
    using Cons.IH [OF k(1) rest] k(1) one Cons.prems(3) by (cases x) (simp_all add: seq_def)
qed

lemma acl_revoke_kept:
  assumes "keeps_tree env" and "I w"
    and "kept_by I env (ab_setfacl_bin b) (drops_entry pr (ae_tree env w) g)"
    and "acl_revoke env b pr g w = (r, w')"
  shows "I w'"
proof (cases "resolve_grant_path (ae_tree env w) (rfg_path g)")
  case (Inl e)
  then show ?thesis using assms(2,4) by (simp add: acl_revoke_def seq_def resolve_in_def)
next
  case (Inr q)
  then have "run_passes env b (rfg_path g) (revoke_args pr (g\<lparr>rfg_path := q\<rparr>)) w = (r, w')"
    using assms(4) by (simp add: acl_revoke_def seq_def resolve_in_def)
  from run_passes_kept [OF assms(1,3) revoke_args_entry [OF Inr] assms(2) this] show ?thesis by simp
qed

text \<open>
  C26: materializing and revoking touch nothing but the principal's own access entry.
  Whatever holds before, and is kept by each \<^verbatim>\<open>setfacl\<close> call that sets (respectively drops)
  this principal's own entry, with the permissions of a directory grant, on the safe target
  that grant resolves to, still holds after the whole operation, whether it succeeds or fails.
\<close>

theorem acl_touches_only_principal:
  assumes "keeps_tree env" and "I w"
    and "kept_by I env (ab_setfacl_bin b)
           (\<lambda>args. list_ex (\<lambda>g. sets_entry pr (ae_tree env w) g args) gs \<or> drops_entry pr (ae_tree env w) h args)"
  shows "I (snd (acl_materialize env b pr gs w)) \<and> I (snd (acl_revoke env b pr h w))"
proof
  have k: "kept_by I env (ab_setfacl_bin b) (\<lambda>args. list_ex (\<lambda>g. sets_entry pr (ae_tree env w) g args) gs)"
    "kept_by I env (ab_setfacl_bin b) (drops_entry pr (ae_tree env w) h)"
    using assms(3) by (simp_all add: kept_by_def)
  show "I (snd (acl_materialize env b pr gs w))"
    by (rule acl_materialize_kept [where I = I, OF assms(1,2) k(1)]) (rule prod.collapse [symmetric])
  show "I (snd (acl_revoke env b pr h w))"
    by (rule acl_revoke_kept [where I = I, OF assms(1,2) k(2)]) (rule prod.collapse [symmetric])
qed

text \<open>A runner that notes in the world's outside state a call on another principal's entry.\<close>

definition noting_world :: "bool world" where
  "noting_world = \<lparr>w_files = (\<lambda>_. None), w_clock = 0, w_fault = (\<lambda>_. None), w_stat_fault = (\<lambda>_. False),
     w_short = (\<lambda>_. None), w_time = (\<lambda>_. None), w_pid = 7, w_counter = 0, w_ext = False\<rparr>"

definition noting_env :: "bool acl_env" where
  "noting_env = \<lparr>ae_run = (\<lambda>_ args w. (Ok [], w\<lparr>w_ext := w_ext w \<or> last (butlast args) \<noteq> ''g:ops''\<rparr>)),
     ae_tree = (\<lambda>_. sample_tree)\<rparr>"

definition sample_dir_grant :: resolved_file_grant where
  "sample_dir_grant = \<lparr>rfg_path = ''/home/ops'', rfg_access = RO, rfg_recursive = True, rfg_shape = Dir, rfg_sources = []\<rparr>"

theorem acl_touches_only_principal_witness:
  "fst (acl_revoke noting_env (acl_production (True, [''r''])) (PGroup ''ops'') sample_dir_grant noting_world) = Ok ()
   \<and> \<not> w_ext (snd (acl_revoke noting_env (acl_production (True, [''r''])) (PGroup ''ops'') sample_dir_grant noting_world))"
proof
  show "fst (acl_revoke noting_env (acl_production (True, [''r''])) (PGroup ''ops'') sample_dir_grant noting_world) = Ok ()"
    by code_simp
next
  have "keeps_tree noting_env" by (simp add: keeps_tree_def noting_env_def)
  moreover have "\<not> w_ext noting_world" by (simp add: noting_world_def)
  moreover have "kept_by (\<lambda>w. \<not> w_ext w) noting_env (ab_setfacl_bin (acl_production (True, [''r''])))
      (\<lambda>args. list_ex (\<lambda>g. sets_entry (PGroup ''ops'') (ae_tree noting_env noting_world) g args) []
         \<or> drops_entry (PGroup ''ops'') (ae_tree noting_env noting_world) sample_dir_grant args)"
    by (auto simp: kept_by_def drops_entry_def noting_env_def entry_of_def butlast_append)
  ultimately show "\<not> w_ext (snd (acl_revoke noting_env (acl_production (True, [''r''])) (PGroup ''ops'') sample_dir_grant noting_world))"
    by (rule acl_touches_only_principal [THEN conjunct2])
qed

end
