(* ===== verification/Plan.thy ===== *)
theory Plan
  imports Declaration
begin

text \<open>
  \<^verbatim>\<open>src/plan.rs\<close>: the three diffs.  \<open>diff\<close> compares the resolved accounts with the managed
  registry, \<open>diff_groups\<close> decides which groups exist (from the required set, the registry and
  live facts, refusing every renumbering), \<open>diff_resolved_groups\<close> reconciles the grants of the
  declared groups.  A human-readable change line is the constructor of its format string with
  the values the string shows.
\<close>

subsection \<open>Plans\<close>

datatype change =
  UidChange u32 u32
| ShellChange string string
| GroupsChange "string list" "string list"
| SudoRoleChange "string option" "string option"
| SudoCommandsChange "sudo_command list" "sudo_command list"
| FileGrantsChange "(path \<times> access \<times> bool) list" "(path \<times> access \<times> bool) list"
| MembersChange "string list" "string list"

datatype action =
  ActCreate resolved_account
| ActUpdate resolved_account "change list"
| ActDelete string

fun is_destructive :: "action \<Rightarrow> bool" where
  "is_destructive (ActDelete _) = True"
| "is_destructive _ = False"

datatype group_action =
  GrpCreate string "u32 option"
| GrpAdopt string
| GrpRelease string
| GrpUpdate string "change list"
| GrpDelete string

fun group_is_destructive :: "group_action \<Rightarrow> bool" where
  "group_is_destructive (GrpDelete _) = True"
| "group_is_destructive _ = False"

datatype group_plan_error =
  GidPinConflict string u32 string
| PinnedGidMismatch string u32 u32
| ManagedGidDrift string u32 u32

record plan =
  pl_actions :: "action list"
  pl_group_actions :: "group_action list"

definition plan_is_empty :: "plan \<Rightarrow> bool" where
  "plan_is_empty p \<longleftrightarrow> pl_actions p = [] \<and> pl_group_actions p = []"

subsection \<open>Order-insensitive comparisons\<close>

definition grant_key :: "path \<Rightarrow> access \<Rightarrow> bool \<Rightarrow> path \<times> access \<times> bool" where
  "grant_key p a r = (p, a, r)"

definition managed_key :: "managed_file_grant \<Rightarrow> path \<times> access \<times> bool" where
  "managed_key g = grant_key (mfg_path g) (mfg_access g) (mfg_recursive g)"

definition resolved_key :: "resolved_file_grant \<Rightarrow> path \<times> access \<times> bool" where
  "resolved_key g = grant_key (rfg_path g) (rfg_access g) (rfg_recursive g)"

definition file_grants_set_equal :: "managed_file_grant list \<Rightarrow> resolved_file_grant list \<Rightarrow> bool" where
  "file_grants_set_equal managed target = sorted_equal (map managed_key managed) (map resolved_key target)"

definition str_set_equal :: "string list \<Rightarrow> string list \<Rightarrow> bool" where
  "str_set_equal a b = sorted_equal a b"

definition sudo_key :: "sudo_command \<Rightarrow> string \<times> string option" where
  "sudo_key c = (sc_command c, sc_runas c)"

definition sudo_set_equal :: "sudo_command list \<Rightarrow> sudo_command list \<Rightarrow> bool" where
  "sudo_set_equal a b = sorted_equal (map sudo_key a) (map sudo_key b)"

subsection \<open>The account diff\<close>

definition diff_fields :: "resolved_account \<Rightarrow> managed_account \<Rightarrow> change list" where
  "diff_fields t c =
     (if ra_uid t \<noteq> ma_uid c then [UidChange (ma_uid c) (ra_uid t)] else [])
   @ (if ra_shell t \<noteq> ma_shell c then [ShellChange (ma_shell c) (ra_shell t)] else [])
   @ (if \<not> str_set_equal (ma_groups c) (ra_groups t) then [GroupsChange (ma_groups c) (ra_groups t)] else [])
   @ (if ra_sudo_role t \<noteq> ma_sudo_role c then [SudoRoleChange (ma_sudo_role c) (ra_sudo_role t)] else [])
   @ (if \<not> sudo_set_equal (ma_sudo_commands c) (ra_sudo_commands t)
      then [SudoCommandsChange (ma_sudo_commands c) (ra_sudo_commands t)] else [])
   @ (if \<not> file_grants_set_equal (ma_file_grants c) (ra_file_grants t)
      then [FileGrantsChange (map managed_key (ma_file_grants c)) (map resolved_key (ra_file_grants t))] else [])"

definition diff_target :: "(string, managed_account) btree \<Rightarrow> resolved_account \<Rightarrow> action list" where
  "diff_target managed t =
     (case bt_get managed (ra_name t) of
        None \<Rightarrow> [ActCreate t]
      | Some c \<Rightarrow> (let changes = diff_fields t c in if changes \<noteq> [] then [ActUpdate t changes] else []))"

definition diff :: "resolved_account list \<Rightarrow> (string, managed_account) btree \<Rightarrow> plan" where
  "diff targets managed =
     \<lparr>pl_actions = concat (map (diff_target managed) targets)
        @ map ActDelete (filter (\<lambda>n. n \<notin> set (map ra_name targets)) (bt_keys managed)),
      pl_group_actions = []\<rparr>"

subsection \<open>Group existence\<close>

record account_facts =
  af_uid :: u32
  af_shell :: string
  af_home :: path
  af_groups :: "string list"

record group_facts = gf_gid :: u32

text \<open>The read-only view of the live system the planner uses.\<close>

record inspector =
  si_account :: "string \<Rightarrow> account_facts option"
  si_group :: "string \<Rightarrow> group_facts option"
  si_group_name_by_gid :: "u32 \<Rightarrow> string option"
  si_group_members :: "string \<Rightarrow> string list"

definition diff_required ::
    "(string, group_facts) btree \<Rightarrow> (u32, string) btree \<Rightarrow> string \<times> u32 option \<Rightarrow>
     group_plan_error + group_action list" where
  "diff_required live gid_owners np =
     (case np of (nm, pin) \<Rightarrow>
       (case bt_get live nm of
          Some facts \<Rightarrow>
            (case pin of
               Some pinned \<Rightarrow> if pinned \<noteq> gf_gid facts then Err (PinnedGidMismatch nm (gf_gid facts) pinned) else Ok []
             | None \<Rightarrow> Ok [])
        | None \<Rightarrow>
            (case pin of
               Some pinned \<Rightarrow>
                 (case bt_get gid_owners pinned of
                    Some owner \<Rightarrow> if owner \<noteq> nm then Err (GidPinConflict nm pinned owner) else Ok [GrpCreate nm pin]
                  | None \<Rightarrow> Ok [GrpCreate nm pin])
             | None \<Rightarrow> Ok [GrpCreate nm pin])))"

fun diff_creates ::
    "(string, group_facts) btree \<Rightarrow> (u32, string) btree \<Rightarrow> (string \<times> u32 option) list \<Rightarrow>
     group_plan_error + group_action list" where
  "diff_creates live gid_owners [] = Ok []"
| "diff_creates live gid_owners (np # nps) =
     try_bind (diff_required live gid_owners np) (\<lambda>c.
       try_bind (diff_creates live gid_owners nps) (\<lambda>cs. Ok (c @ cs)))"

fun check_gid_drift ::
    "(string, group_facts) btree \<Rightarrow> (string \<times> managed_group) list \<Rightarrow> group_plan_error + unit" where
  "check_gid_drift live [] = Ok ()"
| "check_gid_drift live ((nm, mg) # gs) =
     (case (bt_get live nm, mg_gid mg) of
        (Some facts, Some recorded) \<Rightarrow>
          if gf_gid facts \<noteq> recorded then Err (ManagedGidDrift nm (gf_gid facts) recorded)
          else check_gid_drift live gs
      | _ \<Rightarrow> check_gid_drift live gs)"

definition diff_groups ::
    "(string, u32 option) btree \<Rightarrow> (string, managed_group) btree \<Rightarrow> (string, group_facts) btree \<Rightarrow>
     (u32, string) btree \<Rightarrow> group_plan_error + group_action list" where
  "diff_groups required managed live gid_owners =
     try_bind (diff_creates live gid_owners required) (\<lambda>creates.
     try_bind (check_gid_drift live managed) (\<lambda>_.
       Ok (creates @ map (\<lambda>(n, _). GrpDelete n)
             (filter (\<lambda>(n, mg). \<not> bt_has required n \<and> mg_provenance mg = Created) managed))))"

text \<open>The live facts of every required or managed name, and the owners of the pinned GIDs.\<close>

definition collect_live :: "inspector \<Rightarrow> string list \<Rightarrow> (string, group_facts) btree" where
  "collect_live insp names = fold (bt_memo (si_group insp)) names []"

definition collect_gid_owners :: "inspector \<Rightarrow> u32 list \<Rightarrow> (u32, string) btree" where
  "collect_gid_owners insp pins = fold (bt_memo (si_group_name_by_gid insp)) pins []"

definition pinned_gids :: "(string, u32 option) btree \<Rightarrow> u32 list" where
  "pinned_gids required = concat (map (\<lambda>p. case p of Some g \<Rightarrow> [g] | None \<Rightarrow> []) (bt_values required))"

definition diff_groups_via_inspector ::
    "(string, u32 option) btree \<Rightarrow> (string, managed_group) btree \<Rightarrow> inspector \<Rightarrow>
     group_plan_error + group_action list" where
  "diff_groups_via_inspector required managed insp =
     diff_groups required managed (collect_live insp (bt_keys required @ bt_keys managed))
       (collect_gid_owners insp (pinned_gids required))"

subsection \<open>Group grants\<close>

definition diff_group_fields :: "resolved_group \<Rightarrow> managed_group \<Rightarrow> change list" where
  "diff_group_fields t c =
     (if \<not> sudo_set_equal (mg_sudo_commands c) (rg_sudo_commands t)
      then [SudoCommandsChange (mg_sudo_commands c) (rg_sudo_commands t)] else [])
   @ (if \<not> file_grants_set_equal (mg_file_grants c) (rg_file_grants t)
      then [FileGrantsChange (map managed_key (mg_file_grants c)) (map resolved_key (rg_file_grants t))] else [])
   @ (if \<not> str_set_equal (mg_members_added c) (rg_members t)
      then [MembersChange (mg_members_added c) (rg_members t)] else [])"

definition diff_group_target :: "(string, managed_group) btree \<Rightarrow> resolved_group \<Rightarrow> group_action list" where
  "diff_group_target managed t =
     (case bt_get managed (rg_name t) of
        None \<Rightarrow> (case rg_provenance t of
            Created \<Rightarrow> [GrpCreate (rg_name t) (rg_gid t)]
          | Adopted \<Rightarrow> [GrpAdopt (rg_name t)])
      | Some c \<Rightarrow> (let changes = diff_group_fields t c in
          if changes \<noteq> [] then [GrpUpdate (rg_name t) changes] else []))"

definition release_or_delete :: "string \<times> managed_group \<Rightarrow> group_action" where
  "release_or_delete nm =
     (case nm of (n, mg) \<Rightarrow> (case mg_provenance mg of Created \<Rightarrow> GrpDelete n | Adopted \<Rightarrow> GrpRelease n))"

definition diff_resolved_groups ::
    "resolved_group list \<Rightarrow> (string, managed_group) btree \<Rightarrow> group_action list" where
  "diff_resolved_groups targets managed =
     concat (map (diff_group_target managed) targets)
     @ map release_or_delete (filter (\<lambda>(n, _). n \<notin> set (map rg_name targets)) managed)"

subsection \<open>What the comparisons decide\<close>

lemma sudo_key_inj: "inj sudo_key"
  by (rule injI) (auto simp: sudo_key_def intro: sudo_command.equality)

lemma sudo_set_equal_mset: "sudo_set_equal a b \<longleftrightarrow> mset a = mset b"
  unfolding sudo_set_equal_def sorted_equal_mset mset_map
  by (rule inj_eq [OF multiset.inj_map [OF sudo_key_inj]])

lemma str_set_equal_mset: "str_set_equal a b \<longleftrightarrow> mset a = mset b"
  by (simp add: str_set_equal_def sorted_equal_mset)

lemma managed_key_from_resolved [simp]: "managed_key (from_resolved g) = resolved_key g"
  by (simp add: managed_key_def resolved_key_def from_resolved_def)

lemma file_grants_set_equal_mset:
  "file_grants_set_equal ms ts \<longleftrightarrow> image_mset managed_key (mset ms) = image_mset resolved_key (mset ts)"
  by (simp add: file_grants_set_equal_def sorted_equal_mset)

lemmas set_equal_msets = sudo_set_equal_mset str_set_equal_mset file_grants_set_equal_mset

lemma file_grants_set_equal_from_resolved [simp]: "file_grants_set_equal (map from_resolved gs) gs"
  by (simp add: file_grants_set_equal_def comp_def)

lemma sudo_set_equal_refl [simp]: "sudo_set_equal a a"
  by (simp add: sudo_set_equal_def)

lemma str_set_equal_refl [simp]: "str_set_equal a a"
  by (simp add: str_set_equal_def)

text \<open>The enforced state of an account agrees with its record.\<close>

definition account_in_sync :: "resolved_account \<Rightarrow> managed_account \<Rightarrow> bool" where
  "account_in_sync t c \<longleftrightarrow> ma_uid c = ra_uid t \<and> ma_shell c = ra_shell t
     \<and> mset (ma_groups c) = mset (ra_groups t) \<and> ma_sudo_role c = ra_sudo_role t
     \<and> mset (ma_sudo_commands c) = mset (ra_sudo_commands t)
     \<and> image_mset managed_key (mset (ma_file_grants c)) = image_mset resolved_key (mset (ra_file_grants t))"

definition group_in_sync :: "resolved_group \<Rightarrow> managed_group \<Rightarrow> bool" where
  "group_in_sync t c \<longleftrightarrow> mset (mg_sudo_commands c) = mset (rg_sudo_commands t)
     \<and> image_mset managed_key (mset (mg_file_grants c)) = image_mset resolved_key (mset (rg_file_grants t))
     \<and> mset (mg_members_added c) = mset (rg_members t)"

lemma diff_fields_Nil: "diff_fields t c = [] \<longleftrightarrow> account_in_sync t c"
  by (auto simp: diff_fields_def account_in_sync_def set_equal_msets)

lemma diff_group_fields_Nil: "diff_group_fields t c = [] \<longleftrightarrow> group_in_sync t c"
  by (auto simp: diff_group_fields_def group_in_sync_def set_equal_msets)

subsection \<open>What the account diff plans\<close>

lemma diff_target_mem:
  "x \<in> set (diff_target managed t) \<longleftrightarrow>
     (bt_get managed (ra_name t) = None \<and> x = ActCreate t)
     \<or> (\<exists>c. bt_get managed (ra_name t) = Some c \<and> \<not> account_in_sync t c \<and> x = ActUpdate t (diff_fields t c))"
  by (auto simp: diff_target_def Let_def diff_fields_Nil split: option.splits)




lemma diff_target_not_destructive: "x \<in> set (diff_target managed t) \<Longrightarrow> \<not> is_destructive x"
  by (auto simp: diff_target_mem)

lemma diff_empty_iff:
  "pl_actions (diff ts managed) = [] \<longleftrightarrow>
     (\<forall>t\<in>set ts. \<exists>c. bt_get managed (ra_name t) = Some c \<and> account_in_sync t c)
     \<and> set (bt_keys managed) \<subseteq> set (map ra_name ts)"
proof -
  have "diff_target managed t = [] \<longleftrightarrow> (\<exists>c. bt_get managed (ra_name t) = Some c \<and> account_in_sync t c)" for t
    by (auto simp: diff_target_def Let_def diff_fields_Nil split: option.splits)
  then show ?thesis by (auto simp: diff_def filter_empty_conv)
qed

subsection \<open>What the group diffs plan\<close>

lemma collect_live_get: "bt_get (collect_live insp ns) n = (if n \<in> set ns then si_group insp n else None)"
  by (simp add: collect_live_def fold_bt_memo_empty)

lemma collect_gid_owners_get:
  "bt_get (collect_gid_owners insp ps) p = (if p \<in> set ps then si_group_name_by_gid insp p else None)"
  by (simp add: collect_gid_owners_def fold_bt_memo_empty)

text \<open>A pin that the live system can honour: the group has that GID, or nobody else holds it.\<close>

definition pin_ok :: "(string, group_facts) btree \<Rightarrow> (u32, string) btree \<Rightarrow> string \<times> u32 option \<Rightarrow> bool" where
  "pin_ok live owners np =
     (case np of (n, None) \<Rightarrow> True
      | (n, Some g) \<Rightarrow> (case bt_get live n of Some f \<Rightarrow> gf_gid f = g
                        | None \<Rightarrow> (case bt_get owners g of Some h \<Rightarrow> h = n | None \<Rightarrow> True)))"

lemma diff_required_Ok:
  "diff_required live owners np = Inr cs \<longleftrightarrow>
     pin_ok live owners np
     \<and> cs = (if bt_get live (fst np) = None then [GrpCreate (fst np) (snd np)] else [])"
  by (auto simp: diff_required_def pin_ok_def split: prod.splits option.splits)

lemma diff_creates_Ok:
  "diff_creates live owners nps = Inr cs \<longleftrightarrow>
     list_all (pin_ok live owners) nps
     \<and> cs = map (\<lambda>(n, p). GrpCreate n p) (filter (\<lambda>(n, _). bt_get live n = None) nps)"
proof (induction nps arbitrary: cs)
  case Nil
  show ?case by auto
next
  case (Cons np nps)
  show ?case
    by (cases np) (simp add: try_bind_Ok_iff diff_required_Ok Cons.IH, auto)
qed

lemma check_gid_drift_Ok:
  "check_gid_drift live gs = Inr () \<longleftrightarrow>
     (\<forall>(n, mg)\<in>set gs. \<forall>f g. bt_get live n = Some f \<and> mg_gid mg = Some g \<longrightarrow> gf_gid f = g)"
  by (induction live gs rule: check_gid_drift.induct) (auto split: option.splits)

lemma diff_groups_Ok:
  "diff_groups required managed live owners = Inr as \<longleftrightarrow>
     list_all (pin_ok live owners) required \<and> check_gid_drift live managed = Inr ()
     \<and> as = map (\<lambda>(n, p). GrpCreate n p) (filter (\<lambda>(n, _). bt_get live n = None) required)
          @ map (\<lambda>(n, _). GrpDelete n)
             (filter (\<lambda>(n, mg). \<not> bt_has required n \<and> mg_provenance mg = Created) managed)"
  by (auto simp: diff_groups_def try_bind_Ok_iff diff_creates_Ok)

lemma diff_group_target_head:
  "GrpDelete n \<notin> set (diff_group_target managed t)" "GrpRelease n \<notin> set (diff_group_target managed t)"
  by (cases "rg_provenance t"; simp add: diff_group_target_def Let_def split: option.splits)+

lemma release_or_delete_eq:
  "GrpDelete n = release_or_delete (a, mg) \<longleftrightarrow> a = n \<and> mg_provenance mg = Created"
  "GrpRelease n = release_or_delete (a, mg) \<longleftrightarrow> a = n \<and> mg_provenance mg = Adopted"
  by (auto simp: release_or_delete_def split: provenance.splits)

lemma diff_resolved_groups_Delete:
  "GrpDelete n \<in> set (diff_resolved_groups ts managed) \<longleftrightarrow>
     (\<exists>mg. (n, mg) \<in> set managed \<and> mg_provenance mg = Created) \<and> n \<notin> set (map rg_name ts)"
  by (auto simp: diff_resolved_groups_def diff_group_target_head image_iff release_or_delete_eq)

lemma diff_resolved_groups_Release:
  "GrpRelease n \<in> set (diff_resolved_groups ts managed) \<longleftrightarrow>
     (\<exists>mg. (n, mg) \<in> set managed \<and> mg_provenance mg = Adopted) \<and> n \<notin> set (map rg_name ts)"
  by (auto simp: diff_resolved_groups_def diff_group_target_head image_iff release_or_delete_eq)

text \<open>The live GIDs agree with every pin and every recorded GID, and no pin is taken.\<close>

definition gids_consistent ::
    "(string, u32 option) btree \<Rightarrow> (string, managed_group) btree \<Rightarrow> inspector \<Rightarrow> bool" where
  "gids_consistent required managed insp \<longleftrightarrow>
     (\<forall>n g. bt_get required n = Some (Some g) \<longrightarrow>
        (case si_group insp n of
           Some f \<Rightarrow> gf_gid f = g
         | None \<Rightarrow> si_group_name_by_gid insp g = None \<or> si_group_name_by_gid insp g = Some n))
     \<and> (\<forall>n mg f g. bt_get managed n = Some mg \<and> si_group insp n = Some f \<and> mg_gid mg = Some g
          \<longrightarrow> gf_gid f = g)"

lemma pinned_gids_mem: "(n, Some g) \<in> set required \<Longrightarrow> g \<in> set (pinned_gids required)"
  by (force simp: pinned_gids_def bt_values_def split: option.splits)

lemma pin_ok_live:
  assumes "set (bt_keys required) \<subseteq> set ns" and "set (pinned_gids required) \<subseteq> set ps"
    and "(n, p) \<in> set required"
  shows "pin_ok (collect_live insp ns) (collect_gid_owners insp ps) (n, p) \<longleftrightarrow>
    (\<forall>g. p = Some g \<longrightarrow>
        (case si_group insp n of
           Some f \<Rightarrow> gf_gid f = g
         | None \<Rightarrow> si_group_name_by_gid insp g = None \<or> si_group_name_by_gid insp g = Some n))"
proof -
  have "n \<in> set ns" using assms(1,3) by (force simp: bt_keys_def)
  moreover have "g \<in> set ps" if "p = Some g" for g
    using assms(2,3) pinned_gids_mem [of n g required] that by auto
  ultimately show ?thesis
    by (auto simp: pin_ok_def collect_live_get collect_gid_owners_get split: option.splits)
qed

lemma gids_consistent_checks:
  assumes "bt_inv required" and "bt_inv managed"
    and live: "live = collect_live insp (bt_keys required @ bt_keys managed)"
  shows "list_all (pin_ok live (collect_gid_owners insp (pinned_gids required))) required
      \<and> check_gid_drift live managed = Ok ()
    \<longleftrightarrow> gids_consistent required managed insp"
proof -
  have "list_all (pin_ok live (collect_gid_owners insp (pinned_gids required))) required \<longleftrightarrow>
    (\<forall>n p. (n, p) \<in> set required \<longrightarrow> (\<forall>g. p = Some g \<longrightarrow>
        (case si_group insp n of
           Some f \<Rightarrow> gf_gid f = g
         | None \<Rightarrow> si_group_name_by_gid insp g = None \<or> si_group_name_by_gid insp g = Some n)))"
    unfolding list_all_iff live
    using pin_ok_live [of required "bt_keys required @ bt_keys managed" "pinned_gids required" _ _ insp]
    by auto
  moreover have "bt_get live n = si_group insp n" if "(n, mg) \<in> set managed" for n mg
    using that by (force simp: live collect_live_get bt_keys_def)
  then have "check_gid_drift live managed = Ok () \<longleftrightarrow>
    (\<forall>n mg. (n, mg) \<in> set managed \<longrightarrow> (\<forall>f g. si_group insp n = Some f \<and> mg_gid mg = Some g \<longrightarrow> gf_gid f = g))"
    by (auto simp: check_gid_drift_Ok)
  ultimately show ?thesis
    using assms(1,2) by (auto simp: gids_consistent_def bt_get_iff_mem)
qed

lemma diff_groups_via_inspector_Ok:
  assumes "bt_inv required" and "bt_inv managed"
  shows "diff_groups_via_inspector required managed insp = Ok as \<longleftrightarrow>
    gids_consistent required managed insp
    \<and> as = map (\<lambda>(n, p). GrpCreate n p) (filter (\<lambda>(n, _). si_group insp n = None) required)
         @ map (\<lambda>(n, _). GrpDelete n)
            (filter (\<lambda>(n, mg). \<not> bt_has required n \<and> mg_provenance mg = Created) managed)"
proof -
  let ?live = "collect_live insp (bt_keys required @ bt_keys managed)"
  have "filter (\<lambda>(n, _). bt_get ?live n = None) required = filter (\<lambda>(n, _). si_group insp n = None) required"
    by (rule filter_cong) (force simp: collect_live_get bt_keys_def)+
  then show ?thesis
    using gids_consistent_checks [OF assms refl, of insp]
    by (auto simp: diff_groups_via_inspector_def diff_groups_Ok)
qed

subsection \<open>Properties\<close>


text \<open>
  Nothing is planned for the accounts exactly when every target has a record that agrees
  with it as multisets of groups, commands and grants, and every record is a target.
\<close>

theorem diff_converged:
  "pl_actions (diff ts managed) = [] \<longleftrightarrow>
     list_all (\<lambda>t. \<exists>c. bt_get managed (ra_name t) = Some c \<and> account_in_sync t c) ts
     \<and> set (bt_keys managed) \<subseteq> set (map ra_name ts)"
  by (simp add: diff_empty_iff list_all_iff)

text \<open>
  Every account deletion comes after every creation and update of the plan, each
  deleted account once and in name order.
\<close>

theorem diff_deletes_last:
  assumes "bt_inv managed"
  shows "\<exists>us ds. pl_actions (diff ts managed) = us @ map ActDelete ds
    \<and> list_all (\<lambda>a. \<not> is_destructive a) us \<and> sorted_wrt (<) ds"
proof -
  let ?ds = "filter (\<lambda>n. n \<notin> set (map ra_name ts)) (bt_keys managed)"
  have "sorted_wrt (<) ?ds"
    using assms by (auto simp: bt_inv_def bt_keys_def intro: sorted_wrt_filter)
  moreover have "list_all (\<lambda>a. \<not> is_destructive a) (concat (map (diff_target managed) ts))"
    by (auto simp: list_all_iff dest: diff_target_not_destructive)
  ultimately show ?thesis by (auto simp: diff_def)
qed

definition sample_managed :: "(string, managed_account) btree" where
  "sample_managed = [(''oper'', hd (rf_accounts sample_registry_file))]"

theorem diff_deletes_last_witness:
  "\<exists>us ds. pl_actions (diff [] sample_managed) = us @ map ActDelete ds
    \<and> list_all (\<lambda>a. \<not> is_destructive a) us \<and> sorted_wrt (<) ds"
  by (rule diff_deletes_last) (simp add: sample_managed_def bt_inv_def)

text \<open>
  C16: the group-existence plan is computed iff every pinned GID is held by that very group or
  free and no managed group drifted from its recorded GID, so no group is ever renumbered; it
  then creates exactly the required groups the system lacks, with their pins, and deletes
  exactly the groups Census created that are no longer required.
\<close>

theorem group_plan_exact:
  assumes "bt_inv required" and "bt_inv managed"
  shows "diff_groups_via_inspector required managed insp = Ok as \<longleftrightarrow>
    gids_consistent required managed insp
    \<and> as = map (\<lambda>(n, p). GrpCreate n p) (filter (\<lambda>(n, _). si_group insp n = None) required)
         @ map (\<lambda>(n, _). GrpDelete n)
            (filter (\<lambda>(n, mg). \<not> bt_has required n \<and> mg_provenance mg = Created) managed)"
  using assms by (rule diff_groups_via_inspector_Ok)

definition sample_inspector :: inspector where
  "sample_inspector =
     \<lparr>si_account = (\<lambda>_. None),
      si_group = (\<lambda>n. if n = ''ops'' then Some \<lparr>gf_gid = 700\<rparr> else None),
      si_group_name_by_gid = (\<lambda>g. if g = 700 then Some ''ops'' else None),
      si_group_members = (\<lambda>_. [])\<rparr>"

theorem group_plan_exact_witness:
  "\<not> (diff_groups_via_inspector [(''net'', Some 700)] [] sample_inspector = Ok [GrpCreate ''net'' (Some 700)])
   \<and> gids_consistent [(''ops'', Some 700)] [] sample_inspector"
  using group_plan_exact [of "[(''net'', Some 700)]" "[]" sample_inspector "[GrpCreate ''net'' (Some 700)]"]
    group_plan_exact [of "[(''ops'', Some 700)]" "[]" sample_inspector "[]"]
  by (auto simp: bt_inv_def gids_consistent_def sample_inspector_def bt_get_def)

text \<open>
  a group the registry records as adopted is never deleted, neither by the
  group-existence plan nor by the grant plan; when it is no longer declared the grant plan
  releases it instead.
\<close>

theorem adopted_group_never_deleted:
  assumes "bt_inv required" and "bt_inv managed"
    and "bt_get managed n = Some mg" and "mg_provenance mg = Adopted"
  shows "GrpDelete n \<notin> set (diff_resolved_groups ts managed)
    \<and> (\<forall>as. diff_groups_via_inspector required managed insp = Ok as \<longrightarrow> GrpDelete n \<notin> set as)
    \<and> (n \<notin> set (map rg_name ts) \<longrightarrow> GrpRelease n \<in> set (diff_resolved_groups ts managed))"
proof -
  have only: "(n, mg') \<in> set managed \<Longrightarrow> mg' = mg" for mg'
    using assms(2,3) by (simp add: bt_get_iff_mem [symmetric])
  have mem: "(n, mg) \<in> set managed" using assms(3) by (rule bt_get_mem)
  have "GrpDelete n \<notin> set (diff_resolved_groups ts managed)"
    using only assms(4) by (auto simp: diff_resolved_groups_Delete)
  moreover have "GrpDelete n \<notin> set as" if "diff_groups_via_inspector required managed insp = Ok as" for as
    using that only assms(4) by (auto simp: diff_groups_via_inspector_Ok [OF assms(1,2)])
  moreover have "n \<notin> set (map rg_name ts) \<Longrightarrow> GrpRelease n \<in> set (diff_resolved_groups ts managed)"
    using mem assms(4) by (auto simp: diff_resolved_groups_Release)
  ultimately show ?thesis by blast
qed

definition sample_adopted :: managed_group where
  "sample_adopted = \<lparr>mg_name = ''wheel'', mg_gid = None, mg_provenance = Adopted, mg_members_added = [''oper''],
     mg_sudo_commands = [], mg_file_grants = [], mg_adopt_baseline = Some \<lparr>gb_gid = Some 10, gb_members = [''root'']\<rparr>,
     mg_from_version = 1\<rparr>"

theorem adopted_group_never_deleted_witness:
  "GrpRelease ''wheel'' \<in> set (diff_resolved_groups [] [(''wheel'', sample_adopted)])
   \<and> GrpDelete ''wheel'' \<notin> set (diff_resolved_groups [] [(''wheel'', sample_adopted)])"
  using adopted_group_never_deleted [of "[]" "[(''wheel'', sample_adopted)]" "''wheel''" sample_adopted "[]"]
  by (simp add: bt_inv_def bt_get_def sample_adopted_def)

end
