(* ===== verification/Provision.thy ===== *)
theory Provision
  imports Backup Sudoers FileAccess Plan
begin

text \<open>
  Account mutation (\<^verbatim>\<open>src/mutate.rs\<close>): the argument vectors of the shadow-utils commands,
  the provisioner interface the orchestrator drives, and the provisioner that runs the
  commands, writes sudoers fragments and delegates rollback to the backup.  Running a program
  is a parameter.  An error that the source converts to a string keeps the error it was.
\<close>

subsection \<open>Argument vectors\<close>

definition GECOS_MARKER_PREFIX :: string where "GECOS_MARKER_PREFIX = ''census-role-''"

definition gecos_marker :: "string \<Rightarrow> string" where
  "gecos_marker role = GECOS_MARKER_PREFIX @ role"

datatype provision_error =
  PvUidChange string u32 u32
| PvMissingManagedRecord string
| PvCommandFailed "string list" string string
| PvSpawn "string list" "io_error option"
| PvBackup backup_error
| PvSudoers sudoers_error

definition build_create_argv :: "resolved_account \<Rightarrow> string list list" where
  "build_create_argv a =
     [[''useradd'', ''-u'', show_u32 (ra_uid a), ''-m'', ''-d'', ra_home a, ''-s'', ra_shell a]
        @ (if ra_groups a \<noteq> [] then [''-G'', join_with '','' (ra_groups a)] else []) @ [ra_name a],
      [''chfn'', ''-f'', gecos_marker (ra_name a), ra_name a],
      [''passwd'', ''-l'', ra_name a]]"

definition build_update_argv :: "resolved_account \<Rightarrow> managed_account \<Rightarrow> provision_error + string list list" where
  "build_update_argv a c =
     (if ra_uid a \<noteq> ma_uid c then Err (PvUidChange (ra_name a) (ma_uid c) (ra_uid a))
      else Ok ((if ra_shell a \<noteq> ma_shell c then [[''usermod'', ''-s'', ra_shell a, ra_name a]] else [])
             @ (if sort (ra_groups a) \<noteq> sort (ma_groups c)
                then [[''usermod'', ''-G'', join_with '','' (ra_groups a), ra_name a]] else [])))"

definition build_delete_argv :: "string \<Rightarrow> string list list" where
  "build_delete_argv nm = [[''userdel'', ''-r'', nm]]"

definition build_create_group_argv :: "string \<Rightarrow> u32 option \<Rightarrow> string list list" where
  "build_create_group_argv nm gid =
     [[''groupadd''] @ (case gid of Some g \<Rightarrow> [''-g'', show_u32 g] | None \<Rightarrow> []) @ [nm]]"

definition build_delete_group_argv :: "string \<Rightarrow> string list list" where
  "build_delete_group_argv nm = [[''groupdel'', nm]]"

definition build_gpasswd_add_argv :: "string \<Rightarrow> string \<Rightarrow> string list list" where
  "build_gpasswd_add_argv grp member = [[''gpasswd'', ''-a'', member, grp]]"

definition build_gpasswd_del_argv :: "string \<Rightarrow> string \<Rightarrow> string list list" where
  "build_gpasswd_del_argv grp member = [[''gpasswd'', ''-d'', member, grp]]"

subsection \<open>The provisioner interface\<close>

record 's provisioner =
  pv_create :: "resolved_account \<Rightarrow> ('s, provision_error, unit) comp"
  pv_update :: "resolved_account \<Rightarrow> change list \<Rightarrow> ('s, provision_error, unit) comp"
  pv_delete :: "string \<Rightarrow> ('s, provision_error, unit) comp"
  pv_create_group :: "string \<Rightarrow> u32 option \<Rightarrow> ('s, provision_error, unit) comp"
  pv_group_gid :: "string \<Rightarrow> 's \<Rightarrow> u32 option \<times> 's"
  pv_delete_group :: "string \<Rightarrow> ('s, provision_error, unit) comp"
  pv_apply_sudoers :: "resolved_account \<Rightarrow> ('s, provision_error, unit) comp"
  pv_remove_sudoers :: "string \<Rightarrow> ('s, provision_error, unit) comp"
  pv_apply_group_sudoers :: "resolved_group \<Rightarrow> ('s, provision_error, unit) comp"
  pv_remove_group_sudoers :: "string \<Rightarrow> ('s, provision_error, unit) comp"
  pv_add_group_member :: "string \<Rightarrow> string \<Rightarrow> ('s, provision_error, unit) comp"
  pv_remove_group_member :: "string \<Rightarrow> string \<Rightarrow> ('s, provision_error, unit) comp"
  pv_track_sudoers_backup :: "node \<Rightarrow> 's \<Rightarrow> 's"
  pv_snapshot :: "('s, provision_error, unit) comp"
  pv_restore :: "('s, provision_error, unit) comp"

subsection \<open>Shadow-utils\<close>

record shadow_utils =
  su_managed :: "(string, managed_account) btree"
  su_backup :: backup
  su_sudoers_dir :: node

definition su_run :: "'x world exec \<Rightarrow> string list \<Rightarrow> ('x world, provision_error, unit) comp" where
  "su_run exec cmd =
     (case cmd of
        [] \<Rightarrow> fail (PvSpawn cmd None)
      | program # args \<Rightarrow>
          seq (comp_err (\<lambda>e. PvSpawn cmd (Some e)) (exec program args)) (\<lambda>out.
            if po_success out then pure_ok ()
            else fail (PvCommandFailed cmd (po_status out) (trim (po_stderr out)))))"

definition su_run_all :: "'x world exec \<Rightarrow> string list list \<Rightarrow> ('x world, provision_error, unit) comp" where
  "su_run_all exec cmds = for_each (\<lambda>cmd _. su_run exec cmd) cmds ()"

text \<open>The message of a spawn error.\<close>

definition io_message :: "io_error \<Rightarrow> string" where
  "io_message e =
     (case e of
        IoOs s \<Rightarrow> s
      | IoInvalidData \<Rightarrow> ''stream did not contain valid UTF-8''
      | IoNotFound \<Rightarrow> ''No such file or directory (os error 2)''
      | IoAlreadyExists \<Rightarrow> ''File exists (os error 17)'')"

definition visudo_by :: "'x world exec \<Rightarrow> 'x visudo" where
  "visudo_by exec tmp w =
     (case exec ''visudo'' [''-c'', ''-f'', node_display tmp] w of
        (Err e, w1) \<Rightarrow> (Err (io_message e), w1)
      | (Ok out, w1) \<Rightarrow> (Ok (po_success out, po_stderr out), w1))"

definition su_create :: "'x world exec \<Rightarrow> resolved_account \<Rightarrow> ('x world, provision_error, unit) comp" where
  "su_create exec a = su_run_all exec (build_create_argv a)"

definition su_update ::
    "'x world exec \<Rightarrow> shadow_utils \<Rightarrow> resolved_account \<Rightarrow> change list \<Rightarrow> ('x world, provision_error, unit) comp" where
  "su_update exec su a changes =
     (case bt_get (su_managed su) (ra_name a) of
        None \<Rightarrow> fail (PvMissingManagedRecord (ra_name a))
      | Some current \<Rightarrow>
          (case build_update_argv a current of Err e \<Rightarrow> fail e | Ok cmds \<Rightarrow> su_run_all exec cmds))"

definition su_delete :: "'x world exec \<Rightarrow> string \<Rightarrow> ('x world, provision_error, unit) comp" where
  "su_delete exec nm = su_run_all exec (build_delete_argv nm)"

definition su_create_group :: "'x world exec \<Rightarrow> string \<Rightarrow> u32 option \<Rightarrow> ('x world, provision_error, unit) comp" where
  "su_create_group exec nm gid = su_run_all exec (build_create_group_argv nm gid)"

text \<open>The first line of a text, as \<open>lines().next()\<close> yields it.\<close>

definition first_line :: "string \<Rightarrow> string option" where
  "first_line s =
     (case split_inclusive s of
        [] \<Rightarrow> None
      | l # _ \<Rightarrow>
          Some (if ends_with l [CHR 0x0D, CHR 0x0A] then butlast (butlast l)
                else if ends_with l [CHR 0x0A] then butlast l else l))"

definition parse_getent_gid :: "string \<Rightarrow> u32 option" where
  "parse_getent_gid text =
     (if \<not> utf8_valid text then None
      else case first_line text of
        None \<Rightarrow> None
      | Some line \<Rightarrow>
          (let fields = split_on (CHR '':'') line in
           if length fields \<le> 2 then None else parse_u32 (fields ! 2)))"

definition su_group_gid :: "'x world exec \<Rightarrow> string \<Rightarrow> 'x world \<Rightarrow> u32 option \<times> 'x world" where
  "su_group_gid exec nm w =
     (case exec ''getent'' [''group'', nm] w of
        (Err _, w1) \<Rightarrow> (None, w1)
      | (Ok out, w1) \<Rightarrow> (if \<not> po_success out then None else parse_getent_gid (po_stdout out), w1))"

definition su_delete_group :: "'x world exec \<Rightarrow> string \<Rightarrow> ('x world, provision_error, unit) comp" where
  "su_delete_group exec nm = su_run_all exec (build_delete_group_argv nm)"

definition su_apply_sudoers ::
    "'x world exec \<Rightarrow> shadow_utils \<Rightarrow> resolved_account \<Rightarrow> ('x world, provision_error, unit) comp" where
  "su_apply_sudoers exec su a =
     comp_err PvSudoers (case build_sudoers_content a of
         Some content \<Rightarrow> write_sudoers (visudo_by exec) (su_sudoers_dir su) (ra_name a) content
       | None \<Rightarrow> remove_sudoers (su_sudoers_dir su) (ra_name a))"

definition su_remove_sudoers :: "shadow_utils \<Rightarrow> string \<Rightarrow> ('x world, provision_error, unit) comp" where
  "su_remove_sudoers su nm = comp_err PvSudoers (remove_sudoers (su_sudoers_dir su) nm)"

definition su_apply_group_sudoers ::
    "'x world exec \<Rightarrow> shadow_utils \<Rightarrow> resolved_group \<Rightarrow> ('x world, provision_error, unit) comp" where
  "su_apply_group_sudoers exec su g =
     comp_err PvSudoers (case build_group_sudoers_content g of
         Some content \<Rightarrow> write_group_sudoers (visudo_by exec) (su_sudoers_dir su) (rg_name g) content
       | None \<Rightarrow> remove_group_sudoers (su_sudoers_dir su) (rg_name g))"

definition su_remove_group_sudoers :: "shadow_utils \<Rightarrow> string \<Rightarrow> ('x world, provision_error, unit) comp" where
  "su_remove_group_sudoers su grp = comp_err PvSudoers (remove_group_sudoers (su_sudoers_dir su) grp)"

definition su_add_group_member :: "'x world exec \<Rightarrow> string \<Rightarrow> string \<Rightarrow> ('x world, provision_error, unit) comp" where
  "su_add_group_member exec grp member = su_run_all exec (build_gpasswd_add_argv grp member)"

definition su_remove_group_member :: "'x world exec \<Rightarrow> string \<Rightarrow> string \<Rightarrow> ('x world, provision_error, unit) comp" where
  "su_remove_group_member exec grp member = su_run_all exec (build_gpasswd_del_argv grp member)"

definition su_track_sudoers_backup :: "node \<Rightarrow> shadow_utils \<Rightarrow> shadow_utils" where
  "su_track_sudoers_backup p su = su\<lparr>su_backup := backup_add_file p (su_backup su)\<rparr>"

definition su_snapshot :: "shadow_utils \<Rightarrow> ('x world, provision_error, shadow_utils) comp" where
  "su_snapshot su = seq (comp_err PvBackup (snapshot (su_backup su))) (\<lambda>b. pure_ok (su\<lparr>su_backup := b\<rparr>))"

definition su_restore :: "shadow_utils \<Rightarrow> ('x world, provision_error, unit) comp" where
  "su_restore su = comp_err PvBackup (restore (su_backup su))"

subsection \<open>What the argument vectors can and cannot say\<close>









text \<open>
  An update never changes a UID, and runs a command exactly when the shell or the set of
  groups differs from the record: one replaces the shell, the other the whole supplementary
  group list.
\<close>

theorem update_argv_exact:
  "(build_update_argv a c = Err e \<longleftrightarrow> ra_uid a \<noteq> ma_uid c \<and> e = PvUidChange (ra_name a) (ma_uid c) (ra_uid a))
   \<and> (build_update_argv a c = Ok cmds \<longleftrightarrow> ra_uid a = ma_uid c
        \<and> cmds = filter (\<lambda>cmd. cmd ! 1 = ''-s'' \<and> ra_shell a \<noteq> ma_shell c
                                \<or> cmd ! 1 = ''-G'' \<and> mset (ra_groups a) \<noteq> mset (ma_groups c))
             [[''usermod'', ''-s'', ra_shell a, ra_name a],
              [''usermod'', ''-G'', join_with '','' (ra_groups a), ra_name a]])"
proof -
  have "sort (ra_groups a) = sort (ma_groups c) \<longleftrightarrow> mset (ra_groups a) = mset (ma_groups c)"
    by (metis mset_sort properties_for_sort sorted_sort)
  then show ?thesis by (auto simp: build_update_argv_def)
qed

lemma su_run_all_last:
  "su_run_all exec (cmds @ [p # args]) w = (Ok (), w') \<Longrightarrow>
     \<exists>w1 out. exec p args w1 = (Ok out, w') \<and> po_success out"
  by (auto simp: su_run_all_def for_each_append seq_Ok_iff su_run_def comp_err_iff pure_ok_def fail_def
      split: if_splits)

text \<open>
  A role account is never created with a usable password: when creation reports
  success, the last thing it did was to run \<^verbatim>\<open>passwd -l\<close> on the account, and that command
  succeeded.
\<close>

theorem create_locks_password:
  assumes "su_create exec a w = (Ok (), w')"
  shows "\<exists>w1 out. exec ''passwd'' [''-l'', ra_name a] w1 = (Ok out, w') \<and> po_success out"
proof (rule su_run_all_last)
  show "su_run_all exec (butlast (build_create_argv a) @ [''passwd'' # [''-l'', ra_name a]]) w = (Ok (), w')"
    using assms by (simp add: su_create_def build_create_argv_def)
qed

theorem create_locks_password_witness:
  "\<exists>w1 out. (\<lambda>p args w. (Ok \<lparr>po_success = True, po_status = p, po_stdout = [], po_stderr = []\<rparr>, w))
      ''passwd'' [''-l'', ''oper''] w1 = (Ok out :: io_error + proc_output, blank_world) \<and> po_success out"
proof -
  let ?x = "\<lambda>(p :: string) (args :: string list) (w :: unit world).
     (Ok \<lparr>po_success = True, po_status = p, po_stdout = [], po_stderr = []\<rparr> :: io_error + proc_output, w)"
  let ?a = "account_builder ''oper'' 9001 ''/bin/bash'' ''/home/oper''"
  have "su_create ?x ?a blank_world = (Ok (), blank_world)"
    by (simp add: su_create_def build_create_argv_def su_run_all_def su_run_def seq_def comp_err_def pure_ok_def)
  from create_locks_password [OF this] show ?thesis by (simp add: account_builder_def)
qed

end
