(* ===== verification/Gates.thy ===== *)
theory Gates
  imports Plan
begin

text \<open>
  The two gates before the destructive phases: the anti-lockout gate (\<^verbatim>\<open>src/lockout.rs\<close>) and
  the live-session registry read (\<^verbatim>\<open>src/sessions.rs\<close>).  The JSON parser is a parameter.
\<close>

subsection \<open>Anti-lockout\<close>

record lockout_context =
  lc_rescue_present :: bool
  lc_risk_acknowledged :: bool

definition NON_LOGIN_SHELLS :: "string list" where
  "NON_LOGIN_SHELLS = [''/usr/sbin/nologin'', ''/sbin/nologin'', ''/bin/false'', ''/usr/bin/false'']"

definition is_login_capable_shell :: "string \<Rightarrow> bool" where
  "is_login_capable_shell s \<longleftrightarrow> s \<noteq> [] \<and> s \<notin> set NON_LOGIN_SHELLS"

datatype lockout_error = WouldLockOut

fun action_keeps_login :: "action \<Rightarrow> bool" where
  "action_keeps_login (ActCreate a) = is_login_capable_shell (ra_shell a)"
| "action_keeps_login (ActUpdate a _) = is_login_capable_shell (ra_shell a)"
| "action_keeps_login (ActDelete _) = False"

definition surviving_login_accounts :: "plan \<Rightarrow> string list \<Rightarrow> nat" where
  "surviving_login_accounts p untouched =
     length (filter action_keeps_login (pl_actions p)) + length (filter is_login_capable_shell untouched)"

definition gate :: "plan \<Rightarrow> lockout_context \<Rightarrow> string list \<Rightarrow> lockout_error + unit" where
  "gate p ctx untouched =
     (if plan_is_empty p then Ok ()
      else if pl_actions p = [] then Ok ()
      else if lc_rescue_present ctx then Ok ()
      else if surviving_login_accounts p untouched > 0 then Ok ()
      else if lc_risk_acknowledged ctx then Ok ()
      else Err WouldLockOut)"

subsection \<open>Live sessions\<close>

record live_sessions =
  ls_names :: "string set"
  ls_uids :: "u32 set"

definition no_sessions :: live_sessions where
  "no_sessions = \<lparr>ls_names = {}, ls_uids = {}\<rparr>"

definition session_matches :: "live_sessions \<Rightarrow> string \<Rightarrow> u32 \<Rightarrow> bool" where
  "session_matches ls nm uid \<longleftrightarrow> nm \<in> ls_names ls \<or> uid \<in> ls_uids ls"

record session_entry =
  se_pam_user :: string
  se_uid :: u32

datatype session_error = SessIo path io_error | SessParse path string

definition sessions_live ::
    "(string \<Rightarrow> string + session_entry list) \<Rightarrow> io_error + file_view \<Rightarrow> path \<Rightarrow> session_error + live_sessions" where
  "sessions_live json_parse opened p =
     (case read_capped opened MAX_INPUT_FILE_BYTES of
        Err IoNotFound \<Rightarrow> Ok no_sessions
      | Err e \<Rightarrow> Err (SessIo p e)
      | Ok text \<Rightarrow>
          (case json_parse text of
             Err e \<Rightarrow> Err (SessParse p e)
           | Ok entries \<Rightarrow>
               Ok (fold (\<lambda>e ls. ls\<lparr>ls_names := insert (se_pam_user e) (ls_names ls),
                                   ls_uids := insert (se_uid e) (ls_uids ls)\<rparr>) entries no_sessions)))"

subsection \<open>Lemmas\<close>

lemma gate_Ok_iff:
  "gate p ctx untouched = Ok () \<longleftrightarrow>
     pl_actions p = [] \<or> lc_rescue_present ctx \<or> lc_risk_acknowledged ctx
     \<or> list_ex action_keeps_login (pl_actions p) \<or> list_ex is_login_capable_shell untouched"
proof -
  have "surviving_login_accounts p untouched > 0 \<longleftrightarrow>
      list_ex action_keeps_login (pl_actions p) \<or> list_ex is_login_capable_shell untouched"
    by (auto simp: surviving_login_accounts_def list_ex_iff filter_empty_conv)
  then show ?thesis by (auto simp: gate_def plan_is_empty_def)
qed

lemma sessions_fold:
  fixes ls :: live_sessions
  shows
  "ls_names (fold (\<lambda>e ls. ls\<lparr>ls_names := insert (se_pam_user e) (ls_names ls),
       ls_uids := insert (se_uid e) (ls_uids ls)\<rparr>) es ls) = se_pam_user ` set es \<union> ls_names ls"
  "ls_uids (fold (\<lambda>e ls. ls\<lparr>ls_names := insert (se_pam_user e) (ls_names ls),
       ls_uids := insert (se_uid e) (ls_uids ls)\<rparr>) es ls) = se_uid ` set es \<union> ls_uids ls"
  by (induction es arbitrary: ls) auto

subsection \<open>Properties\<close>

text \<open>
  A session registry that parses protects every session it lists: an account that
  matches an entry by name or by UID is live, and no other account is.
\<close>

theorem sessions_live_exact:
  assumes "read_capped opened MAX_INPUT_FILE_BYTES = Ok text" and "json_parse text = Ok entries"
  shows "\<exists>ls. sessions_live json_parse opened p = Ok ls
    \<and> (\<forall>nm uid. session_matches ls nm uid \<longleftrightarrow> (\<exists>e\<in>set entries. se_pam_user e = nm \<or> se_uid e = uid))"
  using assms
  by (auto simp: sessions_live_def session_matches_def sessions_fold no_sessions_def image_iff)

theorem sessions_live_exact_witness:
  "\<exists>ls. sessions_live (\<lambda>_. Ok [\<lparr>se_pam_user = ''oper'', se_uid = 9001\<rparr>])
       (Ok \<lparr>fv_reported = 2, fv_bytes = ''[]''\<rparr>) ''/run/tessera/sessions.json'' = Ok ls
    \<and> session_matches ls ''renamed'' 9001 \<and> \<not> session_matches ls ''dba'' 9002"
proof -
  have "read_capped (Ok \<lparr>fv_reported = 2, fv_bytes = ''[]''\<rparr>) MAX_INPUT_FILE_BYTES = Ok ''[]''"
    using read_capped_small [of "\<lparr>fv_reported = 2, fv_bytes = ''[]''\<rparr>" MAX_INPUT_FILE_BYTES]
    by (simp add: MAX_INPUT_FILE_BYTES_def)
  from sessions_live_exact [OF this, of "\<lambda>_. Ok [\<lparr>se_pam_user = ''oper'', se_uid = 9001\<rparr>]" _
      "''/run/tessera/sessions.json''"]
  show ?thesis by fastforce
qed

end
