(* ===== verification/Reconcile.thy ===== *)
theory Reconcile
  imports Gates Declaration Sudoers FileAccess
begin

text \<open>
  The pure parts of the apply orchestrator (\<^verbatim>\<open>src/apply.rs\<close>): deferring the deletion of
  accounts with a live session, the grants and paths an apply touches, and the registry records
  it leaves.
\<close>

subsection \<open>Live sessions\<close>

record deferred_delete =
  dd_name :: string
  dd_uid :: u32

definition is_deferred ::
    "(string, managed_account) btree \<Rightarrow> live_sessions \<Rightarrow> action \<Rightarrow> deferred_delete option" where
  "is_deferred managed_now live a =
     (case a of
        ActDelete nm \<Rightarrow>
          (case bt_get managed_now nm of
             None \<Rightarrow> None
           | Some r \<Rightarrow> if session_matches live nm (ma_uid r) then Some \<lparr>dd_name = nm, dd_uid = ma_uid r\<rparr> else None)
      | _ \<Rightarrow> None)"

text \<open>The deletions reported as having no record, which proceed.\<close>

definition unrecorded_deletes :: "(string, managed_account) btree \<Rightarrow> action list \<Rightarrow> string list" where
  "unrecorded_deletes managed_now as =
     List.map_filter (\<lambda>a. case a of ActDelete nm \<Rightarrow> if bt_has managed_now nm then None else Some nm | _ \<Rightarrow> None) as"

definition reconcile_live_sessions ::
    "plan \<Rightarrow> (string, managed_account) btree \<Rightarrow> live_sessions \<Rightarrow> plan \<times> deferred_delete list" where
  "reconcile_live_sessions p managed_now live =
     (p\<lparr>pl_actions := filter (\<lambda>a. is_deferred managed_now live a = None) (pl_actions p)\<rparr>,
      List.map_filter (is_deferred managed_now live) (pl_actions p))"

text \<open>A hash set is the list of its elements without duplicates.\<close>

definition deferred_group_names ::
    "deferred_delete list \<Rightarrow> (string, managed_account) btree \<Rightarrow> string list" where
  "deferred_group_names deferred managed_now =
     fold (\<lambda>d names.
       (let names1 = push_unique (dd_name d) names in
        case bt_get managed_now (dd_name d) of
          None \<Rightarrow> names1
        | Some r \<Rightarrow> extend_unique (ma_groups r) names1)) deferred []"

definition group_owned_by :: "string \<Rightarrow> (string, managed_account) btree \<Rightarrow> string \<Rightarrow> bool" where
  "group_owned_by account managed_now grp \<longleftrightarrow>
     account = grp \<or> (case bt_get managed_now account of Some m \<Rightarrow> grp \<in> set (ma_groups m) | None \<Rightarrow> False)"

definition retained_group :: "string list \<Rightarrow> group_action \<Rightarrow> bool" where
  "retained_group names ga = (case ga of GrpDelete nm \<Rightarrow> nm \<in> set names | _ \<Rightarrow> False)"

definition retain_group_actions :: "string list \<Rightarrow> group_action list \<Rightarrow> group_action list" where
  "retain_group_actions names gas = filter (\<lambda>ga. \<not> retained_group names ga) gas"

definition require_deferred :: "string list \<Rightarrow> (string, u32 option) btree \<Rightarrow> (string, u32 option) btree" where
  "require_deferred names required = fold (\<lambda>nm m. bt_or_insert nm None m) names required"

subsection \<open>The lockout gate's view\<close>

fun action_name :: "action \<Rightarrow> string" where
  "action_name (ActCreate a) = ra_name a"
| "action_name (ActUpdate a _) = ra_name a"
| "action_name (ActDelete nm) = nm"

definition untouched_login_shells :: "(string, managed_account) btree \<Rightarrow> action list \<Rightarrow> string list" where
  "untouched_login_shells managed_now as =
     map (\<lambda>(_, r). ma_shell r) (filter (\<lambda>(nm, _). nm \<notin> set (map action_name as)) managed_now)"

subsection \<open>Grants to revoke and paths to snapshot\<close>

definition resolved_from_managed :: "managed_file_grant \<Rightarrow> resolved_file_grant" where
  "resolved_from_managed g =
     \<lparr>rfg_path = mfg_path g, rfg_access = mfg_access g, rfg_recursive = mfg_recursive g,
      rfg_shape = shape_of \<lparr>fg_path = mfg_path g, fg_access = mfg_access g, fg_recursive = mfg_recursive g\<rparr>,
      rfg_sources = []\<rparr>"

definition removed_grants ::
    "string \<Rightarrow> resolved_file_grant list \<Rightarrow> (string, managed_account) btree \<Rightarrow> managed_file_grant list" where
  "removed_grants nm keep managed_now =
     (case bt_get managed_now nm of
        None \<Rightarrow> []
      | Some r \<Rightarrow> filter (\<lambda>m. mfg_path m \<notin> set (map rfg_path keep)) (ma_file_grants r))"

definition removed_group_grants ::
    "string \<Rightarrow> resolved_file_grant list \<Rightarrow> (string, managed_group) btree \<Rightarrow> managed_file_grant list" where
  "removed_group_grants nm keep managed_groups_now =
     (case bt_get managed_groups_now nm of
        None \<Rightarrow> []
      | Some r \<Rightarrow> filter (\<lambda>m. mfg_path m \<notin> set (map rfg_path keep)) (mg_file_grants r))"

definition push_paths :: "path list \<Rightarrow> path list \<Rightarrow> path list" where
  "push_paths new ps = fold push_path new ps"

definition action_removed_paths :: "(string, managed_account) btree \<Rightarrow> action \<Rightarrow> path list" where
  "action_removed_paths managed_now a =
     map mfg_path (case a of
        ActCreate t \<Rightarrow> removed_grants (ra_name t) (ra_file_grants t) managed_now
      | ActUpdate t _ \<Rightarrow> removed_grants (ra_name t) (ra_file_grants t) managed_now
      | ActDelete nm \<Rightarrow> removed_grants nm [] managed_now)"

definition file_access_touched_paths ::
    "plan \<Rightarrow> resolved_account list \<Rightarrow> (string, managed_account) btree \<Rightarrow> path list" where
  "file_access_touched_paths p targets managed_now =
     fold (\<lambda>a. push_paths (action_removed_paths managed_now a)) (pl_actions p)
       (fold (\<lambda>t. push_paths (map rfg_path (ra_file_grants t))) targets [])"

definition resolved_group_by_name :: "resolved_group list \<Rightarrow> string \<Rightarrow> resolved_group option" where
  "resolved_group_by_name groups nm = find (\<lambda>g. rg_name g = nm) groups"

fun group_action_name :: "group_action \<Rightarrow> string" where
  "group_action_name (GrpCreate nm _) = nm"
| "group_action_name (GrpAdopt nm) = nm"
| "group_action_name (GrpUpdate nm _) = nm"
| "group_action_name (GrpRelease nm) = nm"
| "group_action_name (GrpDelete nm) = nm"

definition touched_group_sudoers_paths :: "group_action list \<Rightarrow> node \<Rightarrow> node list" where
  "touched_group_sudoers_paths rgas sudoers_dir =
     extend_unique (map (\<lambda>ga. sudoers_group_path sudoers_dir (group_action_name ga)) rgas) []"

text \<open>Whether an action applies a group's grants (rather than tearing them down).\<close>

fun applies_grants :: "group_action \<Rightarrow> bool" where
  "applies_grants (GrpCreate _ _) = True"
| "applies_grants (GrpAdopt _) = True"
| "applies_grants (GrpUpdate _ _) = True"
| "applies_grants (GrpRelease _) = False"
| "applies_grants (GrpDelete _) = False"

definition group_action_paths ::
    "resolved_group list \<Rightarrow> (string, managed_group) btree \<Rightarrow> group_action \<Rightarrow> path list" where
  "group_action_paths groups managed_groups_now ga =
     (let nm = group_action_name ga in
      if applies_grants ga
      then (let keep = (case resolved_group_by_name groups nm of Some g \<Rightarrow> rg_file_grants g | None \<Rightarrow> []) in
            map rfg_path keep @ map mfg_path (removed_group_grants nm keep managed_groups_now))
      else map mfg_path (removed_group_grants nm [] managed_groups_now))"

definition group_file_access_touched_paths ::
    "group_action list \<Rightarrow> resolved_group list \<Rightarrow> (string, managed_group) btree \<Rightarrow> path list" where
  "group_file_access_touched_paths rgas groups managed_groups_now =
     fold (\<lambda>ga. push_paths (group_action_paths groups managed_groups_now ga)) rgas []"

definition members_added_of :: "string \<Rightarrow> (string, managed_group) btree \<Rightarrow> string list" where
  "members_added_of nm managed_groups_now =
     (case bt_get managed_groups_now nm of Some g \<Rightarrow> mg_members_added g | None \<Rightarrow> [])"

definition touched_sudoers_paths :: "plan \<Rightarrow> node \<Rightarrow> node list" where
  "touched_sudoers_paths p sudoers_dir =
     extend_unique (map (\<lambda>a. node_join sudoers_dir (sudoers_filename (action_name a))) (pl_actions p)) []"

subsection \<open>Registry records\<close>

definition groups_equal :: "string list \<Rightarrow> string list \<Rightarrow> bool" where
  "groups_equal a b = sorted_equal a b"

definition file_grants_equal :: "managed_file_grant list \<Rightarrow> resolved_file_grant list \<Rightarrow> bool" where
  "file_grants_equal m t = file_grants_set_equal m t"

definition account_unchanged :: "resolved_account \<Rightarrow> managed_account \<Rightarrow> bool" where
  "account_unchanged t e \<longleftrightarrow>
     ma_uid e = ra_uid t \<and> ma_shell e = ra_shell t \<and> groups_equal (ma_groups e) (ra_groups t)
     \<and> ma_sudo_role e = ra_sudo_role t \<and> sudo_set_equal (ma_sudo_commands e) (ra_sudo_commands t)
     \<and> file_grants_equal (ma_file_grants e) (ra_file_grants t)"

definition account_record ::
    "u32 \<Rightarrow> (string, managed_account) btree \<Rightarrow> resolved_account \<Rightarrow> managed_account" where
  "account_record version current t =
     \<lparr>ma_name = ra_name t, ma_uid = ra_uid t, ma_shell = ra_shell t, ma_groups = ra_groups t,
      ma_sudo_role = ra_sudo_role t, ma_sudo_commands = ra_sudo_commands t,
      ma_file_grants = map from_resolved (ra_file_grants t), ma_provenance = Created,
      ma_from_version =
        (case bt_get current (ra_name t) of
           Some e \<Rightarrow> if account_unchanged t e then ma_from_version e else version
         | None \<Rightarrow> version)\<rparr>"

definition build_managed_set ::
    "resolved_account list \<Rightarrow> u32 \<Rightarrow> (string, managed_account) btree \<Rightarrow> deferred_delete list \<Rightarrow> managed_account list" where
  "build_managed_set targets version current deferred =
     map (account_record version current) targets
     @ List.map_filter (\<lambda>d. bt_get current (dd_name d)) deferred"

definition carry_groups ::
    "(string, u32 option) btree \<Rightarrow> (string, managed_group) btree \<Rightarrow> (string, managed_group) btree" where
  "carry_groups required prior = bt_collect (filter (\<lambda>(nm, _). bt_has required nm) prior)"

definition or_gid :: "u32 option \<Rightarrow> u32 option \<Rightarrow> u32 option" where
  "or_gid a b = (case a of Some g \<Rightarrow> Some g | None \<Rightarrow> b)"

definition add_created_group ::
    "u32 \<Rightarrow> inspector \<Rightarrow> string \<times> u32 option \<Rightarrow> (string, managed_group) btree \<Rightarrow> (string, managed_group) btree" where
  "add_created_group version insp np by_name =
     (case np of (nm, pin) \<Rightarrow>
        if bt_has by_name nm then by_name
        else bt_insert nm
          \<lparr>mg_name = nm, mg_gid = or_gid pin (map_option gf_gid (si_group insp nm)), mg_provenance = Created,
           mg_members_added = [], mg_sudo_commands = [], mg_file_grants = [], mg_adopt_baseline = None,
           mg_from_version = version\<rparr> by_name)"

definition group_unchanged :: "resolved_group \<Rightarrow> managed_group \<Rightarrow> bool" where
  "group_unchanged rg p \<longleftrightarrow>
     mg_provenance p = rg_provenance rg \<and> sudo_set_equal (mg_sudo_commands p) (rg_sudo_commands rg)
     \<and> groups_equal (mg_members_added p) (rg_members rg)
     \<and> file_grants_set_equal (mg_file_grants p) (rg_file_grants rg)"

definition group_record ::
    "(string, managed_group) btree \<Rightarrow> (string, group_baseline) btree \<Rightarrow> u32 \<Rightarrow> inspector \<Rightarrow> resolved_group \<Rightarrow> managed_group" where
  "group_record prior adopt_baselines version insp rg =
     (let prior_record = bt_get prior (rg_name rg) in
      \<lparr>mg_name = rg_name rg,
       mg_gid = or_gid (or_gid (rg_gid rg) (Option.bind prior_record mg_gid)) (map_option gf_gid (si_group insp (rg_name rg))),
       mg_provenance = rg_provenance rg,
       mg_members_added = rg_members rg,
       mg_sudo_commands = rg_sudo_commands rg,
       mg_file_grants = map from_resolved (rg_file_grants rg),
       mg_adopt_baseline =
         (case rg_provenance rg of
            Created \<Rightarrow> None
          | Adopted \<Rightarrow> (case bt_get adopt_baselines (rg_name rg) of
                Some b \<Rightarrow> Some b
              | None \<Rightarrow> Option.bind prior_record mg_adopt_baseline)),
       mg_from_version =
         (case prior_record of
            Some p \<Rightarrow> if group_unchanged rg p then mg_from_version p else version
          | None \<Rightarrow> version)\<rparr>)"

definition build_managed_groups ::
    "(string, u32 option) btree \<Rightarrow> resolved_group list \<Rightarrow> (string, managed_group) btree \<Rightarrow>
     (string \<times> u32 option) list \<Rightarrow> (string, group_baseline) btree \<Rightarrow> u32 \<Rightarrow> inspector \<Rightarrow> managed_group list" where
  "build_managed_groups required groups prior created adopt_baselines version insp =
     (let by_name = fold (add_created_group version insp) created (carry_groups required prior);
          by_name' = fold (\<lambda>rg m. bt_insert (rg_name rg) (group_record prior adopt_baselines version insp rg) m)
                       groups by_name
      in sort_key mg_name (bt_values by_name'))"

subsection \<open>What a reconciled plan holds\<close>

text \<open>A registry map whose records carry their keys, as loading a registry gives.\<close>

definition keyed :: "(string, managed_account) btree \<Rightarrow> bool" where
  "keyed m \<longleftrightarrow> bt_inv m \<and> list_all (\<lambda>(n, r). ma_name r = n) m"

definition record_index :: "managed_account list \<Rightarrow> (string, managed_account) btree" where
  "record_index ms = bt_collect (map (\<lambda>a. (ma_name a, a)) ms)"

definition has_session :: "(string, managed_account) btree \<Rightarrow> live_sessions \<Rightarrow> string \<Rightarrow> bool" where
  "has_session m live n \<longleftrightarrow> (case bt_get m n of Some r \<Rightarrow> session_matches live n (ma_uid r) | None \<Rightarrow> False)"

abbreviation dropped :: "resolved_account list \<Rightarrow> (string, managed_account) btree \<Rightarrow> string list" where
  "dropped ts m \<equiv> filter (\<lambda>n. n \<notin> set (map ra_name ts)) (bt_keys m)"

lemma keyed_inv: "keyed m \<Longrightarrow> bt_inv m"
  by (simp add: keyed_def)

lemma keyed_name: "keyed m \<Longrightarrow> bt_get m n = Some r \<Longrightarrow> ma_name r = n"
  by (auto simp: keyed_def list_all_iff dest!: bt_get_mem)

lemma is_deferred_Delete:
  "is_deferred m live (ActDelete n) =
     (if has_session m live n then Some \<lparr>dd_name = n, dd_uid = ma_uid (the (bt_get m n))\<rparr> else None)"
  by (auto simp: is_deferred_def has_session_def split: option.splits)

lemma is_deferred_other: "\<not> is_destructive a \<Longrightarrow> is_deferred m live a = None"
  by (cases a) (simp_all add: is_deferred_def)

lemma updates_not_deferred:
  "a \<in> set (concat (map (diff_target m) ts)) \<Longrightarrow> is_deferred m live a = None"
  by (auto intro!: is_deferred_other dest: diff_target_not_destructive)

lemma map_filter_Nil: "(\<And>x. x \<in> set xs \<Longrightarrow> f x = None) \<Longrightarrow> List.map_filter f xs = []"
  by (induction xs) (auto simp: List.map_filter_simps)

lemma map_filter_app: "List.map_filter f (xs @ ys) = List.map_filter f xs @ List.map_filter f ys"
  by (simp add: List.map_filter_def)

lemma reconcile_actions:
  "pl_actions (fst (reconcile_live_sessions (diff ts m) m live)) =
     concat (map (diff_target m) ts) @ map ActDelete (filter (\<lambda>n. \<not> has_session m live n) (dropped ts m))"
proof -
  have "filter (\<lambda>a. is_deferred m live a = None) (concat (map (diff_target m) ts)) = concat (map (diff_target m) ts)"
    using updates_not_deferred [of _ m ts live] by (simp only: filter_id_conv) blast
  moreover have "filter (\<lambda>a. is_deferred m live a = None) (map ActDelete ns)
      = map ActDelete (filter (\<lambda>n. \<not> has_session m live n) ns)" for ns
    by (induction ns) (simp_all add: is_deferred_Delete)
  ultimately show ?thesis by (simp add: reconcile_live_sessions_def diff_def)
qed

lemma reconcile_deferred:
  "snd (reconcile_live_sessions (diff ts m) m live) =
     map (\<lambda>n. \<lparr>dd_name = n, dd_uid = ma_uid (the (bt_get m n))\<rparr>) (filter (has_session m live) (dropped ts m))"
proof -
  have "List.map_filter (is_deferred m live) (concat (map (diff_target m) ts)) = []"
    by (rule map_filter_Nil) (rule updates_not_deferred)
  moreover have "List.map_filter (is_deferred m live) (map ActDelete ns)
      = map (\<lambda>n. \<lparr>dd_name = n, dd_uid = ma_uid (the (bt_get m n))\<rparr>) (filter (has_session m live) ns)" for ns
    by (induction ns) (simp_all add: is_deferred_Delete List.map_filter_simps)
  ultimately show ?thesis by (simp add: reconcile_live_sessions_def diff_def map_filter_app)
qed

lemma deferred_records:
  assumes "\<And>n. n \<in> set ns \<Longrightarrow> bt_has m n"
  shows "List.map_filter (\<lambda>d. bt_get m (dd_name d)) (map (\<lambda>n. \<lparr>dd_name = n, dd_uid = u n\<rparr>) ns)
     = map (\<lambda>n. the (bt_get m n)) ns"
  using assms
proof (induction ns)
  case Nil
  then show ?case by (simp add: List.map_filter_simps)
next
  case (Cons n ns)
  from Cons.prems [of n] obtain r where "bt_get m n = Some r" by (auto simp: bt_has_def)
  then show ?case using Cons by (simp add: List.map_filter_simps)
qed

lemma has_session_has: "has_session m live n \<Longrightarrow> bt_has m n"
  by (auto simp: has_session_def bt_has_def split: option.splits)

lemma managed_set_reconciled:
  "build_managed_set ts v m (snd (reconcile_live_sessions (diff ts m) m live)) =
     map (account_record v m) ts
     @ map (\<lambda>n. the (bt_get m n)) (filter (has_session m live) (dropped ts m))"
  unfolding build_managed_set_def reconcile_deferred
  by (subst deferred_records) (auto dest: has_session_has)

lemma managed_set_names:
  assumes "keyed m"
  shows "map ma_name (build_managed_set ts v m (snd (reconcile_live_sessions (diff ts m) m live))) =
     map ra_name ts @ filter (has_session m live) (dropped ts m)"
proof -
  have "ma_name (the (bt_get m n)) = n" if "has_session m live n" for n
    using has_session_has [OF that] keyed_name [OF assms, of n] by (auto simp: bt_has_def)
  then have "map (\<lambda>n. ma_name (the (bt_get m n))) (filter (has_session m live) ns) = filter (has_session m live) ns" for ns
    by (intro map_idI) simp
  then show ?thesis by (simp add: managed_set_reconciled comp_def account_record_def del: filter_filter)
qed

lemma account_record_in_sync: "account_in_sync t (account_record v m t)"
  using file_grants_set_equal_from_resolved [of "ra_file_grants t", unfolded file_grants_set_equal_mset]
  by (simp add: account_in_sync_def account_record_def)

lemma distinct_dropped: "bt_inv m \<Longrightarrow> sorted_wrt (<) (dropped ts m)"
  by (auto simp: bt_inv_def bt_keys_def intro: sorted_wrt_filter)

lemma managed_set_distinct:
  assumes "keyed m" and "distinct (map ra_name ts)"
  shows "distinct (map ma_name (build_managed_set ts v m (snd (reconcile_live_sessions (diff ts m) m live))))"
proof -
  have "distinct (dropped ts m)"
    using distinct_dropped [OF keyed_inv [OF assms(1)]] strict_sorted_iff by blast
  then have "distinct (filter (has_session m live) (dropped ts m))" by (rule distinct_filter)
  then show ?thesis using assms(2) by (auto simp: managed_set_names [OF assms(1)] simp del: filter_filter)
qed

lemma record_index_inv [simp]: "bt_inv (record_index ms)"
  by (simp add: record_index_def)

lemma record_index_get:
  assumes "distinct (map ma_name ms)" and "r \<in> set ms"
  shows "bt_get (record_index ms) (ma_name r) = Some r"
proof -
  have d: "distinct (map fst (map (\<lambda>a. (ma_name a, a)) ms))" using assms(1) by (simp add: comp_def)
  have "map_of (map (\<lambda>a. (ma_name a, a)) ms) (ma_name r) = Some r"
    using d assms(2) by (intro map_of_is_SomeI) auto
  then show ?thesis using d by (simp add: record_index_def bt_collect_get)
qed

lemma record_index_keys: "distinct (map ma_name ms) \<Longrightarrow> set (bt_keys (record_index ms)) = set (map ma_name ms)"
proof -
  assume "distinct (map ma_name ms)"
  then have "bt_has (record_index ms) n \<longleftrightarrow> n \<in> set (map ma_name ms)" for n
    by (auto simp: record_index_def bt_has_def bt_collect_get comp_def dest!: map_of_SomeD
        intro!: weak_map_of_SomeI)
  then show ?thesis by (auto simp: bt_has_iff)
qed

lemma sorted_keys: "bt_inv m \<Longrightarrow> sorted_wrt (<) (bt_keys m)"
  by (simp add: bt_inv_def bt_keys_def)

lemma strict_sorted_unique:
  fixes xs ys :: "('a :: linorder) list"
  assumes "sorted_wrt (<) xs" and "sorted_wrt (<) ys" and "set xs = set ys"
  shows "xs = ys"
  using assms sorted_distinct_set_unique [of xs ys] by (simp add: strict_sorted_iff)

lemma replan_deletes:
  assumes "keyed m" and "distinct (map ra_name ts)"
    and "ms = build_managed_set ts v m (snd (reconcile_live_sessions (diff ts m) m live))"
  shows "dropped ts (record_index ms) = filter (has_session m live) (dropped ts m)"
proof (rule strict_sorted_unique)
  have d: "distinct (map ma_name ms)" using managed_set_distinct [OF assms(1,2)] assms(3) by simp
  show "sorted_wrt (<) (dropped ts (record_index ms))"
    by (intro sorted_wrt_filter sorted_keys record_index_inv)
  show "sorted_wrt (<) (filter (has_session m live) (dropped ts m))"
    by (intro sorted_wrt_filter sorted_keys keyed_inv assms(1))
  have "set (bt_keys (record_index ms)) = set (map ra_name ts @ filter (has_session m live) (dropped ts m))"
    using record_index_keys [OF d] managed_set_names [OF assms(1), of ts v live] assms(3) by simp
  then show "set (dropped ts (record_index ms)) = set (filter (has_session m live) (dropped ts m))" by auto
qed

subsection \<open>Properties\<close>

text \<open>
  no account with a live session is deleted or forgotten.  Whatever the declaration
  drops, the reconciled plan deletes exactly the dropped accounts without a live session; an
  account with one is reported as deferred and stays in the registry with the very record it
  had, while the registry loses exactly the accounts that are deleted.
\<close>

theorem live_sessions_kept:
  assumes "keyed m" and "reconcile_live_sessions (diff ts m) m live = (p, ds)"
  shows "(ActDelete n \<in> set (pl_actions p) \<longleftrightarrow>
            bt_has m n \<and> n \<notin> set (map ra_name ts) \<and> \<not> has_session m live n)
    \<and> (n \<in> set (map dd_name ds) \<longleftrightarrow> n \<notin> set (map ra_name ts) \<and> has_session m live n)
    \<and> (n \<in> set (map dd_name ds) \<longrightarrow> (\<exists>r. bt_get m n = Some r \<and> r \<in> set (build_managed_set ts v m ds)))
    \<and> (bt_has m n \<longrightarrow> (n \<in> set (map ma_name (build_managed_set ts v m ds)) \<longleftrightarrow> ActDelete n \<notin> set (pl_actions p)))"
proof -
  have p: "p = fst (reconcile_live_sessions (diff ts m) m live)" and ds: "ds = snd (reconcile_live_sessions (diff ts m) m live)"
    using assms(2) by simp_all
  have del: "ActDelete n \<in> set (pl_actions p) \<longleftrightarrow>
            bt_has m n \<and> n \<notin> set (map ra_name ts) \<and> \<not> has_session m live n"
    unfolding p reconcile_actions by (auto simp: diff_target_mem bt_has_iff)
  have def: "n \<in> set (map dd_name ds) \<longleftrightarrow> n \<notin> set (map ra_name ts) \<and> has_session m live n"
    unfolding ds reconcile_deferred using has_session_has [of m live n] by (auto simp: bt_has_iff image_iff)
  have "\<exists>r. bt_get m n = Some r \<and> r \<in> set (build_managed_set ts v m ds)" if "n \<in> set (map dd_name ds)"
  proof -
    from that def have s: "n \<notin> set (map ra_name ts)" "has_session m live n" by simp_all
    with has_session_has [of m live n] obtain r where "bt_get m n = Some r" by (auto simp: bt_has_def)
    moreover have "n \<in> set (filter (has_session m live) (dropped ts m))"
      using s has_session_has [of m live n] by (simp add: bt_has_iff)
    ultimately show ?thesis unfolding ds managed_set_reconciled by force
  qed
  moreover have "n \<in> set (map ma_name (build_managed_set ts v m ds)) \<longleftrightarrow> ActDelete n \<notin> set (pl_actions p)"
    if "bt_has m n"
    using that unfolding del ds managed_set_names [OF assms(1)] by (auto simp: bt_has_iff)
  ultimately show ?thesis using del def by blast
qed

lemma sample_managed_keyed: "keyed sample_managed"
  by (simp add: keyed_def sample_managed_def bt_inv_def sample_registry_file_def)

definition sample_live :: live_sessions where
  "sample_live = \<lparr>ls_names = {''oper''}, ls_uids = {}\<rparr>"

theorem live_sessions_kept_witness:
  "\<exists>p ds. reconcile_live_sessions (diff [] sample_managed) sample_managed sample_live = (p, ds)
     \<and> ActDelete ''oper'' \<notin> set (pl_actions p) \<and> map dd_name ds = [''oper'']
     \<and> ''oper'' \<in> set (map ma_name (build_managed_set [] 2 sample_managed ds))"
proof -
  obtain p ds where r: "reconcile_live_sessions (diff [] sample_managed) sample_managed sample_live = (p, ds)"
    by fastforce
  have s: "has_session sample_managed sample_live ''oper''" "bt_has sample_managed ''oper''"
    by (simp_all add: has_session_def bt_has_def bt_get_def sample_managed_def session_matches_def sample_live_def)
  have "map dd_name (snd (reconcile_live_sessions (diff [] sample_managed) sample_managed sample_live)) = [''oper'']"
    using s(1) by (simp add: reconcile_deferred bt_keys_def sample_managed_def)
  then have "map dd_name ds = [''oper'']" using r by simp
  then show ?thesis
    using r s live_sessions_kept [OF sample_managed_keyed r, of "''oper''" 2] by auto
qed

text \<open>
  C23: an apply converges.  When the accounts it records are read back, planning the same
  targets again asks for nothing but the deletions that were deferred.
\<close>

theorem apply_converges:
  assumes "keyed m" and "distinct (map ra_name ts)" and "reconcile_live_sessions (diff ts m) m live = (p, ds)"
  shows "pl_actions (diff ts (record_index (build_managed_set ts v m ds))) = map (\<lambda>d. ActDelete (dd_name d)) ds"
proof -
  have ds: "ds = snd (reconcile_live_sessions (diff ts m) m live)" using assms(3) by simp
  let ?ms = "build_managed_set ts v m ds"
  have d: "distinct (map ma_name ?ms)" unfolding ds by (rule managed_set_distinct [OF assms(1,2)])
  have "diff_target (record_index ?ms) t = []" if "t \<in> set ts" for t
  proof -
    have "account_record v m t \<in> set ?ms" using that by (simp add: build_managed_set_def)
    from record_index_get [OF d this] have "bt_get (record_index ?ms) (ra_name t) = Some (account_record v m t)"
      by (simp add: account_record_def)
    then show ?thesis
      using account_record_in_sync [of t v m] by (simp add: diff_target_def diff_fields_Nil)
  qed
  then have "concat (map (diff_target (record_index ?ms)) ts) = []" by simp
  moreover have "dropped ts (record_index ?ms) = filter (has_session m live) (dropped ts m)"
    by (rule replan_deletes [OF assms(1,2)]) (simp add: ds)
  ultimately have "pl_actions (diff ts (record_index ?ms)) = map ActDelete (filter (has_session m live) (dropped ts m))"
    by (simp add: diff_def del: filter_filter)
  then show ?thesis by (simp add: ds reconcile_deferred comp_def del: filter_filter)
qed

theorem apply_converges_witness:
  "\<exists>p ds. reconcile_live_sessions (diff [sample_account] sample_managed) sample_managed sample_live = (p, ds)
     \<and> pl_actions (diff [sample_account] (record_index (build_managed_set [sample_account] 2 sample_managed ds)))
         = map (\<lambda>d. ActDelete (dd_name d)) ds"
proof -
  obtain p ds where r: "reconcile_live_sessions (diff [sample_account] sample_managed) sample_managed sample_live = (p, ds)"
    by fastforce
  have "distinct (map ra_name [sample_account])" by simp
  from apply_converges [OF sample_managed_keyed this r, of 2] r show ?thesis by blast
qed

lemma diff_target_acts:
  "diff_target m t = [] \<longleftrightarrow> (\<exists>c. bt_get m (ra_name t) = Some c \<and> account_in_sync t c)"
  by (auto simp: diff_target_def Let_def diff_fields_Nil split: option.splits)

lemma diff_target_name: "a \<in> set (diff_target m t) \<Longrightarrow> action_name a = ra_name t"
  by (auto simp: diff_target_mem)

lemma diff_target_login:
  "list_ex action_keeps_login (diff_target m t) \<longleftrightarrow> diff_target m t \<noteq> [] \<and> is_login_capable_shell (ra_shell t)"
  by (auto simp: diff_target_def Let_def split: option.splits)

lemma reconciled_login:
  assumes "reconcile_live_sessions (diff ts m) m live = (p, ds)"
  shows "list_ex action_keeps_login (pl_actions p) \<longleftrightarrow>
    (\<exists>t\<in>set ts. diff_target m t \<noteq> [] \<and> is_login_capable_shell (ra_shell t))"
proof -
  have as: "pl_actions p = concat (map (diff_target m) ts) @ map ActDelete (filter (\<lambda>n. \<not> has_session m live n) (dropped ts m))"
    using reconcile_actions [of ts m live] assms by simp
  have "list_ex action_keeps_login (concat (map (diff_target m) ts)) \<longleftrightarrow>
      (\<exists>t\<in>set ts. list_ex action_keeps_login (diff_target m t))" by (auto simp: list_ex_iff)
  moreover have "\<not> list_ex action_keeps_login (map ActDelete ns)" for ns by (simp add: list_ex_iff)
  ultimately show ?thesis by (simp add: as diff_target_login del: filter_filter)
qed

lemma reconciled_untouched:
  assumes "keyed m" and "distinct (map ra_name ts)" and "reconcile_live_sessions (diff ts m) m live = (p, ds)"
    and "bt_get m n = Some r"
  shows "n \<notin> set (map action_name (pl_actions p)) \<longleftrightarrow>
    (\<exists>t\<in>set ts. ra_name t = n \<and> diff_target m t = []) \<or> n \<notin> set (map ra_name ts) \<and> has_session m live n"
proof -
  have as: "pl_actions p = concat (map (diff_target m) ts) @ map ActDelete (filter (\<lambda>n. \<not> has_session m live n) (dropped ts m))"
    using reconcile_actions [of ts m live] assms(3) by simp
  have acted: "n \<in> action_name ` set (concat (map (diff_target m) ts)) \<longleftrightarrow>
      (\<exists>t\<in>set ts. ra_name t = n \<and> diff_target m t \<noteq> [])"
  proof
    assume "n \<in> action_name ` set (concat (map (diff_target m) ts))"
    then obtain t a where a: "t \<in> set ts" "a \<in> set (diff_target m t)" "n = action_name a" by auto
    then have "diff_target m t \<noteq> []" by (cases "diff_target m t") simp_all
    then show "\<exists>t\<in>set ts. ra_name t = n \<and> diff_target m t \<noteq> []" using a diff_target_name [OF a(2)] by auto
  next
    assume "\<exists>t\<in>set ts. ra_name t = n \<and> diff_target m t \<noteq> []"
    then obtain t where t: "t \<in> set ts" "ra_name t = n" "diff_target m t \<noteq> []" by blast
    then have h: "hd (diff_target m t) \<in> set (diff_target m t)" by simp
    then show "n \<in> action_name ` set (concat (map (diff_target m) ts))"
      using t diff_target_name [OF h] by (intro image_eqI [of _ _ "hd (diff_target m t)"]) (auto intro: bexI [of _ t])
  qed
  have deleted: "n \<in> action_name ` set (map ActDelete (filter (\<lambda>n. \<not> has_session m live n) (dropped ts m))) \<longleftrightarrow>
      n \<notin> set (map ra_name ts) \<and> \<not> has_session m live n"
  proof -
    have "n \<in> set (bt_keys m)" using assms(4) by (simp add: bt_has_iff [symmetric] bt_has_def)
    then show ?thesis by (auto simp: image_iff)
  qed
  have one: "t = u" if "t \<in> set ts" "u \<in> set ts" "ra_name t = ra_name u" for t u
    using that assms(2) by (auto simp: distinct_map dest: inj_onD)
  have "n \<in> set (map action_name (pl_actions p)) \<longleftrightarrow>
      (\<exists>t\<in>set ts. ra_name t = n \<and> diff_target m t \<noteq> []) \<or> n \<notin> set (map ra_name ts) \<and> \<not> has_session m live n"
    unfolding as by (simp only: map_append set_append set_map [of action_name] Un_iff acted deleted)
  note named = this
  show ?thesis
  proof (cases "n \<in> set (map ra_name ts)")
    case True
    then obtain t where t: "t \<in> set ts" "ra_name t = n" by auto
    have "(\<exists>u\<in>set ts. ra_name u = n \<and> Q u) \<longleftrightarrow> Q t" for Q using one [OF _ t(1)] t by metis
    then show ?thesis using named True by simp
  next
    case False
    then have "ra_name t \<noteq> n" if "t \<in> set ts" for t using that by auto
    then show ?thesis using named False by auto
  qed
qed

lemma untouched_login_iff:
  "bt_inv m \<Longrightarrow> list_ex is_login_capable_shell (untouched_login_shells m as) \<longleftrightarrow>
     (\<exists>n r. bt_get m n = Some r \<and> n \<notin> set (map action_name as) \<and> is_login_capable_shell (ma_shell r))"
  by (fastforce simp: untouched_login_shells_def list_ex_iff bt_get_iff_mem)

lemma new_login_iff:
  assumes "keyed m" and "distinct (map ra_name ts)" and "reconcile_live_sessions (diff ts m) m live = (p, ds)"
  shows "list_ex action_keeps_login (pl_actions p) \<or> list_ex is_login_capable_shell (untouched_login_shells m (pl_actions p))
     \<longleftrightarrow> list_ex (\<lambda>r. is_login_capable_shell (ma_shell r)) (build_managed_set ts v m ds)"
proof -
  let ?login = "\<lambda>r. is_login_capable_shell (ma_shell r)"
  have new: "build_managed_set ts v m ds = map (account_record v m) ts
     @ map (\<lambda>n. the (bt_get m n)) (filter (has_session m live) (dropped ts m))"
    using managed_set_reconciled [of ts v m live] assms(3) by simp
  have "list_ex ?login (build_managed_set ts v m ds) \<longleftrightarrow>
      (\<exists>t\<in>set ts. is_login_capable_shell (ra_shell t))
      \<or> (\<exists>n r. bt_get m n = Some r \<and> n \<notin> set (map ra_name ts) \<and> has_session m live n \<and> ?login r)"
  proof -
    have "list_ex ?login (map (account_record v m) ts) \<longleftrightarrow> (\<exists>t\<in>set ts. is_login_capable_shell (ra_shell t))"
      by (simp add: list_ex_iff account_record_def)
    moreover have "list_ex ?login (map (\<lambda>n. the (bt_get m n)) (filter (has_session m live) (dropped ts m))) \<longleftrightarrow>
      (\<exists>n r. bt_get m n = Some r \<and> n \<notin> set (map ra_name ts) \<and> has_session m live n \<and> ?login r)"
    proof -
      have "n \<in> set (bt_keys m) \<longleftrightarrow> (\<exists>r. bt_get m n = Some r)" for n
        using bt_has_iff [of m n] by (auto simp: bt_has_def)
      then show ?thesis by (simp add: list_ex_iff Bex_def) (metis option.sel)
    qed
    ultimately show ?thesis by (simp add: new del: filter_filter)
  qed
  moreover have "list_ex is_login_capable_shell (untouched_login_shells m (pl_actions p)) \<longleftrightarrow>
      (\<exists>t\<in>set ts. diff_target m t = [] \<and> is_login_capable_shell (ra_shell t))
      \<or> (\<exists>n r. bt_get m n = Some r \<and> n \<notin> set (map ra_name ts) \<and> has_session m live n \<and> ?login r)"
    (is "?unt \<longleftrightarrow> ?sync \<or> ?kept")
  proof
    assume ?unt
    then obtain n r where r: "bt_get m n = Some r" "n \<notin> set (map action_name (pl_actions p))" "?login r"
      unfolding untouched_login_iff [OF keyed_inv [OF assms(1)]] by blast
    from reconciled_untouched [OF assms r(1)] r(2)
    consider t where "t \<in> set ts" "ra_name t = n" "diff_target m t = []"
      | "n \<notin> set (map ra_name ts)" "has_session m live n" by blast
    then show "?sync \<or> ?kept"
    proof cases
      case 1
      then have "ra_shell t = ma_shell r" using r(1) by (auto simp: diff_target_acts account_in_sync_def)
      then have ?sync using 1 r(3) by auto
      then show ?thesis ..
    next
      case 2
      then show ?thesis using r by blast
    qed
  next
    assume "?sync \<or> ?kept"
    then show ?unt
    proof
      assume ?sync
      then obtain t c where t: "t \<in> set ts" "diff_target m t = []" "is_login_capable_shell (ra_shell t)"
        "bt_get m (ra_name t) = Some c" "account_in_sync t c" by (auto simp: diff_target_acts)
      then have "?login c" by (simp add: account_in_sync_def)
      moreover have "ra_name t \<notin> set (map action_name (pl_actions p))"
        using reconciled_untouched [OF assms t(4)] t(1,2) by blast
      ultimately show ?unt unfolding untouched_login_iff [OF keyed_inv [OF assms(1)]] using t(4) by blast
    next
      assume ?kept
      then obtain n r where r: "bt_get m n = Some r" "n \<notin> set (map ra_name ts)" "has_session m live n" "?login r"
        by blast
      then have "n \<notin> set (map action_name (pl_actions p))" using reconciled_untouched [OF assms r(1)] by blast
      then show ?unt unfolding untouched_login_iff [OF keyed_inv [OF assms(1)]] using r by blast
    qed
  qed
  ultimately show ?thesis using reconciled_login [OF assms(3)] by blast
qed

text \<open>
  C24: the anti-lockout gate measures what will be left.  Given the plan as apply reconciles
  it and the shells of the accounts it leaves alone, the gate passes iff no account changes, a
  rescue account exists, the risk is acknowledged, or at least one account of the registry the
  apply would write has a login-capable shell.
\<close>

theorem gate_survivor:
  assumes "keyed m" and "distinct (map ra_name ts)" and "reconcile_live_sessions (diff ts m) m live = (p, ds)"
  shows "gate p ctx (untouched_login_shells m (pl_actions p)) = Ok () \<longleftrightarrow>
    pl_actions p = [] \<or> lc_rescue_present ctx \<or> lc_risk_acknowledged ctx
    \<or> list_ex (\<lambda>r. is_login_capable_shell (ma_shell r)) (build_managed_set ts v m ds)"
  using new_login_iff [OF assms, of v] by (simp add: gate_Ok_iff)

theorem gate_survivor_witness:
  "\<exists>p ds. reconcile_live_sessions (diff [] sample_managed) sample_managed no_sessions = (p, ds)
     \<and> gate p \<lparr>lc_rescue_present = False, lc_risk_acknowledged = False\<rparr>
         (untouched_login_shells sample_managed (pl_actions p)) \<noteq> Ok ()"
proof -
  obtain p ds where r: "reconcile_live_sessions (diff [] sample_managed) sample_managed no_sessions = (p, ds)"
    by fastforce
  have p: "pl_actions p = [ActDelete ''oper'']" and ds: "ds = []"
    using r by (simp_all add: reconcile_live_sessions_def diff_def bt_keys_def sample_managed_def is_deferred_def
        bt_get_def session_matches_def no_sessions_def List.map_filter_simps, auto)
  have "distinct (map ra_name [])" by simp
  from gate_survivor [OF sample_managed_keyed this r, of "\<lparr>lc_rescue_present = False, lc_risk_acknowledged = False\<rparr>" 1]
  have "gate p \<lparr>lc_rescue_present = False, lc_risk_acknowledged = False\<rparr> (untouched_login_shells sample_managed (pl_actions p)) \<noteq> Ok ()"
    by (simp add: p ds build_managed_set_def List.map_filter_simps)
  with r show ?thesis by blast
qed

end
