(* ===== verification/Permission.thy ===== *)
theory Permission
  imports Declaration
begin

text \<open>
  The catalog's data model (\<^verbatim>\<open>src/catalog.rs\<close>): risk, list overrides, parameter constraints,
  permission records with the checks they pass when they are read, operating-system targets and
  their layer chain, catalog sources, and the resolved permission.  A fixed rejection message is
  a constructor.
\<close>

subsection \<open>Risk and list overrides\<close>

datatype risk = Contained | EscalationCapable

fun risk_rank :: "risk \<Rightarrow> nat" where
  "risk_rank Contained = 0"
| "risk_rank EscalationCapable = 1"

definition risk_max :: "risk \<Rightarrow> risk \<Rightarrow> risk" where
  "risk_max a b = (if risk_rank b > risk_rank a then b else a)"

datatype list_override = LoReplace "string list" | LoAppend "string list"

fun lo_values :: "list_override \<Rightarrow> string list" where
  "lo_values (LoReplace vs) = vs"
| "lo_values (LoAppend vs) = vs"

datatype raw_list = RawBare "string list" | RawAppend "string list"

definition list_override_deserialize :: "raw_list \<Rightarrow> list_override" where
  "list_override_deserialize r = (case r of RawBare v \<Rightarrow> LoReplace v | RawAppend a \<Rightarrow> LoAppend a)"

definition list_override_default :: list_override where
  "list_override_default = LoAppend []"

subsection \<open>Parameter constraints\<close>

definition PARAM_DEFAULT_MAX_LEN :: nat where "PARAM_DEFAULT_MAX_LEN = 256"
definition PARAM_PATH_DENY_GLOB_DEFAULT :: bool where "PARAM_PATH_DENY_GLOB_DEFAULT = True"

datatype param_constraint =
  PcToken "nat option"
| PcPath "string list" "bool option" "nat option"
| PcEnum "string list"
| PcSegment "nat option"

datatype constraint_reason =
  AllowPrefixEmpty | AllowPrefixRelative | AllowPrefixNoDirectory | EnumEmpty

datatype value_reason =
  TokenEmpty | TokenTooLong | TokenCharset
| PathTooLong | PathNotUnderPrefix | PathGlob
| NotInEnum
| SegmentEmpty | SegmentTooLong | SegmentDots | SegmentCharset
| NoConstraint

definition TOKEN_EXTRA_CHARS :: string where
  "TOKEN_EXTRA_CHARS = ''-_.@:'' @ [CHR 0x5C] @ ''/''"

definition SEGMENT_EXTRA_CHARS :: string where
  "SEGMENT_EXTRA_CHARS = ''._-''"

definition unwrap_or :: "'a option \<Rightarrow> 'a \<Rightarrow> 'a" where
  "unwrap_or x d = (case x of Some y \<Rightarrow> y | None \<Rightarrow> d)"

definition path_at_or_under :: "string \<Rightarrow> string \<Rightarrow> bool" where
  "path_at_or_under parent child =
     (let p = (if ends_with parent ''/'' then butlast parent else parent) in
      p = child \<or> (case strip_prefix child p of Some rest \<Rightarrow> starts_with rest ''/'' | None \<Rightarrow> False))"

definition declaration_defect :: "param_constraint \<Rightarrow> constraint_reason option" where
  "declaration_defect c =
     (case c of
        PcToken _ \<Rightarrow> None
      | PcPath allow_prefix _ _ \<Rightarrow>
          if allow_prefix = [] then Some AllowPrefixEmpty
          else if list_ex (\<lambda>p. \<not> starts_with p ''/'') allow_prefix then Some AllowPrefixRelative
          else if list_ex (\<lambda>p. \<not> ends_with p ''/'') allow_prefix then Some AllowPrefixNoDirectory
          else None
      | PcEnum vals \<Rightarrow> if vals = [] then Some EnumEmpty else None
      | PcSegment _ \<Rightarrow> None)"

fun normalized :: "param_constraint \<Rightarrow> param_constraint" where
  "normalized (PcToken n) = PcToken (Some (unwrap_or n PARAM_DEFAULT_MAX_LEN))"
| "normalized (PcPath ps g n) =
     PcPath ps (Some (unwrap_or g PARAM_PATH_DENY_GLOB_DEFAULT)) (Some (unwrap_or n PARAM_DEFAULT_MAX_LEN))"
| "normalized (PcEnum vs) = PcEnum vs"
| "normalized (PcSegment n) = PcSegment (Some (unwrap_or n PARAM_DEFAULT_MAX_LEN))"

definition value_defect :: "param_constraint \<Rightarrow> string \<Rightarrow> value_reason option" where
  "value_defect c v =
     (case c of
        PcToken max_len \<Rightarrow>
          if v = [] then Some TokenEmpty
          else if length v > unwrap_or max_len PARAM_DEFAULT_MAX_LEN then Some TokenTooLong
          else if list_ex (\<lambda>c. \<not> (is_ascii_alphanumeric c \<or> c \<in> set TOKEN_EXTRA_CHARS)) v then Some TokenCharset
          else None
      | PcPath allow_prefix deny_glob max_len \<Rightarrow>
          if length v > unwrap_or max_len PARAM_DEFAULT_MAX_LEN then Some PathTooLong
          else if \<not> list_ex (\<lambda>p. path_at_or_under p v) allow_prefix then Some PathNotUnderPrefix
          else if unwrap_or deny_glob PARAM_PATH_DENY_GLOB_DEFAULT \<and> has_glob_metachar v then Some PathGlob
          else None
      | PcEnum vals \<Rightarrow> if v \<in> set vals then None else Some NotInEnum
      | PcSegment max_len \<Rightarrow>
          if v = [] then Some SegmentEmpty
          else if length v > unwrap_or max_len PARAM_DEFAULT_MAX_LEN then Some SegmentTooLong
          else if v = ''.'' \<or> v = ''..'' then Some SegmentDots
          else if list_ex (\<lambda>c. \<not> (is_ascii_alphanumeric c \<or> c \<in> set SEGMENT_EXTRA_CHARS)) v then Some SegmentCharset
          else None)"

subsection \<open>Records\<close>

record inclusion =
  inc_id :: string
  inc_bindings :: "(string, string) btree"

definition inclusion_bare :: "string \<Rightarrow> inclusion" where
  "inclusion_bare i = \<lparr>inc_id = i, inc_bindings = []\<rparr>"

definition is_bound :: "inclusion \<Rightarrow> bool" where
  "is_bound inc \<longleftrightarrow> inc_bindings inc \<noteq> []"

datatype raw_inclusion = IncBare string | IncTable "(string, string) btree"

datatype inclusion_error = IncIdMissing

definition inclusion_deserialize :: "raw_inclusion \<Rightarrow> inclusion_error + inclusion" where
  "inclusion_deserialize r =
     (case r of
        IncBare i \<Rightarrow> Ok (inclusion_bare i)
      | IncTable m \<Rightarrow>
          (case bt_get m ''id'' of
             None \<Rightarrow> Err IncIdMissing
           | Some i \<Rightarrow> Ok \<lparr>inc_id = i, inc_bindings = filter (\<lambda>(k, _). k \<noteq> ''id'') m\<rparr>))"

record permission_def =
  pd_id :: string
  pd_risk :: "risk option"
  pd_category :: "string option"
  pd_groups :: list_override
  pd_sudo :: list_override
  pd_runas :: "string option"
  pd_limits :: "limits option"
  pd_replace :: bool
  pd_includes :: "inclusion list"
  pd_include_categories :: "string list"
  pd_files :: "file_grant list"
  pd_params :: "(string, param_constraint) btree"

datatype param_reason =
  ParamEmpty | ParamControl | ParamWhitespace | ParamMetachar | ParamNotScalar | ElementNotScalar

datatype os_release_reason = OsUnreadable io_error | OsNoId | OsUnsafeId string | OsUnsafeVersion string

datatype catalog_error =
  CatUnknownPermission string
| CatCycle "string list"
| CatNamespaceCollision string
| CatLoweredBundleRisk string risk risk
| CatInvalidName string string
| CatContradictoryRecord string string
| CatInvalidSudoCommand string string path_defect
| CatInvalidRunas string string runas_reason
| CatInvalidFilePath string path path_defect
| CatInvalidGroupName string string
| CatMissingParam string string
| CatInvalidParamValue string string param_value param_reason
| CatMultipleListParams string string string
| CatIncludeTooDeep string nat
| CatUnconstrainedParam string string
| CatOrphanParamConstraint string string
| CatInvalidParamConstraint string string constraint_reason
| CatParamConstraintViolation string string string value_reason
| CatConflictingParamConstraint string string
| CatUnknownBundleParam string string string
| CatOrphanIncludeBinding string string string
| CatUnboundMemberParam string string string
| CatNestedParamMapping string string
| CatMultipleExpansionLists string string string
| CatIo path io_error
| CatTomlParse path string
| CatMisfiledPolicy path
| CatOsRelease path os_release_reason

definition binding_templates :: "inclusion list \<Rightarrow> string list" where
  "binding_templates incs = concat (map (\<lambda>inc. bt_values (inc_bindings inc)) incs)"

definition placeholder_names :: "permission_def \<Rightarrow> string list" where
  "placeholder_names d =
     extend_unique (concat (map extract_placeholders
       (lo_values (pd_groups d) @ lo_values (pd_sudo d) @ map fg_path (pd_files d) @ binding_templates (pd_includes d)))) []"

definition contradictory :: "permission_def \<Rightarrow> string \<times> list_override \<Rightarrow> catalog_error option" where
  "contradictory d fo =
     (case snd fo of
        LoAppend v \<Rightarrow> if pd_replace d \<and> v \<noteq> [] then Some (CatContradictoryRecord (pd_id d) (fst fo)) else None
      | LoReplace _ \<Rightarrow> None)"

definition unknown_binding :: "permission_def \<Rightarrow> inclusion \<times> string \<Rightarrow> catalog_error option" where
  "unknown_binding d ip =
     (if bt_has (pd_params d) (snd ip) then None
      else Some (CatUnknownBundleParam (pd_id d) (inc_id (fst ip)) (snd ip)))"

definition def_validate :: "permission_def \<Rightarrow> catalog_error + unit" where
  "def_validate d =
     try_bind (check_all (contradictory d) [(''groups'', pd_groups d), (''sudo'', pd_sudo d)]) (\<lambda>_.
     try_bind (check_all (\<lambda>v. map_option (CatInvalidSudoCommand (pd_id d) v) (sudo_command_static_defect v))
        (lo_values (pd_sudo d))) (\<lambda>_.
     try_bind (check_all (\<lambda>u. map_option (CatInvalidRunas (pd_id d) u) (runas_defect u))
        (case pd_runas d of Some u \<Rightarrow> [u] | None \<Rightarrow> [])) (\<lambda>_.
     try_bind (check_all (\<lambda>g. map_option (CatInvalidFilePath (pd_id d) (fg_path g)) (static_path_defect g)) (pd_files d)) (\<lambda>_.
     try_bind (check_all (\<lambda>(n, c). map_option (CatInvalidParamConstraint (pd_id d) n) (declaration_defect c)) (pd_params d)) (\<lambda>_.
     try_bind (check_all (unknown_binding d)
        (concat (map (\<lambda>inc. map (Pair inc) (concat (map extract_placeholders (bt_values (inc_bindings inc))))) (pd_includes d)))) (\<lambda>_.
     try_bind (check_all (\<lambda>n. if bt_has (pd_params d) n then None else Some (CatUnconstrainedParam (pd_id d) n))
        (placeholder_names d)) (\<lambda>_.
     check_all (\<lambda>n. if n \<in> set (placeholder_names d) then None else Some (CatOrphanParamConstraint (pd_id d) n))
        (bt_keys (pd_params d)))))))))"

subsection \<open>Targets and sources\<close>

definition is_safe_path_component :: "string \<Rightarrow> bool" where
  "is_safe_path_component nm \<longleftrightarrow>
     nm \<noteq> [] \<and> nm \<noteq> ''.'' \<and> nm \<noteq> ''..''
     \<and> list_all (\<lambda>b. is_ascii_lowercase b \<or> is_ascii_digit b \<or> b \<in> set ''._-'') nm"

definition validate_path_component :: "string \<Rightarrow> string \<Rightarrow> catalog_error + unit" where
  "validate_path_component kind v = (if is_safe_path_component v then Ok () else Err (CatInvalidName kind v))"

record os_target =
  os_family :: string
  os_distro :: string
  os_version :: "string option"

definition os_target_new :: "string \<Rightarrow> string \<Rightarrow> string option \<Rightarrow> catalog_error + os_target" where
  "os_target_new family distro version =
     try_bind (validate_path_component ''os family'' family) (\<lambda>_.
     try_bind (validate_path_component ''distro'' distro) (\<lambda>_.
     try_bind (case version of Some v \<Rightarrow> validate_path_component ''version'' v | None \<Rightarrow> Ok ()) (\<lambda>_.
     Ok \<lparr>os_family = family, os_distro = distro, os_version = version\<rparr>)))"

definition layer_names :: "os_target \<Rightarrow> string list" where
  "layer_names os =
     [os_family os, os_family os @ ''-'' @ os_distro os]
     @ (case os_version os of Some v \<Rightarrow> [os_family os @ ''-'' @ os_distro os @ ''-'' @ v] | None \<Rightarrow> [])"

record catalog_source =
  cs_read_layer :: "string \<Rightarrow> catalog_error + permission_def list"
  cs_layer_present :: "string \<Rightarrow> bool"

definition all_definitions :: "catalog_source \<Rightarrow> os_target \<Rightarrow> catalog_error + (string \<times> permission_def) list" where
  "all_definitions cat os =
     try_fold (\<lambda>layer out. try_bind (cs_read_layer cat layer) (\<lambda>defs. Ok (out @ map (Pair layer) defs))) (layer_names os) []"

definition namespace_of :: "string \<Rightarrow> string option" where
  "namespace_of i = (if CHR ''.'' \<in> set i then Some (takeWhile (\<lambda>c. c \<noteq> CHR ''.'') i) else None)"

text \<open>The in-memory source: pairs of a layer and a record, and the layers that exist.\<close>

definition add_checked :: "permission_def \<Rightarrow> permission_def list \<Rightarrow> catalog_error + permission_def list" where
  "add_checked d out =
     try_bind (def_validate d) (\<lambda>_.
       if pd_id d \<in> set (map pd_id out) then Err (CatNamespaceCollision (pd_id d)) else Ok (out @ [d]))"

definition fake_read_layer :: "(string \<times> permission_def) list \<Rightarrow> string \<Rightarrow> catalog_error + permission_def list" where
  "fake_read_layer entries layer = try_fold (\<lambda>(_, d) out. add_checked d out) (filter (\<lambda>(l, _). l = layer) entries) []"

definition fake_catalog :: "(string \<times> permission_def) list \<Rightarrow> string list \<Rightarrow> catalog_source" where
  "fake_catalog entries present_layers =
     \<lparr>cs_read_layer = fake_read_layer entries, cs_layer_present = (\<lambda>l. l \<in> set present_layers)\<rparr>"

subsection \<open>Resolved permissions\<close>

datatype catalog_warning = UnknownOsVersion string string | UnusedParam string string

record sourced_primitive =
  pm_value :: string
  pm_layer :: string
  pm_via :: "string option"
  pm_runas :: "string option"
  pm_binding :: "string option"

datatype resolved_permission =
  ResolvedPermission
    (rp_id: string) (rp_risk: "risk option") (rp_runas: "string option")
    (rp_groups: "sourced_primitive list") (rp_sudo: "sourced_primitive list")
    (rp_file_grants: "resolved_file_grant list") (rp_limits: "limits option") (rp_limits_layer: "string option")
    (rp_category_members: "(string \<times> string list) list") (rp_catalog_version: "string option")
    (rp_params: "(string, param_constraint) btree") (rp_bound_members: "bound_member list")
and bound_member = BoundMember (bm_include: inclusion) (bm_member: resolved_permission)

end
