(* ===== verification/Template.thy ===== *)
theory Template
  imports Permission
begin

text \<open>
  Parametrized templates of the catalog (\<^verbatim>\<open>src/catalog.rs\<close>): placeholders filled from the
  parameters a role supplies, each value checked against the value gate and the record's
  constraint before it is spliced, and the substitution of primitives and file grants with the
  gates on what was rendered.  The text of a floating-point number is a parameter.
\<close>

subsection \<open>Rendering\<close>

text \<open>\<open>str::replace\<close> for a pattern that is not empty.\<close>

function str_replace :: "string \<Rightarrow> string \<Rightarrow> string \<Rightarrow> string" where
  "str_replace pat to [] = []"
| "str_replace pat to (c # s) =
     (if pat \<noteq> [] \<and> starts_with (c # s) pat then to @ str_replace pat to (drop (length pat) (c # s))
      else c # str_replace pat to s)"
  by pat_completeness auto
termination
  by (relation "measure (\<lambda>(_, _, s). length s)") (auto simp: neq_Nil_conv)

definition substitute_one :: "string \<Rightarrow> string \<Rightarrow> string \<Rightarrow> string" where
  "substitute_one template nm v = str_replace (''{'' @ nm @ ''}'') v template"

definition show_i64 :: "64 word \<Rightarrow> string" where
  "show_i64 i = (if sint i < 0 then ''-'' @ dec (nat (- sint i)) else dec (nat (sint i)))"

definition scalar_param_string :: "(u64 \<Rightarrow> string) \<Rightarrow> param_value \<Rightarrow> string option" where
  "scalar_param_string show_f64 v =
     (case v of
        PString s \<Rightarrow> Some s
      | PInteger i \<Rightarrow> Some (show_i64 i)
      | PFloat f \<Rightarrow> Some (show_f64 f)
      | PBoolean b \<Rightarrow> Some (if b then ''true'' else ''false'')
      | PArray _ \<Rightarrow> None
      | POther \<Rightarrow> None)"

definition PARAM_FORBIDDEN :: string where
  "PARAM_FORBIDDEN = '',;&|<>()$'' @ [CHR 0x60, CHR 0x22, CHR 0x27, CHR 0x5C] @ ''*?!=#{}~''"

definition param_value_defect :: "string \<Rightarrow> param_reason option" where
  "param_value_defect v =
     (if v = [] then Some ParamEmpty
      else if has_control v then Some ParamControl
      else if has_whitespace v then Some ParamWhitespace
      else if list_ex (\<lambda>c. c \<in> set PARAM_FORBIDDEN) v then Some ParamMetachar
      else None)"

definition check_param_constraint ::
    "string \<Rightarrow> string \<Rightarrow> string \<Rightarrow> (string, param_constraint) btree \<Rightarrow> catalog_error + unit" where
  "check_param_constraint permission nm v constraints =
     (case bt_get constraints nm of
        None \<Rightarrow> Err (CatParamConstraintViolation permission nm v NoConstraint)
      | Some c \<Rightarrow>
          (case value_defect c v of
             Some reason \<Rightarrow> Err (CatParamConstraintViolation permission nm v reason)
           | None \<Rightarrow> Ok ()))"

text \<open>One value of a parameter: its text, past the value gate and the constraint.\<close>

definition checked_value ::
    "(u64 \<Rightarrow> string) \<Rightarrow> string \<Rightarrow> string \<Rightarrow> (string, param_constraint) btree \<Rightarrow> param_reason \<Rightarrow> param_value \<Rightarrow>
     catalog_error + string" where
  "checked_value show_f64 permission nm constraints not_scalar v =
     (case scalar_param_string show_f64 v of
        None \<Rightarrow> Err (CatInvalidParamValue permission nm v not_scalar)
      | Some s \<Rightarrow>
          (case param_value_defect s of
             Some reason \<Rightarrow> Err (CatInvalidParamValue permission nm (PString s) reason)
           | None \<Rightarrow> try_bind (check_param_constraint permission nm s constraints) (\<lambda>_. Ok s)))"

record render_state =
  rs_list :: "(string \<times> string list) option"
  rs_scalars :: "(string \<times> string) list"
  rs_used :: "string list"

definition collect_value ::
    "(u64 \<Rightarrow> string) \<Rightarrow> string \<Rightarrow> (string, param_value) btree \<Rightarrow> (string, param_constraint) btree \<Rightarrow> string \<Rightarrow>
     render_state \<Rightarrow> catalog_error + render_state" where
  "collect_value show_f64 permission params constraints nm st =
     (case bt_get params nm of
        None \<Rightarrow> Err (CatMissingParam permission nm)
      | Some v \<Rightarrow>
          (let st1 = st\<lparr>rs_used := push_unique nm (rs_used st)\<rparr> in
           case v of
             PArray items \<Rightarrow>
               try_bind (try_fold (\<lambda>item elems.
                   try_bind (checked_value show_f64 permission nm constraints ElementNotScalar item) (\<lambda>s. Ok (elems @ [s])))
                 items []) (\<lambda>elems.
               (case rs_list st1 of
                  Some (first, _) \<Rightarrow> Err (CatMultipleListParams permission first nm)
                | None \<Rightarrow> Ok (st1\<lparr>rs_list := Some (nm, elems)\<rparr>)))
           | _ \<Rightarrow>
               try_bind (checked_value show_f64 permission nm constraints ParamNotScalar v) (\<lambda>s.
               Ok (st1\<lparr>rs_scalars := rs_scalars st1 @ [(nm, s)]\<rparr>))))"

definition render_template ::
    "(u64 \<Rightarrow> string) \<Rightarrow> string \<Rightarrow> string \<Rightarrow> (string, param_value) btree \<Rightarrow> (string, param_constraint) btree \<Rightarrow>
     string list \<Rightarrow> catalog_error + string list \<times> string list" where
  "render_template show_f64 permission template params constraints used =
     (let placeholders = extend_unique (extract_placeholders template) [] in
      if placeholders = [] then Ok ([template], used)
      else try_bind (try_fold (collect_value show_f64 permission params constraints) placeholders
               \<lparr>rs_list = None, rs_scalars = [], rs_used = used\<rparr>) (\<lambda>st.
             let base = fold (\<lambda>(nm, v) b. substitute_one b nm v) (rs_scalars st) template in
             case rs_list st of
               None \<Rightarrow> Ok ([base], rs_used st)
             | Some (nm, elems) \<Rightarrow> Ok (map (substitute_one base nm) elems, rs_used st)))"

subsection \<open>Primitives and file grants\<close>

definition gate_primitive :: "string \<Rightarrow> bool \<Rightarrow> string \<Rightarrow> catalog_error option" where
  "gate_primitive permission is_sudo v =
     (if is_sudo then map_option (CatInvalidSudoCommand permission v) (sudo_command_defect v)
      else if \<not> is_valid_group_name v then Some (CatInvalidGroupName permission v) else None)"

definition substitute_primitives ::
    "(u64 \<Rightarrow> string) \<Rightarrow> string \<Rightarrow> sourced_primitive list \<Rightarrow> (string, param_value) btree \<Rightarrow>
     (string, param_constraint) btree \<Rightarrow> string list \<Rightarrow> bool \<Rightarrow>
     catalog_error + sourced_primitive list \<times> string list" where
  "substitute_primitives show_f64 permission prims params constraints used is_sudo =
     try_fold (\<lambda>prim (out, used).
       try_bind (render_template show_f64 permission (pm_value prim) params constraints used) (\<lambda>(rendered, used').
       try_bind (check_all (gate_primitive permission is_sudo) rendered) (\<lambda>_.
       Ok (out @ map (\<lambda>v. prim\<lparr>pm_value := v\<rparr>) rendered, used')))) prims ([], used)"

definition gate_path :: "string \<Rightarrow> bool \<Rightarrow> path \<Rightarrow> catalog_error option" where
  "gate_path permission recursive p =
     (case file_path_defect_substituted p of
        Some reason \<Rightarrow> Some (CatInvalidFilePath permission p reason)
      | None \<Rightarrow>
          if ends_with p ''/'' \<and> \<not> recursive then Some (CatInvalidFilePath permission p TrailingSlashNotRecursive) else None)"

definition substitute_file_grants ::
    "(u64 \<Rightarrow> string) \<Rightarrow> string \<Rightarrow> resolved_file_grant list \<Rightarrow> (string, param_value) btree \<Rightarrow>
     (string, param_constraint) btree \<Rightarrow> string list \<Rightarrow> catalog_error + resolved_file_grant list \<times> string list" where
  "substitute_file_grants show_f64 permission grants params constraints used =
     try_bind (try_fold (\<lambda>grant (out, used).
       try_bind (render_template show_f64 permission (rfg_path grant) params constraints used) (\<lambda>(paths, used').
       try_bind (check_all (gate_path permission (rfg_recursive grant)) paths) (\<lambda>_.
       Ok (out @ map (\<lambda>p. grant\<lparr>rfg_path := p, rfg_shape := grant_shape p (rfg_access grant) (rfg_recursive grant)\<rparr>) paths,
           used')))) grants ([], used)) (\<lambda>(rendered, used'). Ok (union_resolved_file_grants rendered, used'))"

subsection \<open>What was rendered passed the gates\<close>

definition grant_ok :: "resolved_file_grant \<Rightarrow> bool" where
  "grant_ok g \<longleftrightarrow>
     file_path_defect_substituted (rfg_path g) = None \<and> (ends_with (rfg_path g) ''/'' \<longrightarrow> rfg_recursive g)
     \<and> rfg_shape g = grant_shape (rfg_path g) (rfg_access g) (rfg_recursive g)"

definition primitive_ok :: "bool \<Rightarrow> sourced_primitive \<Rightarrow> bool" where
  "primitive_ok is_sudo p \<longleftrightarrow>
     (if is_sudo then sudo_command_defect (pm_value p) = None else is_valid_group_name (pm_value p))"

lemma gate_primitive_iff: "gate_primitive permission is_sudo v = None \<longleftrightarrow> primitive_ok is_sudo (p\<lparr>pm_value := v\<rparr>)"
  by (auto simp: gate_primitive_def primitive_ok_def)

lemma gate_path_iff:
  "gate_path permission r p = None \<longleftrightarrow> file_path_defect_substituted p = None \<and> (ends_with p ''/'' \<longrightarrow> r)"
  by (auto simp: gate_path_def split: option.splits)

lemma substitute_primitives_ok:
  assumes "substitute_primitives show_f64 permission prims params constraints used is_sudo = Ok (out, used')"
  shows "list_all (primitive_ok is_sudo) out"
proof -
  have "list_all (primitive_ok is_sudo) (fst (out, used'))"
    using assms unfolding substitute_primitives_def
  proof (rule try_fold_inv [where I = "\<lambda>x. list_all (primitive_ok is_sudo) (fst x)"])
    fix prim b c
    assume "list_all (primitive_ok is_sudo) (fst b)"
      and "(case b of (out, used) \<Rightarrow> try_bind (render_template show_f64 permission (pm_value prim) params constraints used)
          (\<lambda>(rendered, used'). try_bind (check_all (gate_primitive permission is_sudo) rendered)
             (\<lambda>_. Ok (out @ map (\<lambda>v. prim\<lparr>pm_value := v\<rparr>) rendered, used')))) = Ok c"
    then show "list_all (primitive_ok is_sudo) (fst c)"
      by (cases b) (auto simp: try_bind_Ok_iff check_all_Ok_iff gate_primitive_iff [of _ _ _ prim] list_all_iff)
  qed simp
  then show ?thesis by simp
qed

lemma grant_ok_merge: "grant_ok e \<Longrightarrow> grant_ok g \<Longrightarrow> grant_ok (merge_grant e g)"
  by (auto simp: grant_ok_def merge_grant_def Let_def)

lemma add_grant_ok: "grant_ok g \<Longrightarrow> list_all grant_ok es \<Longrightarrow> list_all grant_ok (add_grant g es)"
  by (induction es) (auto simp: grant_ok_merge)

lemma fold_add_grant_ok: "list_all grant_ok gs \<Longrightarrow> list_all grant_ok es \<Longrightarrow> list_all grant_ok (fold add_grant gs es)"
  by (induction gs arbitrary: es) (simp_all add: add_grant_ok)

lemma substitute_file_grants_ok:
  assumes "substitute_file_grants show_f64 permission grants params constraints used = Ok (out, used')"
  shows "list_all grant_ok out \<and> distinct (grant_paths out)"
proof -
  from assms obtain rendered where r: "try_fold (\<lambda>grant (out, used).
       try_bind (render_template show_f64 permission (rfg_path grant) params constraints used) (\<lambda>(paths, used').
       try_bind (check_all (gate_path permission (rfg_recursive grant)) paths) (\<lambda>_.
       Ok (out @ map (\<lambda>p. grant\<lparr>rfg_path := p, rfg_shape := grant_shape p (rfg_access grant) (rfg_recursive grant)\<rparr>) paths,
           used')))) grants ([], used) = Ok (rendered, used')" and out: "out = union_resolved_file_grants rendered"
    by (auto simp: substitute_file_grants_def try_bind_Ok_iff)
  have "list_all grant_ok (fst (rendered, used'))"
    using r
  proof (rule try_fold_inv [where I = "\<lambda>x. list_all grant_ok (fst x)"])
    fix grant b c
    assume "list_all grant_ok (fst b)"
      and "(case b of (out, used) \<Rightarrow>
       try_bind (render_template show_f64 permission (rfg_path grant) params constraints used) (\<lambda>(paths, used').
       try_bind (check_all (gate_path permission (rfg_recursive grant)) paths) (\<lambda>_.
       Ok (out @ map (\<lambda>p. grant\<lparr>rfg_path := p, rfg_shape := grant_shape p (rfg_access grant) (rfg_recursive grant)\<rparr>) paths,
           used')))) = Ok c"
    then show "list_all grant_ok (fst c)"
      by (cases b) (auto simp: try_bind_Ok_iff check_all_Ok_iff gate_path_iff grant_ok_def list_all_iff)
  qed simp
  then show ?thesis
    unfolding out union_resolved_file_grants_def
    using fold_add_grant_ok [of rendered "[]"] fold_add_grant_distinct [of "[]" rendered] by simp
qed

text \<open>
  A value that is spliced into a template passed both gates: it is not empty, has no control
  character, whitespace, separator or brace, and satisfies the constraint declared for its name.
\<close>

lemma checked_value_Ok:
  "checked_value show_f64 permission nm constraints ns v = Ok s \<longleftrightarrow>
     scalar_param_string show_f64 v = Some s \<and> param_value_defect s = None
     \<and> (\<exists>c. bt_get constraints nm = Some c \<and> value_defect c s = None)"
  by (auto simp: checked_value_def check_param_constraint_def try_bind_Ok_iff split: option.splits)

end
