(* ===== verification/Expand.thy ===== *)
theory Expand
  imports Template
begin

text \<open>
  Resolution of a permission by the catalog (\<^verbatim>\<open>src/catalog.rs\<close>): the merge of a record over
  the layer chain, bundles with cycle detection and a depth bound, includes that bind the
  parameters of a member, and the substitution of a role's parameters into the result.
\<close>

subsection \<open>One permission over its layers\<close>

definition sourced :: "string \<Rightarrow> string option \<Rightarrow> string \<Rightarrow> sourced_primitive" where
  "sourced layer via v = \<lparr>pm_value = v, pm_layer = layer, pm_via = via, pm_runas = None, pm_binding = None\<rparr>"

definition apply_list_override ::
    "sourced_primitive list \<Rightarrow> list_override \<Rightarrow> string \<Rightarrow> string option \<Rightarrow> sourced_primitive list" where
  "apply_list_override acc ov layer via =
     (case ov of
        LoReplace vs \<Rightarrow> map (sourced layer via) vs
      | LoAppend vs \<Rightarrow> acc @ map (sourced layer via) vs)"

record leaf_state =
  lf_groups :: "sourced_primitive list"
  lf_sudo :: "sourced_primitive list"
  lf_files :: "(file_grant \<times> string) list"
  lf_risk :: "risk option"
  lf_runas :: "string option"
  lf_limits :: "limits option"
  lf_limits_layer :: "string option"
  lf_params :: "(string, param_constraint) btree"
  lf_found :: bool

definition leaf_empty :: leaf_state where
  "leaf_empty = \<lparr>lf_groups = [], lf_sudo = [], lf_files = [], lf_risk = None, lf_runas = None, lf_limits = None,
     lf_limits_layer = None, lf_params = [], lf_found = False\<rparr>"

definition or_prior :: "'a option \<Rightarrow> 'a option \<Rightarrow> 'a option" where
  "or_prior new old = (case new of Some x \<Rightarrow> Some x | None \<Rightarrow> old)"

definition apply_layer :: "string \<Rightarrow> permission_def \<Rightarrow> leaf_state \<Rightarrow> leaf_state" where
  "apply_layer layer d st =
     (let s = (if pd_replace d
         then st\<lparr>lf_groups := [], lf_sudo := [], lf_files := [], lf_limits := None, lf_limits_layer := None, lf_params := []\<rparr>
         else st) in
      s\<lparr>lf_groups := apply_list_override (lf_groups s) (pd_groups d) layer None,
        lf_sudo := apply_list_override (lf_sudo s) (pd_sudo d) layer None,
        lf_files := lf_files s @ map (\<lambda>g. (g, layer)) (pd_files d),
        lf_params := fold (\<lambda>(n, c). bt_insert n c) (pd_params d) (lf_params s),
        lf_risk := or_prior (pd_risk d) (lf_risk s),
        lf_runas := or_prior (pd_runas d) (lf_runas s),
        lf_limits := or_prior (pd_limits d) (lf_limits s),
        lf_limits_layer := (if pd_limits d \<noteq> None then Some layer else lf_limits_layer s),
        lf_found := True\<rparr>)"

definition leaf_layer :: "catalog_source \<Rightarrow> string \<Rightarrow> string \<Rightarrow> leaf_state \<Rightarrow> catalog_error + leaf_state" where
  "leaf_layer cat i layer st =
     try_bind (cs_read_layer cat layer) (\<lambda>defs.
       Ok (case find (\<lambda>d. pd_id d = i) defs of None \<Rightarrow> st | Some d \<Rightarrow> apply_layer layer d st))"

definition version_warning :: "os_target \<Rightarrow> catalog_source \<Rightarrow> catalog_warning list" where
  "version_warning os cat =
     (if os_version os = None then []
      else (let chain = layer_names os in
        if cs_layer_present cat (last chain) then []
        else [UnknownOsVersion (last chain)
                (unwrap_or (find (cs_layer_present cat) (rev (butlast chain))) (os_family os))]))"

definition resolve_leaf ::
    "string \<Rightarrow> os_target \<Rightarrow> catalog_source \<Rightarrow> catalog_error + resolved_permission \<times> catalog_warning list" where
  "resolve_leaf i os cat =
     try_bind (try_fold (leaf_layer cat i) (layer_names os) leaf_empty) (\<lambda>st.
       if \<not> lf_found st then Err (CatUnknownPermission i)
       else Ok (ResolvedPermission i (lf_risk st) (lf_runas st) (lf_groups st)
              (map (\<lambda>c. c\<lparr>pm_runas := lf_runas st\<rparr>) (lf_sudo st)) (union_file_grants (lf_files st) None)
              (lf_limits st) (lf_limits_layer st) [] None (lf_params st) [],
            version_warning os cat))"

subsection \<open>Members of a bundle\<close>

definition add_include :: "inclusion \<Rightarrow> inclusion list \<Rightarrow> inclusion list" where
  "add_include inc incs = push_unique inc incs"

definition aggregate_def ::
    "string \<Rightarrow> permission_def \<Rightarrow> inclusion list \<times> string list \<Rightarrow> inclusion list \<times> string list" where
  "aggregate_def i d acc =
     (if pd_id d \<noteq> i then acc
      else (fold add_include (pd_includes d) (fst acc), extend_unique (pd_include_categories d) (snd acc)))"

definition aggregation_for ::
    "string \<Rightarrow> string list \<Rightarrow> catalog_source \<Rightarrow> catalog_error + inclusion list \<times> string list" where
  "aggregation_for i chain cat =
     try_fold (\<lambda>layer acc. try_bind (cs_read_layer cat layer) (\<lambda>defs. Ok (fold (aggregate_def i) defs acc))) chain ([], [])"

definition union_member_primitives ::
    "sourced_primitive list \<Rightarrow> sourced_primitive list \<Rightarrow> string \<Rightarrow> sourced_primitive list" where
  "union_member_primitives acc members via =
     fold (\<lambda>p acc. if list_ex (\<lambda>e. pm_value e = pm_value p \<and> pm_runas e = pm_runas p) acc then acc
                   else acc @ [p\<lparr>pm_via := Some via\<rparr>]) members acc"

definition retag :: "string \<Rightarrow> resolved_file_grant \<Rightarrow> resolved_file_grant" where
  "retag via g = g\<lparr>rfg_sources := map (\<lambda>s. s\<lparr>sfg_via := Some via\<rparr>) (rfg_sources g)\<rparr>"

definition union_member_file_grants ::
    "resolved_file_grant list \<Rightarrow> resolved_file_grant list \<Rightarrow> string \<Rightarrow> resolved_file_grant list" where
  "union_member_file_grants acc members via = fold (\<lambda>g. add_grant (retag via g)) members acc"

definition members_of :: "(string \<times> permission_def) list \<Rightarrow> string \<Rightarrow> string list" where
  "members_of all cat_name = extend_unique (map (\<lambda>(_, d). pd_id d) (filter (\<lambda>(_, d). pd_category d = Some cat_name) all)) []"

subsection \<open>Bound members\<close>

definition list_binding ::
    "(string, string) btree \<Rightarrow> (string, param_value) btree \<Rightarrow> (string \<times> param_value list) option" where
  "list_binding bindings params =
     fold (\<lambda>nm acc. case bt_get params nm of Some (PArray items) \<Rightarrow> Some (nm, items) | _ \<Rightarrow> acc)
       (concat (map extract_placeholders (bt_values bindings))) None"

definition element_params ::
    "(string \<times> param_value list) option \<Rightarrow> (string, param_value) btree \<Rightarrow> nat \<Rightarrow> (string, param_value) btree" where
  "element_params lst params index =
     (case lst of
        None \<Rightarrow> params
      | Some (nm, items) \<Rightarrow> if index < length items then bt_insert nm (items ! index) params else params)"

definition render_binding ::
    "(u64 \<Rightarrow> string) \<Rightarrow> string \<Rightarrow> string \<Rightarrow> string \<Rightarrow> (string, param_value) btree \<Rightarrow> (string, param_constraint) btree \<Rightarrow>
     string \<times> string \<Rightarrow> ((string, param_value) btree \<times> string list) \<times> string list \<Rightarrow>
     catalog_error + ((string, param_value) btree \<times> string list) \<times> string list" where
  "render_binding show_f64 bundle member list_name params constraints mt st =
     (case (mt, st) of ((member_param, template), ((member_params, parts), used)) \<Rightarrow>
      try_bind (render_template show_f64 bundle template params constraints used) (\<lambda>(rendered, used').
      case rendered of
        [v] \<Rightarrow> Ok ((bt_insert member_param (PString v) member_params, parts @ [member_param @ ''='' @ v]), used')
      | _ \<Rightarrow> Err (CatMultipleExpansionLists bundle list_name (''binding '' @ member @ ''.'' @ member_param))))"

definition render_bindings ::
    "(u64 \<Rightarrow> string) \<Rightarrow> string \<Rightarrow> string \<Rightarrow> (string, string) btree \<Rightarrow> (string, param_value) btree \<Rightarrow>
     (string, param_constraint) btree \<Rightarrow> string list \<Rightarrow>
     catalog_error + ((string, param_value) btree \<times> string) list \<times> string list" where
  "render_bindings show_f64 bundle member bindings params constraints used =
     (let lst = list_binding bindings params;
          list_name = (case lst of Some (nm, _) \<Rightarrow> nm | None \<Rightarrow> []);
          width = (case lst of Some (_, items) \<Rightarrow> length items | None \<Rightarrow> 1) in
      try_fold (\<lambda>index (out, used).
        try_bind (try_fold (render_binding show_f64 bundle member list_name (element_params lst params index) constraints)
                    bindings (([], []), used)) (\<lambda>((member_params, parts), used').
        Ok (out @ [(member_params, join_with '', '' parts)], used'))) [0..<width] ([], used))"

definition stamp_binding :: "string \<Rightarrow> sourced_primitive \<Rightarrow> sourced_primitive" where
  "stamp_binding provenance p = p\<lparr>pm_binding := Some provenance\<rparr>"

definition stamp_grant :: "string \<Rightarrow> resolved_file_grant \<Rightarrow> resolved_file_grant" where
  "stamp_grant provenance g = g\<lparr>rfg_sources := map (\<lambda>s. s\<lparr>sfg_binding := Some provenance\<rparr>) (rfg_sources g)\<rparr>"

type_synonym expanded_member = "sourced_primitive list \<times> sourced_primitive list \<times> resolved_file_grant list"

definition expand_instance ::
    "(u64 \<Rightarrow> string) \<Rightarrow> string \<Rightarrow> resolved_permission \<Rightarrow> (string, param_value) btree \<times> string \<Rightarrow> expanded_member \<Rightarrow>
     catalog_error + expanded_member" where
  "expand_instance show_f64 member_id member mp out =
     (case (mp, out) of ((member_params, provenance), (gs, ss, fs)) \<Rightarrow>
      try_bind (substitute_primitives show_f64 member_id (rp_groups member) member_params (rp_params member) [] False) (\<lambda>(g, used1).
      try_bind (substitute_primitives show_f64 member_id (rp_sudo member) member_params (rp_params member) used1 True) (\<lambda>(s, used2).
      try_bind (substitute_file_grants show_f64 member_id (rp_file_grants member) member_params (rp_params member) used2) (\<lambda>(f, _).
      Ok (gs @ map (stamp_binding provenance) g, ss @ map (stamp_binding provenance) s, fs @ map (stamp_grant provenance) f)))))"

definition expand_bound_member ::
    "(u64 \<Rightarrow> string) \<Rightarrow> string \<Rightarrow> bound_member \<Rightarrow> (string, param_value) btree \<Rightarrow> (string, param_constraint) btree \<Rightarrow>
     string list \<Rightarrow> catalog_error + expanded_member \<times> string list" where
  "expand_bound_member show_f64 bundle bound params constraints used =
     (let inc = bm_include bound; member = bm_member bound in
      try_bind (check_all (\<lambda>k. if bt_has (rp_params member) k then None else Some (CatOrphanIncludeBinding bundle (inc_id inc) k))
         (bt_keys (inc_bindings inc))) (\<lambda>_.
      try_bind (check_all (\<lambda>k. if bt_has (inc_bindings inc) k then None else Some (CatUnboundMemberParam bundle (inc_id inc) k))
         (bt_keys (rp_params member))) (\<lambda>_.
      try_bind (render_bindings show_f64 bundle (inc_id inc) (inc_bindings inc) params constraints used) (\<lambda>(fanned, used').
      try_bind (try_fold (expand_instance show_f64 (inc_id inc) member) fanned ([], [], [])) (\<lambda>out.
      Ok (out, used'))))))"

subsection \<open>Bundles\<close>

definition MAX_INCLUDE_DEPTH :: nat where "MAX_INCLUDE_DEPTH = 64"

record bundle_state =
  bs_groups :: "sourced_primitive list"
  bs_sudo :: "sourced_primitive list"
  bs_files :: "resolved_file_grant list"
  bs_params :: "(string, param_constraint) btree"
  bs_limits :: "limits option"
  bs_limits_layer :: "string option"
  bs_max_risk :: "risk option"
  bs_unknown :: bool
  bs_bound :: "bound_member list"
  bs_warnings :: "catalog_warning list"

definition merge_constraint ::
    "string \<Rightarrow> string \<times> param_constraint \<Rightarrow> (string, param_constraint) btree \<Rightarrow>
     catalog_error + (string, param_constraint) btree" where
  "merge_constraint i nc params =
     (case nc of (nm, c) \<Rightarrow>
      (case bt_get params nm of
         None \<Rightarrow> Ok (bt_insert nm c params)
       | Some c0 \<Rightarrow> if normalized c0 \<noteq> normalized c then Err (CatConflictingParamConstraint i nm) else Ok params))"

definition fold_risk :: "risk option \<Rightarrow> bundle_state \<Rightarrow> bundle_state" where
  "fold_risk r st =
     (case r of
        Some x \<Rightarrow> st\<lparr>bs_max_risk := Some (case bs_max_risk st of Some acc \<Rightarrow> risk_max acc x | None \<Rightarrow> x)\<rparr>
      | None \<Rightarrow> st\<lparr>bs_unknown := True\<rparr>)"

definition union_into :: "expanded_member \<Rightarrow> string \<Rightarrow> bundle_state \<Rightarrow> bundle_state" where
  "union_into out via st =
     (case out of (g, s, f) \<Rightarrow>
      st\<lparr>bs_groups := union_member_primitives (bs_groups st) g via,
         bs_sudo := union_member_primitives (bs_sudo st) s via,
         bs_files := union_member_file_grants (bs_files st) f via\<rparr>)"

definition absorb_member ::
    "string \<Rightarrow> string \<Rightarrow> resolved_permission \<times> catalog_warning list \<Rightarrow> bundle_state \<Rightarrow> catalog_error + bundle_state" where
  "absorb_member i member rw st =
     (case rw of (r, ws) \<Rightarrow>
      if rp_bound_members r \<noteq> [] then Err (CatNestedParamMapping i member)
      else (let st1 = union_into (rp_groups r, rp_sudo r, rp_file_grants r) member (fold_risk (rp_risk r) st) in
        try_bind (try_fold (merge_constraint i) (rp_params r) (bs_params st1)) (\<lambda>params.
        Ok (st1\<lparr>bs_params := params,
                bs_limits := (if bs_limits st1 = None then rp_limits r else bs_limits st1),
                bs_limits_layer := (if bs_limits st1 = None \<and> rp_limits r \<noteq> None then rp_limits_layer r else bs_limits_layer st1),
                bs_warnings := bs_warnings st1 @ ws\<rparr>))))"

definition references_bundle_param :: "inclusion \<Rightarrow> bool" where
  "references_bundle_param inc \<longleftrightarrow> list_ex has_placeholder (bt_values (inc_bindings inc))"

definition absorb_bound ::
    "(u64 \<Rightarrow> string) \<Rightarrow> string \<Rightarrow> inclusion \<Rightarrow> resolved_permission \<times> catalog_warning list \<Rightarrow> bundle_state \<Rightarrow>
     catalog_error + bundle_state" where
  "absorb_bound show_f64 i inc rw st =
     (case rw of (r, ws) \<Rightarrow>
      if rp_bound_members r \<noteq> [] then Err (CatNestedParamMapping i (inc_id inc))
      else (let st1 = (fold_risk (rp_risk r) st)\<lparr>bs_warnings := bs_warnings st @ ws\<rparr> in
        if references_bundle_param inc then Ok (st1\<lparr>bs_bound := bs_bound st1 @ [BoundMember inc r]\<rparr>)
        else try_bind (expand_bound_member show_f64 i (BoundMember inc r) [] [] []) (\<lambda>(out, _).
             Ok (union_into out (inc_id inc) st1))))"

definition bundle_members :: "inclusion list \<Rightarrow> (string \<times> string list) list \<Rightarrow> string list" where
  "bundle_members includes category_members =
     extend_unique (extend_unique (map inc_id (filter (\<lambda>inc. \<not> is_bound inc) includes)) []
       @ extend_unique (concat (map snd category_members)) []) []"

definition bundle_start :: "resolved_permission \<times> catalog_warning list \<Rightarrow> bundle_state" where
  "bundle_start rw =
     (case rw of (own, ws) \<Rightarrow>
      \<lparr>bs_groups = rp_groups own, bs_sudo = rp_sudo own, bs_files = rp_file_grants own, bs_params = rp_params own,
       bs_limits = rp_limits own, bs_limits_layer = rp_limits_layer own, bs_max_risk = None, bs_unknown = False,
       bs_bound = [], bs_warnings = ws\<rparr>)"

definition computed_risk :: "bundle_state \<Rightarrow> risk option" where
  "computed_risk st = (if bs_unknown st then Some EscalationCapable else bs_max_risk st)"

definition bundle_finish ::
    "string \<Rightarrow> string option \<Rightarrow> (string \<times> string list) list \<Rightarrow> resolved_permission \<Rightarrow> bundle_state \<Rightarrow>
     catalog_error + resolved_permission \<times> catalog_warning list" where
  "bundle_finish i version category_members own st =
     (let result = (\<lambda>risk. Ok (ResolvedPermission i risk (rp_runas own) (bs_groups st) (bs_sudo st) (bs_files st)
            (bs_limits st) (bs_limits_layer st) category_members version (bs_params st) (bs_bound st), bs_warnings st)) in
      case (rp_risk own, computed_risk st) of
        (Some d, Some c) \<Rightarrow>
          if risk_rank d < risk_rank c then Err (CatLoweredBundleRisk i d c) else result (Some (risk_max d c))
      | (Some d, None) \<Rightarrow> result (Some d)
      | (None, Some c) \<Rightarrow> result (Some c)
      | (None, None) \<Rightarrow> result None)"

definition cycle_at :: "string \<Rightarrow> string list \<Rightarrow> string list" where
  "cycle_at i path = dropWhile (\<lambda>p. p \<noteq> i) path @ [i]"

definition stamp_version :: "string option \<Rightarrow> resolved_permission \<Rightarrow> resolved_permission" where
  "stamp_version version r =
     (case r of ResolvedPermission a b c d e f g h k _ l m \<Rightarrow> ResolvedPermission a b c d e f g h k version l m)"

function resolve_inner ::
    "(u64 \<Rightarrow> string) \<Rightarrow> os_target \<Rightarrow> catalog_source \<Rightarrow> string option \<Rightarrow> string \<Rightarrow> string list \<Rightarrow>
     catalog_error + resolved_permission \<times> catalog_warning list" where
  "resolve_inner show_f64 os cat version i path =
     (if i \<in> set path then Err (CatCycle (cycle_at i path))
      else if length path \<ge> MAX_INCLUDE_DEPTH then Err (CatIncludeTooDeep i (length path))
      else try_bind (aggregation_for i (layer_names os) cat) (\<lambda>(includes, categories).
        if includes = [] \<and> categories = []
        then try_bind (resolve_leaf i os cat) (\<lambda>(r, ws). Ok (stamp_version version r, ws))
        else try_bind (resolve_leaf i os cat) (\<lambda>own.
          try_bind (all_definitions cat os) (\<lambda>all.
          let category_members = map (\<lambda>c. (c, members_of all c)) categories in
          try_bind (try_fold (\<lambda>member st.
              try_bind (resolve_inner show_f64 os cat version member (path @ [i])) (\<lambda>r. absorb_member i member r st))
            (bundle_members includes category_members) (bundle_start own)) (\<lambda>st1.
          try_bind (try_fold (\<lambda>inc st.
              try_bind (resolve_inner show_f64 os cat version (inc_id inc) (path @ [i])) (\<lambda>r. absorb_bound show_f64 i inc r st))
            (filter is_bound includes) st1) (\<lambda>st2.
          bundle_finish i version category_members (fst own) st2))))))"
  by pat_completeness auto
termination
  by (relation "measure (\<lambda>(_, _, _, _, _, path). MAX_INCLUDE_DEPTH - length path)") auto

declare resolve_inner.simps [simp del]

definition catalog_resolve ::
    "(u64 \<Rightarrow> string) \<Rightarrow> string \<Rightarrow> os_target \<Rightarrow> catalog_source \<Rightarrow> string option \<Rightarrow>
     catalog_error + resolved_permission \<times> catalog_warning list" where
  "catalog_resolve show_f64 i os cat version = resolve_inner show_f64 os cat version i []"

subsection \<open>A role's parameters\<close>

definition check_list ::
    "string \<Rightarrow> (string, param_value) btree \<Rightarrow> string \<Rightarrow> string option \<Rightarrow> catalog_error + string option" where
  "check_list bundle params nm seen =
     (case bt_get params nm of
        Some (PArray _) \<Rightarrow>
          (case seen of
             Some first \<Rightarrow> if first = nm then Ok seen else Err (CatMultipleExpansionLists bundle first nm)
           | None \<Rightarrow> Ok (Some nm))
      | _ \<Rightarrow> Ok seen)"

definition enforce_single_expansion_list ::
    "resolved_permission \<Rightarrow> bound_member list \<Rightarrow> (string, param_value) btree \<Rightarrow> catalog_error + unit" where
  "enforce_single_expansion_list r bound params =
     (if bound = [] then Ok ()
      else try_bind (try_fold (check_list (rp_id r) params)
             (concat (map extract_placeholders
               (map pm_value (rp_groups r @ rp_sudo r) @ map rfg_path (rp_file_grants r)
                @ binding_templates (map bm_include bound)))) None) (\<lambda>_. Ok ()))"

definition resolve_with_params ::
    "(u64 \<Rightarrow> string) \<Rightarrow> string \<Rightarrow> (string, param_value) btree \<Rightarrow> os_target \<Rightarrow> catalog_source \<Rightarrow> string option \<Rightarrow>
     catalog_error + resolved_permission \<times> catalog_warning list" where
  "resolve_with_params show_f64 i params os cat version =
     try_bind (catalog_resolve show_f64 i os cat version) (\<lambda>(r, ws).
     try_bind (enforce_single_expansion_list r (rp_bound_members r) params) (\<lambda>_.
     try_bind (substitute_primitives show_f64 (rp_id r) (rp_groups r) params (rp_params r) [] False) (\<lambda>(g, used1).
     try_bind (substitute_primitives show_f64 (rp_id r) (rp_sudo r) params (rp_params r) used1 True) (\<lambda>(s, used2).
     try_bind (substitute_file_grants show_f64 (rp_id r) (rp_file_grants r) params (rp_params r) used2) (\<lambda>(f, used3).
     try_bind (try_fold (\<lambda>bound ((g, s, f), used).
         try_bind (expand_bound_member show_f64 (rp_id r) bound params (rp_params r) used) (\<lambda>((mg, ms, mf), used').
         Ok ((union_member_primitives g mg (inc_id (bm_include bound)), union_member_primitives s ms (inc_id (bm_include bound)),
              union_member_file_grants f mf (inc_id (bm_include bound))), used')))
       (rp_bound_members r) ((g, s, f), used3)) (\<lambda>((g', s', f'), used4).
     Ok (ResolvedPermission (rp_id r) (rp_risk r) (rp_runas r) g' s' f' (rp_limits r) (rp_limits_layer r)
           (rp_category_members r) (rp_catalog_version r) (rp_params r) [],
         ws @ map (UnusedParam (rp_id r)) (filter (\<lambda>k. k \<notin> set used4) (bt_keys params)))))))))"

subsection \<open>Every expansion is gated\<close>

lemma primitive_ok_update [simp]:
  "primitive_ok b (p\<lparr>pm_via := v\<rparr>) = primitive_ok b p" "primitive_ok b (p\<lparr>pm_runas := u\<rparr>) = primitive_ok b p"
  "primitive_ok b (stamp_binding x p) = primitive_ok b p"
  by (simp_all add: primitive_ok_def stamp_binding_def)

lemma grant_ok_tags [simp]: "grant_ok (retag via g) = grant_ok g" "grant_ok (stamp_grant x g) = grant_ok g"
  by (simp_all add: grant_ok_def retag_def stamp_grant_def)

lemma union_member_primitives_inv:
  assumes "\<And>p. P p \<Longrightarrow> P (p\<lparr>pm_via := Some via\<rparr>)" and "list_all P acc" and "list_all P ms"
  shows "list_all P (union_member_primitives acc ms via)"
  using assms(2,3) unfolding union_member_primitives_def
  by (induction ms arbitrary: acc) (auto simp: assms(1))

lemma union_member_file_grants_ok:
  "list_all grant_ok acc \<Longrightarrow> list_all grant_ok gs \<Longrightarrow> list_all grant_ok (union_member_file_grants acc gs via)"
  unfolding union_member_file_grants_def by (induction gs arbitrary: acc) (auto simp: add_grant_ok)

lemma union_member_file_grants_distinct:
  "distinct (grant_paths acc) \<Longrightarrow> distinct (grant_paths (union_member_file_grants acc gs via))"
  unfolding union_member_file_grants_def by (induction gs arbitrary: acc) (auto simp: add_grant_distinct)

definition expanded_ok :: "expanded_member \<Rightarrow> bool" where
  "expanded_ok out \<longleftrightarrow>
     list_all (primitive_ok False) (fst out) \<and> list_all (primitive_ok True) (fst (snd out))
     \<and> list_all grant_ok (snd (snd out))"

lemma expand_instance_ok:
  "expand_instance show_f64 m r mp out = Ok out' \<Longrightarrow> expanded_ok out \<Longrightarrow> expanded_ok out'"
  by (auto simp: expand_instance_def expanded_ok_def try_bind_Ok_iff list.pred_map comp_def split: prod.splits
      dest!: substitute_primitives_ok substitute_file_grants_ok)

lemma expand_bound_member_ok:
  assumes "expand_bound_member show_f64 bundle bound params constraints used = Ok (out, used')"
  shows "expanded_ok out"
proof -
  from assms obtain fanned where
    f: "try_fold (expand_instance show_f64 (inc_id (bm_include bound)) (bm_member bound)) fanned ([], [], []) = Ok out"
    by (auto simp: expand_bound_member_def Let_def try_bind_Ok_iff)
  show ?thesis
    by (rule try_fold_inv [OF f, where I = expanded_ok]) (auto simp: expanded_ok_def dest: expand_instance_ok)
qed

lemma union_ok:
  assumes "expanded_ok (g, s, f)" and "expanded_ok (mg, ms, mf)"
  shows "expanded_ok (union_member_primitives g mg via, union_member_primitives s ms via, union_member_file_grants f mf via)"
  using assms by (simp add: expanded_ok_def union_member_primitives_inv union_member_file_grants_ok)

lemma resolve_with_params_ok:
  assumes "resolve_with_params show_f64 i params os cat version = Ok (rp, ws)"
  shows "expanded_ok (rp_groups rp, rp_sudo rp, rp_file_grants rp) \<and> distinct (grant_paths (rp_file_grants rp))
    \<and> rp_bound_members rp = []"
proof -
  let ?step = "\<lambda>r bound ((g, s, f), used).
      try_bind (expand_bound_member show_f64 (rp_id r) bound params (rp_params r) used) (\<lambda>((mg, ms, mf), used').
      Ok ((union_member_primitives g mg (inc_id (bm_include bound)), union_member_primitives s ms (inc_id (bm_include bound)),
           union_member_file_grants f mf (inc_id (bm_include bound))), used'))"
  let ?I = "\<lambda>((g, s, f), _ :: string list). expanded_ok (g, s, f) \<and> distinct (grant_paths f)"
  from assms obtain r g u1 s u2 f u3 g' s' f' u4 where
    g: "substitute_primitives show_f64 (rp_id r) (rp_groups r) params (rp_params r) [] False = Ok (g, u1)"
    and s: "substitute_primitives show_f64 (rp_id r) (rp_sudo r) params (rp_params r) u1 True = Ok (s, u2)"
    and f: "substitute_file_grants show_f64 (rp_id r) (rp_file_grants r) params (rp_params r) u2 = Ok (f, u3)"
    and l: "try_fold (?step r) (rp_bound_members r) ((g, s, f), u3) = Ok ((g', s', f'), u4)"
    and rp: "rp_groups rp = g'" "rp_sudo rp = s'" "rp_file_grants rp = f'" "rp_bound_members rp = []"
    unfolding resolve_with_params_def
    by (auto simp: try_bind_Ok_iff split_paired_Ex)
  have "?I ((g', s', f'), u4)"
    using l
  proof (rule try_fold_inv [where I = ?I])
    show "?I ((g, s, f), u3)"
      using substitute_primitives_ok [OF g] substitute_primitives_ok [OF s] substitute_file_grants_ok [OF f]
      by (simp add: expanded_ok_def)
    fix bound b c assume "?I b" and "?step r bound b = Ok c"
    then show "?I c"
      by (auto simp: try_bind_Ok_iff split: prod.splits
          intro!: union_ok union_member_file_grants_distinct dest: expand_bound_member_ok)
  qed
  then show ?thesis by (simp add: rp)
qed

subsection \<open>The include graph\<close>

definition direct_members :: "os_target \<Rightarrow> catalog_source \<Rightarrow> string \<Rightarrow> string list" where
  "direct_members os cat i =
     (case aggregation_for i (layer_names os) cat of
        Err _ \<Rightarrow> []
      | Ok (includes, categories) \<Rightarrow>
          (case all_definitions cat os of
             Err _ \<Rightarrow> []
           | Ok all \<Rightarrow> bundle_members includes (map (\<lambda>c. (c, members_of all c)) categories)
                       @ map inc_id (filter is_bound includes)))"

lemma resolve_inner_Ok:
  assumes "resolve_inner show_f64 os cat version i path = Ok (r, ws)"
  obtains (leaf) r0 where "direct_members os cat i = []" "resolve_leaf i os cat = Ok (r0, ws)" "r = stamp_version version r0"
  | (agg) incs members cm own ws0 st1 st2 where
      "direct_members os cat i = members @ map inc_id (filter is_bound incs)"
      "resolve_leaf i os cat = Ok (own, ws0)"
      "try_fold (\<lambda>member st.
         try_bind (resolve_inner show_f64 os cat version member (path @ [i])) (\<lambda>r. absorb_member i member r st))
         members (bundle_start (own, ws0)) = Ok st1"
      "try_fold (\<lambda>inc st.
         try_bind (resolve_inner show_f64 os cat version (inc_id inc) (path @ [i])) (\<lambda>r. absorb_bound show_f64 i inc r st))
         (filter is_bound incs) st1 = Ok st2"
      "bundle_finish i version cm own st2 = Ok (r, ws)"
proof -
  from assms obtain incs categories where ag: "aggregation_for i (layer_names os) cat = Ok (incs, categories)"
    and body: "(if incs = [] \<and> categories = []
        then try_bind (resolve_leaf i os cat) (\<lambda>(r, ws). Ok (stamp_version version r, ws))
        else try_bind (resolve_leaf i os cat) (\<lambda>own.
          try_bind (all_definitions cat os) (\<lambda>all.
          let category_members = map (\<lambda>c. (c, members_of all c)) categories in
          try_bind (try_fold (\<lambda>member st.
              try_bind (resolve_inner show_f64 os cat version member (path @ [i])) (\<lambda>r. absorb_member i member r st))
            (bundle_members incs category_members) (bundle_start own)) (\<lambda>st1.
          try_bind (try_fold (\<lambda>inc st.
              try_bind (resolve_inner show_f64 os cat version (inc_id inc) (path @ [i])) (\<lambda>r. absorb_bound show_f64 i inc r st))
            (filter is_bound incs) st1) (\<lambda>st2.
          bundle_finish i version category_members (fst own) st2))))) = Ok (r, ws)"
    by (subst (asm) resolve_inner.simps) (auto simp: try_bind_Ok_iff split: if_splits)
  show thesis
  proof (cases "incs = [] \<and> categories = []")
    case True
    then have "direct_members os cat i = []"
      using ag by (simp add: direct_members_def bundle_members_def extend_unique_def split: sum.splits)
    with True body leaf show thesis by (auto simp: try_bind_Ok_iff)
  next
    case False
    with body obtain own ws0 all st1 st2 where
      "resolve_leaf i os cat = Ok (own, ws0)" and all: "all_definitions cat os = Ok all"
      and "try_fold (\<lambda>member st.
         try_bind (resolve_inner show_f64 os cat version member (path @ [i])) (\<lambda>r. absorb_member i member r st))
         (bundle_members incs (map (\<lambda>c. (c, members_of all c)) categories)) (bundle_start (own, ws0)) = Ok st1"
      and "try_fold (\<lambda>inc st.
         try_bind (resolve_inner show_f64 os cat version (inc_id inc) (path @ [i])) (\<lambda>r. absorb_bound show_f64 i inc r st))
         (filter is_bound incs) st1 = Ok st2"
      and "bundle_finish i version (map (\<lambda>c. (c, members_of all c)) categories) own st2 = Ok (r, ws)"
      by (auto simp: try_bind_Ok_iff Let_def)
    then show thesis
      by (intro agg [of "bundle_members incs (map (\<lambda>c. (c, members_of all c)) categories)" incs own ws0 st1 st2])
        (simp_all add: direct_members_def ag all)
  qed
qed

lemma resolve_inner_member:
  assumes "resolve_inner show_f64 os cat version i path = Ok (r, ws)" and "m \<in> set (direct_members os cat i)"
  shows "\<exists>rm wm. resolve_inner show_f64 os cat version m (path @ [i]) = Ok (rm, wm)"
  using assms(1)
proof (cases rule: resolve_inner_Ok)
  case leaf
  then show ?thesis using assms(2) by simp
next
  case (agg incs members cm own ws0 st1 st2)
  consider "m \<in> set members" | inc where "inc \<in> set (filter is_bound incs)" "m = inc_id inc"
    using assms(2) agg(1) by auto
  then show ?thesis
  proof cases
    case 1
    show ?thesis by (rule try_fold_step [OF agg(3) 1]) (auto simp: try_bind_Ok_iff)
  next
    case 2
    show ?thesis by (rule try_fold_step [OF agg(4) 2(1)]) (auto simp: try_bind_Ok_iff 2(2))
  qed
qed

lemma resolve_inner_path:
  "resolve_inner show_f64 os cat version i path = Ok x \<Longrightarrow> i \<notin> set path \<and> length path < MAX_INCLUDE_DEPTH"
  by (subst (asm) resolve_inner.simps) (auto split: if_splits)

definition include_chain :: "os_target \<Rightarrow> catalog_source \<Rightarrow> string \<Rightarrow> string list \<Rightarrow> bool" where
  "include_chain os cat i cs \<longleftrightarrow> cs \<noteq> [] \<and> hd cs = i \<and> successively (\<lambda>a b. b \<in> set (direct_members os cat a)) cs"

lemma chain_resolved:
  assumes "resolve_inner show_f64 os cat version i [] = Ok x" and "include_chain os cat i cs"
  shows "(\<exists>y. resolve_inner show_f64 os cat version (last cs) (butlast cs) = Ok y) \<and> distinct cs"
  using assms(2)
proof (induction cs rule: rev_induct)
  case (snoc c cs)
  show ?case
  proof (cases "cs = []")
    case True
    then show ?thesis using assms(1) snoc.prems by (auto simp: include_chain_def)
  next
    case False
    then have c: "include_chain os cat i cs" "c \<in> set (direct_members os cat (last cs))"
      using snoc.prems by (auto simp: include_chain_def successively_append_iff)
    from snoc.IH [OF c(1)] obtain r ws where
      r: "resolve_inner show_f64 os cat version (last cs) (butlast cs) = Ok (r, ws)" and d: "distinct cs" by auto
    from resolve_inner_member [OF r c(2)] obtain y where "resolve_inner show_f64 os cat version c cs = Ok y"
      using False by auto
    with d show ?thesis using resolve_inner_path by fastforce
  qed
qed (simp add: include_chain_def)

subsection \<open>Risk and run-as accounts of a bundle\<close>

text \<open>The risk of a member is accounted for; a member without a declared risk counts as the highest.\<close>

definition covers_risk :: "risk option \<Rightarrow> risk option \<Rightarrow> bool" where
  "covers_risk tot x \<longleftrightarrow>
     (case x of
        Some r \<Rightarrow> (case tot of Some c \<Rightarrow> risk_rank r \<le> risk_rank c | None \<Rightarrow> False)
      | None \<Rightarrow> tot = Some EscalationCapable)"

lemma risk_facts [simp]:
  "risk_rank r \<le> Suc 0" "risk_max EscalationCapable r = EscalationCapable" "risk_max r EscalationCapable = EscalationCapable"
  "risk_max Contained r = r" "risk_max r Contained = r" "0 < risk_rank r \<longleftrightarrow> r = EscalationCapable"
  by (cases r; simp add: risk_max_def)+

lemma risk_max_ge: "risk_rank a \<le> risk_rank (risk_max a b)" "risk_rank b \<le> risk_rank (risk_max a b)"
  by (simp_all add: risk_max_def)

lemma computed_fold_risk:
  "covers_risk (computed_risk (fold_risk x st)) x"
  "covers_risk (computed_risk st) y \<Longrightarrow> covers_risk (computed_risk (fold_risk x st)) y"
  by (auto simp: computed_risk_def fold_risk_def covers_risk_def risk_max_ge intro: order_trans [OF _ risk_max_ge(1)]
      split: option.splits if_splits)

lemma computed_risk_cong:
  "bs_unknown st = bs_unknown st' \<Longrightarrow> bs_max_risk st = bs_max_risk st' \<Longrightarrow> computed_risk st = computed_risk st'"
  by (simp add: computed_risk_def)

lemma absorb_member_risk:
  "absorb_member i m (r, ws) st = Ok st' \<Longrightarrow> computed_risk st' = computed_risk (fold_risk (rp_risk r) st)"
  by (auto simp: absorb_member_def union_into_def Let_def try_bind_Ok_iff intro!: computed_risk_cong split: if_splits)

lemma absorb_bound_risk:
  "absorb_bound show_f64 i inc (r, ws) st = Ok st' \<Longrightarrow> computed_risk st' = computed_risk (fold_risk (rp_risk r) st)"
  by (auto simp: absorb_bound_def union_into_def Let_def try_bind_Ok_iff intro!: computed_risk_cong split: if_splits prod.splits)

lemma absorbed_risk:
  assumes step: "\<And>x st st'. x \<in> set xs \<Longrightarrow> f x st = Ok st' \<Longrightarrow>
      \<exists>r ws. g x = Ok (r, ws) \<and> computed_risk st' = computed_risk (fold_risk (rp_risk r) st)"
    and "try_fold f xs st = Ok st'"
  shows "covers_risk (computed_risk st) y \<Longrightarrow> covers_risk (computed_risk st') y"
    and "x \<in> set xs \<Longrightarrow> g x = Ok (r, ws) \<Longrightarrow> covers_risk (computed_risk st') (rp_risk r)"
proof -
  have keep: "covers_risk (computed_risk b) y \<Longrightarrow> covers_risk (computed_risk c) y"
    if "try_fold f ys b = Ok c" "set ys \<subseteq> set xs" for ys b c y
    using that(1)
    by (rule try_fold_inv [where I = "\<lambda>st. covers_risk (computed_risk st) y"])
      (use that(2) step computed_fold_risk(2) in \<open>fastforce dest!: subsetD\<close>)+
  show "covers_risk (computed_risk st) y \<Longrightarrow> covers_risk (computed_risk st') y" by (rule keep [OF assms(2)]) simp
  assume x: "x \<in> set xs" "g x = Ok (r, ws)"
  obtain a c ys zs where fx: "f x a = Ok c" and xs: "xs = ys @ x # zs" and rest: "try_fold f zs c = Ok st'"
    by (rule try_fold_step [OF assms(2) x(1)])
  have "computed_risk c = computed_risk (fold_risk (rp_risk r) a)" using step [OF x(1) fx] x(2) by auto
  then have "covers_risk (computed_risk c) (rp_risk r)" using computed_fold_risk(1) by simp
  from keep [OF rest _ this] xs show "covers_risk (computed_risk st') (rp_risk r)" by auto
qed

lemma bundle_finish_risk:
  "bundle_finish i version cm own st = Ok (r, ws) \<Longrightarrow> covers_risk (computed_risk st) x \<Longrightarrow> covers_risk (rp_risk r) x"
  by (cases "rp_risk own"; cases "computed_risk st")
    (auto simp: bundle_finish_def Let_def covers_risk_def risk_max_def split: option.splits if_splits)

lemma resolved_risk:
  assumes "resolve_inner show_f64 os cat version i path = Ok (r, ws)" and "m \<in> set (direct_members os cat i)"
    and "resolve_inner show_f64 os cat version m (path @ [i]) = Ok (rm, wm)"
  shows "covers_risk (rp_risk r) (rp_risk rm)"
  using assms(1)
proof (cases rule: resolve_inner_Ok)
  case leaf
  then show ?thesis using assms(2) by simp
next
  case (agg incs members cm own ws0 st1 st2)
  let ?g = "\<lambda>m. resolve_inner show_f64 os cat version m (path @ [i])"
  have bare: "\<exists>r ws. ?g x = Ok (r, ws) \<and> computed_risk st' = computed_risk (fold_risk (rp_risk r) st)"
    if "try_bind (?g x) (\<lambda>r. absorb_member i x r st) = Ok st'" for x st st'
    using that by (auto simp: try_bind_Ok_iff dest: absorb_member_risk)
  have bound: "\<exists>r ws. ?g (inc_id x) = Ok (r, ws) \<and> computed_risk st' = computed_risk (fold_risk (rp_risk r) st)"
    if "try_bind (?g (inc_id x)) (\<lambda>r. absorb_bound show_f64 i x r st) = Ok st'" for x st st'
    using that by (auto simp: try_bind_Ok_iff dest: absorb_bound_risk)
  note b1 = absorbed_risk [OF _ agg(3), where g = ?g] and b2 = absorbed_risk [OF _ agg(4), where g = "\<lambda>x. ?g (inc_id x)"]
  have "covers_risk (computed_risk st2) (rp_risk rm)"
  proof (cases "m \<in> set members")
    case True
    have "covers_risk (computed_risk st1) (rp_risk rm)" by (rule b1(2)) (use bare True assms(3) in auto)
    then show ?thesis by (rule b2(1) [rotated]) (use bound in blast)
  next
    case False
    then obtain inc where inc: "inc \<in> set (filter is_bound incs)" "m = inc_id inc" using assms(2) agg(1) by auto
    show ?thesis by (rule b2(2) [OF _ inc(1)]) (use bound inc(2) assms(3) in auto)
  qed
  with agg(5) show ?thesis by (rule bundle_finish_risk)
qed

definition sudo_pairs :: "sourced_primitive list \<Rightarrow> (string \<times> string option) set" where
  "sudo_pairs ps = (\<lambda>p. (pm_value p, pm_runas p)) ` set ps"

lemma sudo_pairs_union: "sudo_pairs (union_member_primitives acc ms via) = sudo_pairs acc \<union> sudo_pairs ms"
  unfolding union_member_primitives_def
proof (induction ms arbitrary: acc)
  case (Cons p ms)
  show ?case
  proof (cases "list_ex (\<lambda>e. pm_value e = pm_value p \<and> pm_runas e = pm_runas p) acc")
    case True
    then have "(pm_value p, pm_runas p) \<in> sudo_pairs acc" by (auto simp: list_ex_iff sudo_pairs_def image_iff) metis
    then show ?thesis using True Cons [of acc] by (auto simp: sudo_pairs_def)
  next
    case False
    then show ?thesis using Cons [of "acc @ [p\<lparr>pm_via := Some via\<rparr>]"] by (auto simp: sudo_pairs_def)
  qed
qed (simp add: sudo_pairs_def)

abbreviation runas_in :: "string option set \<Rightarrow> sourced_primitive list \<Rightarrow> bool" where
  "runas_in S \<equiv> list_all (\<lambda>p. pm_runas p \<in> S)"

lemma substitute_primitives_runas:
  assumes "substitute_primitives show_f64 permission prims params constraints used is_sudo = Ok (out, used')"
    and "runas_in S prims"
  shows "runas_in S out"
proof -
  have "runas_in S (fst (out, used'))"
    using assms(1) unfolding substitute_primitives_def
  proof (rule try_fold_inv [where I = "\<lambda>x. runas_in S (fst x)"])
    fix prim b c
    assume "prim \<in> set prims" and "runas_in S (fst b)"
      and "(case b of (out, used) \<Rightarrow> try_bind (render_template show_f64 permission (pm_value prim) params constraints used)
          (\<lambda>(rendered, used'). try_bind (check_all (gate_primitive permission is_sudo) rendered)
             (\<lambda>_. Ok (out @ map (\<lambda>v. prim\<lparr>pm_value := v\<rparr>) rendered, used')))) = Ok c"
    then show "runas_in S (fst c)"
      using assms(2) by (cases b) (auto simp: try_bind_Ok_iff list_all_iff)
  qed simp
  then show ?thesis by simp
qed

lemma expand_instance_runas:
  assumes "expand_instance show_f64 m r mp out = Ok out'" and "runas_in S (rp_sudo r)" and "runas_in S (fst (snd out))"
  shows "runas_in S (fst (snd out'))"
  using assms substitute_primitives_runas [where S = S, OF _ assms(2)]
  by (auto simp: expand_instance_def try_bind_Ok_iff stamp_binding_def list.pred_map comp_def split: prod.splits)

lemma expand_bound_member_runas:
  assumes "expand_bound_member show_f64 bundle bound params constraints used = Ok (out, used')"
    and "runas_in S (rp_sudo (bm_member bound))"
  shows "runas_in S (fst (snd out))"
proof -
  from assms obtain fanned where
    f: "try_fold (expand_instance show_f64 (inc_id (bm_include bound)) (bm_member bound)) fanned ([], [], []) = Ok out"
    by (auto simp: expand_bound_member_def Let_def try_bind_Ok_iff)
  show ?thesis
    by (rule try_fold_inv [OF f, where I = "\<lambda>out. runas_in S (fst (snd out))"])
      (simp, rule expand_instance_runas [OF _ assms(2)])
qed

lemma absorb_member_pairs:
  "absorb_member i m (r, ws) st = Ok st' \<Longrightarrow> sudo_pairs (bs_sudo st') = sudo_pairs (bs_sudo st) \<union> sudo_pairs (rp_sudo r)"
  by (auto simp: absorb_member_def union_into_def Let_def try_bind_Ok_iff sudo_pairs_union fold_risk_def
      split: if_splits option.splits)

lemma absorb_bound_pairs:
  assumes "absorb_bound show_f64 i inc (r, ws) st = Ok st'"
  shows "sudo_pairs (bs_sudo st) \<subseteq> sudo_pairs (bs_sudo st')"
    and "p \<in> sudo_pairs (bs_sudo st') \<Longrightarrow> p \<in> sudo_pairs (bs_sudo st) \<or> snd p \<in> snd ` sudo_pairs (rp_sudo r)"
proof -
  have S: "runas_in (snd ` sudo_pairs ps) qs \<Longrightarrow> p \<in> sudo_pairs qs \<Longrightarrow> snd p \<in> snd ` sudo_pairs ps" for ps qs p
    by (auto simp: sudo_pairs_def list_all_iff)
  have own: "runas_in (snd ` sudo_pairs (rp_sudo r)) (rp_sudo r)" by (auto simp: sudo_pairs_def list_all_iff image_iff)
  consider "bs_sudo st' = bs_sudo st"
    | out u where "expand_bound_member show_f64 i (BoundMember inc r) [] [] [] = Ok (out, u)"
        "bs_sudo st' = union_member_primitives (bs_sudo st) (fst (snd out)) (inc_id inc)"
    using assms
    by (auto simp: absorb_bound_def union_into_def Let_def try_bind_Ok_iff fold_risk_def
        split: if_splits option.splits prod.splits)
  then have "sudo_pairs (bs_sudo st) \<subseteq> sudo_pairs (bs_sudo st')
      \<and> (p \<in> sudo_pairs (bs_sudo st') \<longrightarrow> p \<in> sudo_pairs (bs_sudo st) \<or> snd p \<in> snd ` sudo_pairs (rp_sudo r))"
  proof cases
    case 2
    from expand_bound_member_runas [OF 2(1)] own have "runas_in (snd ` sudo_pairs (rp_sudo r)) (fst (snd out))" by simp
    from S [OF this] 2(2) show ?thesis by (auto simp: sudo_pairs_union)
  qed simp
  then show "sudo_pairs (bs_sudo st) \<subseteq> sudo_pairs (bs_sudo st')"
    and "p \<in> sudo_pairs (bs_sudo st') \<Longrightarrow> p \<in> sudo_pairs (bs_sudo st) \<or> snd p \<in> snd ` sudo_pairs (rp_sudo r)"
    by simp_all
qed

lemma bundle_finish_sudo: "bundle_finish i version cm own st = Ok (r, ws) \<Longrightarrow> rp_sudo r = bs_sudo st"
  by (auto simp: bundle_finish_def Let_def split: option.splits if_splits)

lemma stamp_version_sel [simp]:
  "rp_sudo (stamp_version v r) = rp_sudo r" "rp_groups (stamp_version v r) = rp_groups r"
  "rp_file_grants (stamp_version v r) = rp_file_grants r" "rp_risk (stamp_version v r) = rp_risk r"
  "rp_params (stamp_version v r) = rp_params r" "rp_bound_members (stamp_version v r) = rp_bound_members r"
  by (cases r; simp add: stamp_version_def)+

text \<open>The run-as accounts a direct member of a bundle uses.\<close>

definition member_runas ::
    "(u64 \<Rightarrow> string) \<Rightarrow> os_target \<Rightarrow> catalog_source \<Rightarrow> string option \<Rightarrow> string \<Rightarrow> string list \<Rightarrow> string option set" where
  "member_runas show_f64 os cat version i path =
     (\<Union>m\<in>set (direct_members os cat i).
        case resolve_inner show_f64 os cat version m (path @ [i]) of Ok (rm, _) \<Rightarrow> pm_runas ` set (rp_sudo rm) | Err _ \<Rightarrow> {})"

definition own_pairs :: "os_target \<Rightarrow> catalog_source \<Rightarrow> string \<Rightarrow> (string \<times> string option) set" where
  "own_pairs os cat i = (case resolve_leaf i os cat of Ok (own, _) \<Rightarrow> sudo_pairs (rp_sudo own) | Err _ \<Rightarrow> {})"

lemma resolved_runas:
  assumes "resolve_inner show_f64 os cat version i path = Ok (r, ws)" and "p \<in> sudo_pairs (rp_sudo r)"
  shows "p \<in> own_pairs os cat i \<or> snd p \<in> member_runas show_f64 os cat version i path"
  using assms(1)
proof (cases rule: resolve_inner_Ok)
  case (leaf r0)
  then show ?thesis using assms(2) by (simp add: own_pairs_def)
next
  case (agg incs members cm own ws0 st1 st2)
  let ?M = "member_runas show_f64 os cat version i path"
  let ?I = "\<lambda>st. \<forall>p\<in>sudo_pairs (bs_sudo st). p \<in> own_pairs os cat i \<or> snd p \<in> ?M"
  have mem: "snd ` sudo_pairs (rp_sudo rm) \<subseteq> ?M"
    if "m \<in> set (direct_members os cat i)" "resolve_inner show_f64 os cat version m (path @ [i]) = Ok (rm, wm)" for m rm wm
    using that by (force simp: member_runas_def sudo_pairs_def)
  have "?I st1"
    using agg(3)
  proof (rule try_fold_inv [where I = ?I])
    show "?I (bundle_start (own, ws0))" using agg(2) by (simp add: bundle_start_def own_pairs_def)
    fix m st st' assume m: "m \<in> set members" and I: "?I st"
      and "try_bind (resolve_inner show_f64 os cat version m (path @ [i])) (\<lambda>r. absorb_member i m r st) = Ok st'"
    then obtain rm wm where rm: "resolve_inner show_f64 os cat version m (path @ [i]) = Ok (rm, wm)"
      and a: "absorb_member i m (rm, wm) st = Ok st'" by (auto simp: try_bind_Ok_iff)
    have "snd ` sudo_pairs (rp_sudo rm) \<subseteq> ?M" using mem [OF _ rm] m agg(1) by simp
    then show "?I st'" using I absorb_member_pairs [OF a] by auto
  qed
  have "?I st2"
    using agg(4)
  proof (rule try_fold_inv [where I = ?I])
    show "?I st1" by fact
    fix inc st st' assume m: "inc \<in> set (filter is_bound incs)" and I: "?I st"
      and "try_bind (resolve_inner show_f64 os cat version (inc_id inc) (path @ [i])) (\<lambda>r. absorb_bound show_f64 i inc r st) = Ok st'"
    then obtain rm wm where rm: "resolve_inner show_f64 os cat version (inc_id inc) (path @ [i]) = Ok (rm, wm)"
      and a: "absorb_bound show_f64 i inc (rm, wm) st = Ok st'" by (auto simp: try_bind_Ok_iff)
    have "snd ` sudo_pairs (rp_sudo rm) \<subseteq> ?M" using mem [OF _ rm] m agg(1) by auto
    then show "?I st'" using I absorb_bound_pairs(2) [OF a] by blast
  qed
  then show ?thesis using assms(2) bundle_finish_sudo [OF agg(5)] by auto
qed

subsection \<open>The layer merge\<close>

text \<open>
  The reference: only the records from the last one that replaces everything count; a list is
  what the records from the last bare array on say, in order; risk and run-as account are those
  of the topmost record that sets them, limits those of the topmost that counts.
\<close>

fun from_last :: "('a \<Rightarrow> bool) \<Rightarrow> 'a list \<Rightarrow> 'a list" where
  "from_last P [] = []"
| "from_last P (x # xs) = (if list_ex P xs then from_last P xs else x # xs)"

fun last_some :: "('a \<Rightarrow> 'b option) \<Rightarrow> 'a list \<Rightarrow> 'b option" where
  "last_some f [] = None"
| "last_some f (x # xs) = (case last_some f xs of Some y \<Rightarrow> Some y | None \<Rightarrow> f x)"

definition replaces_list :: "list_override \<Rightarrow> bool" where
  "replaces_list ov = (case ov of LoReplace _ \<Rightarrow> True | LoAppend _ \<Rightarrow> False)"

definition counting :: "(string \<times> permission_def) list \<Rightarrow> (string \<times> permission_def) list" where
  "counting lds = from_last (\<lambda>(_, d). pd_replace d) lds"

definition merged_list :: "(permission_def \<Rightarrow> list_override) \<Rightarrow> (string \<times> permission_def) list \<Rightarrow> sourced_primitive list" where
  "merged_list sel lds =
     concat (map (\<lambda>(l, d). map (sourced l None) (lo_values (sel d))) (from_last (\<lambda>(_, d). replaces_list (sel d)) (counting lds)))"

definition limits_layer_of :: "string \<times> permission_def \<Rightarrow> string option" where
  "limits_layer_of ld = (if pd_limits (snd ld) \<noteq> None then Some (fst ld) else None)"

definition merged_params :: "(string \<times> permission_def) list \<Rightarrow> (string, param_constraint) btree" where
  "merged_params lds = fold (\<lambda>(_, d). fold (\<lambda>(n, c). bt_insert n c) (pd_params d)) lds []"

definition applied :: "(string \<times> permission_def) list \<Rightarrow> leaf_state" where
  "applied lds = fold (\<lambda>(l, d). apply_layer l d) lds leaf_empty"

lemma from_last_snoc: "from_last P (xs @ [x]) = (if P x then [x] else from_last P xs @ [x])"
  by (induction xs) auto

lemma last_some_snoc: "last_some f (xs @ [x]) = or_prior (f x) (last_some f xs)"
  by (induction xs) (auto simp: or_prior_def split: option.splits)

lemma counting_snoc: "counting (lds @ [(l, d)]) = (if pd_replace d then [(l, d)] else counting lds @ [(l, d)])"
  by (simp add: counting_def from_last_snoc)

lemma merged_list_snoc:
  "merged_list sel (lds @ [(l, d)]) =
     apply_list_override (if pd_replace d then [] else merged_list sel lds) (sel d) l None"
  by (auto simp: merged_list_def counting_snoc from_last_snoc apply_list_override_def replaces_list_def
      split: list_override.splits)

lemma applied_reference:
  "lf_groups (applied lds) = merged_list pd_groups lds \<and> lf_sudo (applied lds) = merged_list pd_sudo lds
   \<and> lf_files (applied lds) = concat (map (\<lambda>(l, d). map (\<lambda>g. (g, l)) (pd_files d)) (counting lds))
   \<and> lf_risk (applied lds) = last_some (\<lambda>(_, d). pd_risk d) lds
   \<and> lf_runas (applied lds) = last_some (\<lambda>(_, d). pd_runas d) lds
   \<and> lf_limits (applied lds) = last_some (\<lambda>(_, d). pd_limits d) (counting lds)
   \<and> lf_limits_layer (applied lds) = last_some limits_layer_of (counting lds)
   \<and> lf_params (applied lds) = merged_params (counting lds)
   \<and> lf_found (applied lds) = (lds \<noteq> [])"
proof (induction lds rule: rev_induct)
  case Nil
  show ?case by (simp add: applied_def leaf_empty_def merged_list_def counting_def merged_params_def)
next
  case (snoc ld lds)
  obtain l d where ld: "ld = (l, d)" by fastforce
  have a: "applied (lds @ [(l, d)]) = apply_layer l d (applied lds)" by (simp add: applied_def)
  show ?case
    unfolding ld a using snoc
    by (auto simp: apply_layer_def Let_def merged_list_snoc counting_snoc last_some_snoc or_prior_def merged_params_def
        limits_layer_of_def split: option.split)
qed

text \<open>What each layer of the chain says about a permission.\<close>

definition state_layer ::
    "catalog_source \<Rightarrow> string \<Rightarrow> string \<Rightarrow> (string \<times> permission_def) list \<Rightarrow> catalog_error + (string \<times> permission_def) list" where
  "state_layer cat i layer out =
     try_bind (cs_read_layer cat layer) (\<lambda>defs.
       Ok (out @ (case find (\<lambda>d. pd_id d = i) defs of None \<Rightarrow> [] | Some d \<Rightarrow> [(layer, d)])))"

definition statements :: "string \<Rightarrow> os_target \<Rightarrow> catalog_source \<Rightarrow> catalog_error + (string \<times> permission_def) list" where
  "statements i os cat = try_fold (state_layer cat i) (layer_names os) []"

definition merged :: "string \<Rightarrow> (string \<times> permission_def) list \<Rightarrow> resolved_permission" where
  "merged i lds =
     (let runas = last_some (\<lambda>(_, d). pd_runas d) lds in
      ResolvedPermission i (last_some (\<lambda>(_, d). pd_risk d) lds) runas (merged_list pd_groups lds)
        (map (\<lambda>c. c\<lparr>pm_runas := runas\<rparr>) (merged_list pd_sudo lds))
        (union_file_grants (concat (map (\<lambda>(l, d). map (\<lambda>g. (g, l)) (pd_files d)) (counting lds))) None)
        (last_some (\<lambda>(_, d). pd_limits d) (counting lds)) (last_some limits_layer_of (counting lds))
        [] None (merged_params (counting lds)) [])"

lemma leaf_layers_applied:
  "try_fold (leaf_layer cat i) layers (applied lds) =
     try_bind (try_fold (state_layer cat i) layers lds) (\<lambda>lds'. Ok (applied lds'))"
proof (induction layers arbitrary: lds)
  case (Cons layer layers)
  show ?case
  proof (cases "cs_read_layer cat layer")
    case (Inl e)
    then show ?thesis by (simp add: leaf_layer_def state_layer_def)
  next
    case (Inr defs)
    have "(case find (\<lambda>d. pd_id d = i) defs of None \<Rightarrow> applied lds | Some d \<Rightarrow> apply_layer layer d (applied lds)) =
        applied (lds @ (case find (\<lambda>d. pd_id d = i) defs of None \<Rightarrow> [] | Some d \<Rightarrow> [(layer, d)]))"
      by (simp add: applied_def split: option.split)
    then show ?thesis using Inr Cons by (simp add: leaf_layer_def state_layer_def)
  qed
qed simp

lemma resolve_leaf_merged:
  "resolve_leaf i os cat =
     try_bind (statements i os cat) (\<lambda>lds.
       if lds = [] then Err (CatUnknownPermission i) else Ok (merged i lds, version_warning os cat))"
proof -
  have e: "leaf_empty = applied []" by (simp add: applied_def)
  show ?thesis
    unfolding resolve_leaf_def statements_def e leaf_layers_applied
    using applied_reference
    by (cases "try_fold (state_layer cat i) (layer_names os) []") (simp_all add: merged_def Let_def)
qed

lemma state_layer_mem:
  assumes "state_layer cat i layer lds = Ok lds'" and "x \<in> set lds'"
  shows "x \<in> set lds \<or>
         (\<exists>defs. cs_read_layer cat (fst x) = Ok defs \<and> snd x \<in> set defs \<and> pd_id (snd x) = i)"
proof -
  from assms(1) obtain defs where r: "cs_read_layer cat layer = Ok defs"
    and l: "Ok lds' = Ok (lds @ (case find (\<lambda>d. pd_id d = i) defs of
                                None \<Rightarrow> [] | Some d \<Rightarrow> [(layer, d)]))"
    by (auto simp: state_layer_def try_bind_Ok_iff)
  show ?thesis
  proof (cases "find (\<lambda>d. pd_id d = i) defs")
    case None
    then show ?thesis using l assms(2) by simp
  next
    case (Some d)
    then have "d \<in> set defs" and "pd_id d = i"
      by (auto simp: find_Some_iff)
    then show ?thesis using l assms(2) r Some by auto
  qed
qed

lemma statements_mem:
  assumes "statements i os cat = Ok lds" and "x \<in> set lds"
  shows "\<exists>defs. cs_read_layer cat (fst x) = Ok defs \<and> snd x \<in> set defs \<and> pd_id (snd x) = i"
proof -
  let ?I = "\<lambda>lds. \<forall>x\<in>set lds.
              \<exists>defs. cs_read_layer cat (fst x) = Ok defs \<and> snd x \<in> set defs \<and> pd_id (snd x) = i"
  have "?I lds"
    using assms(1) unfolding statements_def
    by (rule try_fold_inv [where I = ?I]) (simp, meson state_layer_mem)
  then show ?thesis using assms(2) by blast
qed

end
