(* ===== verification/Catalog.thy ===== *)
theory Catalog
  imports Expand
begin

text \<open>
  Where the catalog's records come from (\<^verbatim>\<open>src/catalog.rs\<close>): the detection of the target from
  an \<^verbatim>\<open>os-release\<close> file or an option, the reader of the catalog directories, the contract every
  source keeps, and the guarantees of resolution over a source that keeps it.
\<close>

subsection \<open>The target\<close>

definition unquote_os_release :: "string \<Rightarrow> string" where
  "unquote_os_release v =
     (let inner = (\<lambda>q. Option.bind (strip_prefix v [q]) (\<lambda>r. strip_suffix r [q])) in
      case inner (CHR 0x22) of
        Some i \<Rightarrow> i
      | None \<Rightarrow> (case inner (CHR 0x27) of Some i \<Rightarrow> i | None \<Rightarrow> v))"

definition os_release_line :: "string \<Rightarrow> string option \<times> string option \<Rightarrow> string option \<times> string option" where
  "os_release_line raw st =
     (let line = trim raw in
      if line = [] \<or> starts_with line ''#'' then st
      else (case split_once (CHR ''='') line of
          None \<Rightarrow> st
        | Some (key, v) \<Rightarrow>
            (let v' = unquote_os_release (trim v) in
             if trim key = ''ID'' then (Some v', snd st)
             else if trim key = ''VERSION_ID'' then (fst st, Some v')
             else st)))"

definition os_release_target :: "path \<Rightarrow> string option \<times> string option \<Rightarrow> catalog_error + os_target" where
  "os_release_target p ids =
     (case ids of
        (None, _) \<Rightarrow> Err (CatOsRelease p OsNoId)
      | (Some i, version_id) \<Rightarrow>
          (let distro = (if i = ''astralinux'' then ''astra'' else i);
               version = (if version_id = Some [] then None else version_id) in
           if \<not> is_safe_path_component distro then Err (CatOsRelease p (OsUnsafeId distro))
           else (case version of
               Some v \<Rightarrow>
                 if \<not> is_safe_path_component v then Err (CatOsRelease p (OsUnsafeVersion v))
                 else Ok \<lparr>os_family = ''linux'', os_distro = distro, os_version = version\<rparr>
             | None \<Rightarrow> Ok \<lparr>os_family = ''linux'', os_distro = distro, os_version = version\<rparr>)))"

definition detect_from :: "(path \<Rightarrow> io_error + file_view) \<Rightarrow> path \<Rightarrow> catalog_error + os_target" where
  "detect_from open_file p =
     try_bind (map_err (\<lambda>e. CatOsRelease p (OsUnreadable e)) (read_capped (open_file p) MAX_INPUT_FILE_BYTES)) (\<lambda>text.
     os_release_target p (fold os_release_line (str_lines text) (None, None)))"

definition detect_os_target ::
    "(path \<Rightarrow> io_error + file_view) \<Rightarrow> string option \<Rightarrow> catalog_error + os_target" where
  "detect_os_target open_file override_spec =
     (case override_spec of
        Some spec \<Rightarrow>
          (case splitn 3 (CHR ''-'') spec of
             [] \<Rightarrow> os_target_new [] [] None
           | [f] \<Rightarrow> os_target_new f [] None
           | [f, d] \<Rightarrow> os_target_new f d None
           | f # d # v # _ \<Rightarrow> os_target_new f d (Some v))
      | None \<Rightarrow> detect_from open_file ''/etc/os-release'')"

subsection \<open>The catalog directories\<close>

text \<open>
  What the reader sees of the disk.  The entries of a directory come in the order the system
  lists them; each one is a name or an error.
\<close>

record catalog_fs =
  cf_is_dir :: "path \<Rightarrow> bool"
  cf_is_file :: "path \<Rightarrow> bool"
  cf_is_symlink :: "path \<Rightarrow> bool"
  cf_read_dir :: "path \<Rightarrow> io_error + (io_error + string) list"
  cf_open :: "path \<Rightarrow> io_error + file_view"
  cf_toml :: "string \<Rightarrow> string + permission_def"

text \<open>\<open>Path::extension\<close> of a file name: what follows its last dot, unless that dot starts the name.\<close>

definition has_extension :: "string \<Rightarrow> string \<Rightarrow> bool" where
  "has_extension nm ext \<longleftrightarrow> CHR ''.'' \<notin> set ext \<and> ends_with nm (CHR ''.'' # ext) \<and> length nm > Suc (length ext)"

definition read_policy_file :: "catalog_fs \<Rightarrow> path \<Rightarrow> string option \<Rightarrow> catalog_error + permission_def" where
  "read_policy_file fs p subdir =
     try_bind (map_err (CatIo p) (read_capped (cf_open fs p) MAX_INPUT_FILE_BYTES)) (\<lambda>text.
     try_bind (map_err (CatTomlParse p) (cf_toml fs text)) (\<lambda>d.
     try_bind (def_validate d) (\<lambda>_.
     case (subdir, namespace_of (pd_id d)) of
       (None, None) \<Rightarrow> Ok d
     | (Some dir, Some ns) \<Rightarrow>
         if dir = ns then try_bind (validate_path_component ''namespace'' ns) (\<lambda>_. Ok d)
         else Err (CatMisfiledPolicy p)
     | _ \<Rightarrow> Err (CatMisfiledPolicy p))))"

definition push_def :: "permission_def \<Rightarrow> permission_def list \<Rightarrow> catalog_error + permission_def list" where
  "push_def d out = (if pd_id d \<in> set (map pd_id out) then Err (CatNamespaceCollision (pd_id d)) else Ok (out @ [d]))"

definition read_sub_entry ::
    "catalog_fs \<Rightarrow> path \<Rightarrow> string \<Rightarrow> io_error + string \<Rightarrow> permission_def list \<Rightarrow> catalog_error + permission_def list" where
  "read_sub_entry fs dir ns sub out =
     try_bind (map_err (CatIo dir) sub) (\<lambda>nm.
       let p = path_join dir nm in
       if cf_is_symlink fs p then Ok out
       else if cf_is_file fs p \<and> has_extension nm ''toml''
       then try_bind (read_policy_file fs p (Some ns)) (\<lambda>d. push_def d out)
       else Ok out)"

definition read_entry ::
    "catalog_fs \<Rightarrow> path \<Rightarrow> io_error + string \<Rightarrow> permission_def list \<Rightarrow> catalog_error + permission_def list" where
  "read_entry fs layer_dir entry out =
     try_bind (map_err (CatIo layer_dir) entry) (\<lambda>nm.
       let p = path_join layer_dir nm in
       if cf_is_symlink fs p then Ok out
       else if cf_is_dir fs p
       then (let ns = (if utf8_valid nm then nm else []) in
         try_bind (map_err (CatIo p) (cf_read_dir fs p)) (\<lambda>subs. try_fold (read_sub_entry fs p ns) subs out))
       else if cf_is_file fs p \<and> has_extension nm ''toml''
       then try_bind (read_policy_file fs p None) (\<lambda>d. push_def d out)
       else Ok out)"

definition read_one_layer_dir :: "catalog_fs \<Rightarrow> path \<Rightarrow> catalog_error + permission_def list" where
  "read_one_layer_dir fs layer_dir =
     try_bind (map_err (CatIo layer_dir) (cf_read_dir fs layer_dir)) (\<lambda>entries.
       try_fold (read_entry fs layer_dir) entries [])"

definition live_read_layer :: "catalog_fs \<Rightarrow> path list \<Rightarrow> string \<Rightarrow> catalog_error + permission_def list" where
  "live_read_layer fs roots layer =
     try_fold (\<lambda>root out.
       let layer_dir = path_join root layer in
       if \<not> cf_is_dir fs layer_dir then Ok out
       else try_bind (read_one_layer_dir fs layer_dir) (\<lambda>defs. Ok (out @ defs))) roots []"

definition live_catalog :: "catalog_fs \<Rightarrow> path list \<Rightarrow> catalog_source" where
  "live_catalog fs roots =
     \<lparr>cs_read_layer = live_read_layer fs roots,
      cs_layer_present = (\<lambda>layer. list_ex (\<lambda>root. cf_is_dir fs (path_join root layer)) roots)\<rparr>"

definition default_catalog_roots :: "path list" where
  "default_catalog_roots = [''/usr/share/census/permissions'', ''/etc/census/permissions.d'']"

subsection \<open>What a source promises\<close>

text \<open>
  The contract between the resolver and a source: a layer only holds records that pass
  validation.  The lemmas in the locale are what resolution guarantees over any such source.
\<close>

definition runas_vetted :: "string option \<Rightarrow> bool" where
  "runas_vetted u \<longleftrightarrow> (case u of None \<Rightarrow> True | Some v \<Rightarrow> runas_defect v = None)"

lemma def_validate_runas: "def_validate d = Ok () \<Longrightarrow> runas_vetted (pd_runas d)"
  by (auto simp: def_validate_def try_bind_Ok_iff check_all_Ok_iff runas_vetted_def split: option.splits)

lemma last_some_mem: "last_some f xs = Some y \<Longrightarrow> \<exists>x\<in>set xs. f x = Some y"
  by (induction xs) (auto split: option.splits)

lemma union_runas: "runas_in S acc \<Longrightarrow> runas_in S ms \<Longrightarrow> runas_in S (union_member_primitives acc ms via)"
  by (rule union_member_primitives_inv [where P = "\<lambda>p. pm_runas p \<in> S"]) simp_all

definition member_in :: "string option set \<Rightarrow> resolved_permission \<Rightarrow> bool" where
  "member_in S r \<longleftrightarrow> runas_in S (rp_sudo r) \<and> list_all (\<lambda>b. runas_in S (rp_sudo (bm_member b))) (rp_bound_members r)"

definition state_in :: "string option set \<Rightarrow> bundle_state \<Rightarrow> bool" where
  "state_in S st \<longleftrightarrow> runas_in S (bs_sudo st) \<and> list_all (\<lambda>b. runas_in S (rp_sudo (bm_member b))) (bs_bound st)"

lemma fold_risk_keeps [simp]: "bs_sudo (fold_risk r st) = bs_sudo st" "bs_bound (fold_risk r st) = bs_bound st"
  by (simp_all add: fold_risk_def split: option.split)

lemma absorb_member_in:
  "absorb_member i m (r, ws) st = Ok st' \<Longrightarrow> member_in S r \<Longrightarrow> state_in S st \<Longrightarrow> state_in S st'"
  by (auto simp: absorb_member_def union_into_def Let_def try_bind_Ok_iff member_in_def state_in_def union_runas
      split: if_splits)

lemma absorb_bound_in:
  assumes "absorb_bound show_f64 i inc (r, ws) st = Ok st'" and "member_in S r" and "state_in S st"
  shows "state_in S st'"
proof -
  have "runas_in S s" if "expand_bound_member show_f64 i (BoundMember inc r) [] [] [] = Ok ((g, s, f), u)" for g s f u
    using expand_bound_member_runas [OF that, of S] assms(2) by (simp add: member_in_def)
  with assms show ?thesis
    by (auto simp: absorb_bound_def union_into_def Let_def try_bind_Ok_iff member_in_def state_in_def union_runas
        split: if_splits)
qed

lemma bundle_finish_in: "bundle_finish i version cm own st = Ok (r, ws) \<Longrightarrow> state_in S st \<Longrightarrow> member_in S r"
  by (auto simp: bundle_finish_def Let_def member_in_def state_in_def split: option.splits if_splits)

lemma resolve_inner_in:
  assumes leaf: "\<And>i r ws. resolve_leaf i os cat = Ok (r, ws) \<Longrightarrow> member_in S r"
  shows "resolve_inner show_f64 os cat version i path = Ok (r, ws) \<Longrightarrow> member_in S r"
proof (induction "MAX_INCLUDE_DEPTH - length path" arbitrary: i path r ws rule: less_induct)
  case less
  let ?res = "\<lambda>m. resolve_inner show_f64 os cat version m (path @ [i])"
  have "length path < MAX_INCLUDE_DEPTH" using resolve_inner_path [OF less.prems] by simp
  then have IH: "member_in S rm" if "?res m = Ok (rm, wm)" for m rm wm
    using less.hyps [of "path @ [i]", OF _ that] by simp
  show ?case
    using less.prems
  proof (cases rule: resolve_inner_Ok)
    case (leaf r0)
    then show ?thesis using assms [OF leaf(2)] by (simp add: member_in_def)
  next
    case (agg incs members cm own ws0 st1 st2)
    have "state_in S st1"
      using agg(3)
    proof (rule try_fold_inv [where I = "state_in S"])
      show "state_in S (bundle_start (own, ws0))"
        using assms [OF agg(2)] by (simp add: bundle_start_def state_in_def member_in_def)
    qed (auto simp: try_bind_Ok_iff dest: IH absorb_member_in)
    with agg(4) have "state_in S st2"
      by (rule try_fold_inv [where I = "state_in S"]) (auto simp: try_bind_Ok_iff dest: IH absorb_bound_in)
    with agg(5) show ?thesis by (rule bundle_finish_in)
  qed
qed

lemma resolve_with_params_runas:
  assumes leaf: "\<And>i r ws. resolve_leaf i os cat = Ok (r, ws) \<Longrightarrow> member_in S r"
    and "resolve_with_params show_f64 i params os cat version = Ok (rp, ws)"
  shows "runas_in S (rp_sudo rp)"
proof -
  let ?step = "\<lambda>r bound ((g, s, f), used).
      try_bind (expand_bound_member show_f64 (rp_id r) bound params (rp_params r) used) (\<lambda>((mg, ms, mf), used').
      Ok ((union_member_primitives g mg (inc_id (bm_include bound)), union_member_primitives s ms (inc_id (bm_include bound)),
           union_member_file_grants f mf (inc_id (bm_include bound))), used'))"
  let ?I = "\<lambda>((_, s, _), _ :: string list). runas_in S s"
  from assms(2) obtain r ws0 g u1 s u2 f u3 g' s' f' u4 where
    r: "resolve_inner show_f64 os cat version i [] = Ok (r, ws0)"
    and s: "substitute_primitives show_f64 (rp_id r) (rp_sudo r) params (rp_params r) u1 True = Ok (s, u2)"
    and l: "try_fold (?step r) (rp_bound_members r) ((g, s, f), u3) = Ok ((g', s', f'), u4)"
    and rp: "rp_sudo rp = s'"
    unfolding resolve_with_params_def catalog_resolve_def
    by (auto simp: try_bind_Ok_iff split_paired_Ex)
  have m: "member_in S r" using leaf r by (rule resolve_inner_in)
  have "?I ((g', s', f'), u4)"
    using l
  proof (rule try_fold_inv [where I = ?I])
    show "?I ((g, s, f), u3)" using substitute_primitives_runas [OF s] m by (simp add: member_in_def)
    fix bound b c assume b: "bound \<in> set (rp_bound_members r)" and "?I b" and "?step r bound b = Ok c"
    moreover have "runas_in S (rp_sudo (bm_member bound))" using m b by (simp add: member_in_def list_all_iff)
    ultimately show "?I c"
      by (auto simp: try_bind_Ok_iff intro!: union_runas dest!: expand_bound_member_runas [where S = S] split: prod.splits)
  qed
  then show ?thesis by (simp add: rp)
qed

text \<open>What an expansion is allowed to hand out.\<close>

definition expansion_safe :: "resolved_permission \<Rightarrow> bool" where
  "expansion_safe rp \<longleftrightarrow>
     list_all (\<lambda>p. is_valid_group_name (pm_value p)) (rp_groups rp)
     \<and> list_all (\<lambda>p. sudo_command_defect (pm_value p) = None \<and> runas_vetted (pm_runas p)) (rp_sudo rp)
     \<and> list_all grant_ok (rp_file_grants rp) \<and> distinct (grant_paths (rp_file_grants rp))
     \<and> rp_bound_members rp = []"

locale checked_source =
  fixes cat :: catalog_source
  assumes validated: "cs_read_layer cat layer = Ok ds \<Longrightarrow> d \<in> set ds \<Longrightarrow> def_validate d = Ok ()"
begin

lemma stated_validated:
  assumes "statements i os cat = Ok lds" and "x \<in> set lds"
  shows "def_validate (snd x) = Ok ()"
  using statements_mem [OF assms] validated by blast

lemma leaf_runas:
  assumes "resolve_leaf i os cat = Ok (r, ws)"
  shows "member_in {u. runas_vetted u} r"
proof -
  from assms obtain lds where lds: "statements i os cat = Ok lds" and r: "r = merged i lds"
    by (auto simp: resolve_leaf_merged try_bind_Ok_iff split: if_splits)
  have "runas_vetted (last_some (\<lambda>(_, d). pd_runas d) lds)"
  proof (cases "last_some (\<lambda>(_, d). pd_runas d) lds")
    case (Some u)
    from last_some_mem [OF this] obtain x where x: "x \<in> set lds" "pd_runas (snd x) = Some u" by (auto simp: case_prod_unfold)
    from def_validate_runas [OF stated_validated [OF lds x(1)]] show ?thesis by (simp add: Some x(2))
  qed (simp add: runas_vetted_def)
  then show ?thesis by (simp add: r merged_def Let_def member_in_def list_all_iff)
qed

lemma expansion_gated:
  assumes "resolve_with_params show_f64 i params os cat version = Ok (rp, ws)"
  shows "expansion_safe rp"
  using resolve_with_params_ok [OF assms] resolve_with_params_runas [OF leaf_runas assms]
  by (auto simp: expansion_safe_def expanded_ok_def primitive_ok_def list_all_iff)

end

lemma add_checked_validated:
  "add_checked d out = Ok out' \<Longrightarrow> list_all (\<lambda>d. def_validate d = Ok ()) out \<Longrightarrow> list_all (\<lambda>d. def_validate d = Ok ()) out'"
  by (auto simp: add_checked_def try_bind_Ok_iff split: if_splits)

interpretation fake: checked_source "fake_catalog entries present_layers" for entries present_layers
proof
  fix layer ds d
  assume "cs_read_layer (fake_catalog entries present_layers) layer = Ok ds" and d: "d \<in> set ds"
  then have "try_fold (\<lambda>(_, d) out. add_checked d out) (filter (\<lambda>(l, _). l = layer) entries) [] = Ok ds"
    by (simp add: fake_catalog_def fake_read_layer_def)
  then have "list_all (\<lambda>d. def_validate d = Ok ()) ds"
    by (rule try_fold_inv) (auto dest: add_checked_validated)
  with d show "def_validate d = Ok ()" by (simp add: list_all_iff)
qed


subsection \<open>What the directory reader lets through\<close>

text \<open>
  A record read from disk is valid, and sits where its id says: a name without a dot at the
  top of the layer, a dotted one in the directory of its namespace.
\<close>

definition stored :: "permission_def \<Rightarrow> bool" where
  "stored d \<longleftrightarrow> def_validate d = Ok ()
     \<and> (case namespace_of (pd_id d) of None \<Rightarrow> True | Some ns \<Rightarrow> is_safe_path_component ns)"

definition dir_ok :: "permission_def list \<Rightarrow> bool" where
  "dir_ok ds \<longleftrightarrow> list_all stored ds \<and> distinct (map pd_id ds)"

lemma read_policy_file_stored:
  assumes "read_policy_file fs p subdir = Ok d"
  shows "stored d"
proof -
  from assms obtain d' u where v: "def_validate d' = Ok u"
    and m: "(case (subdir, namespace_of (pd_id d')) of
       (None, None) \<Rightarrow> Ok d'
     | (Some dir, Some ns) \<Rightarrow>
         if dir = ns then try_bind (validate_path_component ''namespace'' ns) (\<lambda>_. Ok d')
         else Err (CatMisfiledPolicy p)
     | _ \<Rightarrow> Err (CatMisfiledPolicy p)) = Ok d"
    unfolding read_policy_file_def try_bind_Ok_iff by blast
  from m have "d' = d \<and> (case namespace_of (pd_id d') of None \<Rightarrow> True | Some ns \<Rightarrow> is_safe_path_component ns)"
    by (cases subdir; cases "namespace_of (pd_id d')")
      (simp_all add: validate_path_component_def try_bind_Ok_iff split: if_split_asm)
  then show ?thesis using v by (auto simp: stored_def)
qed

lemma push_def_ok: "push_def d out = Ok out' \<Longrightarrow> stored d \<Longrightarrow> dir_ok out \<Longrightarrow> dir_ok out'"
  by (auto simp: push_def_def dir_ok_def split: if_splits)

lemma read_sub_entry_ok: "read_sub_entry fs dir ns sub out = Ok out' \<Longrightarrow> dir_ok out \<Longrightarrow> dir_ok out'"
  by (auto simp: read_sub_entry_def try_bind_Ok_iff Let_def split: if_splits
      dest: read_policy_file_stored intro: push_def_ok)

lemma read_entry_ok:
  assumes "read_entry fs layer_dir entry out = Ok out'" and "dir_ok out"
  shows "dir_ok out'"
proof -
  have sub: "dir_ok c" if "try_fold (read_sub_entry fs p ns) subs out = Ok c" for p ns subs c
    using that assms(2) by (rule try_fold_inv) (rule read_sub_entry_ok)
  have top: "dir_ok c" if "read_policy_file fs p s = Ok d" "push_def d out = Ok c" for p s d c
    using push_def_ok [OF that(2) read_policy_file_stored [OF that(1)] assms(2)] .
  show ?thesis
    using assms
    by (auto simp: read_entry_def try_bind_Ok_iff Let_def split: if_splits intro: sub top)
qed

lemma read_one_layer_dir_ok: "read_one_layer_dir fs layer_dir = Ok ds \<Longrightarrow> dir_ok ds"
proof -
  assume "read_one_layer_dir fs layer_dir = Ok ds"
  then obtain entries where "try_fold (read_entry fs layer_dir) entries [] = Ok ds"
    by (auto simp: read_one_layer_dir_def try_bind_Ok_iff)
  then show "dir_ok ds"
  proof (rule try_fold_inv)
    show "dir_ok []" by (simp add: dir_ok_def)
  qed (rule read_entry_ok)
qed

lemma live_layer_stored:
  assumes "live_read_layer fs roots layer = Ok ds"
  shows "list_all stored ds"
  using assms unfolding live_read_layer_def
  by (rule try_fold_inv) (auto simp: Let_def try_bind_Ok_iff dir_ok_def dest!: read_one_layer_dir_ok split: if_splits)

interpretation live: checked_source "live_catalog fs roots" for fs roots
  by unfold_locales (auto simp: live_catalog_def list_all_iff stored_def dest!: live_layer_stored)


subsection \<open>Include chains\<close>

lemma covers_risk_trans: "covers_risk a b \<Longrightarrow> covers_risk b c \<Longrightarrow> covers_risk a c"
  by (cases c; cases b; cases a) (auto simp: covers_risk_def Suc_le_eq split: option.splits)

lemma covers_risk_refl: "x \<noteq> None \<Longrightarrow> covers_risk x x"
  by (auto simp: covers_risk_def)

lemma chain_risk:
  assumes "resolve_inner show_f64 os cat version i [] = Ok (r, ws)" and "include_chain os cat i cs" and "length cs > 1"
    and "resolve_inner show_f64 os cat version (last cs) (butlast cs) = Ok (rm, wm)"
  shows "covers_risk (rp_risk r) (rp_risk rm)"
  using assms(2-)
proof (induction cs arbitrary: rm wm rule: rev_induct)
  case (snoc c cs)
  then have cs: "include_chain os cat i cs" "c \<in> set (direct_members os cat (last cs))" "cs \<noteq> []"
    by (auto simp: include_chain_def successively_append_iff hd_append split: if_splits)
  from chain_resolved [OF assms(1) cs(1)] obtain rl wl where
    l: "resolve_inner show_f64 os cat version (last cs) (butlast cs) = Ok (rl, wl)" by auto
  have "covers_risk (rp_risk rl) (rp_risk rm)"
    using resolved_risk [OF l cs(2)] snoc.prems(3) cs(3) by simp
  moreover have "rl = r \<or> covers_risk (rp_risk r) (rp_risk rl)"
  proof (cases "length cs > 1")
    case True
    with snoc.IH [OF cs(1) _ l] show ?thesis by simp
  next
    case False
    then obtain x where "cs = [x]" using cs(3) by (cases cs) auto
    then show ?thesis using cs(1) l assms(1) by (simp add: include_chain_def)
  qed
  ultimately show ?case using covers_risk_trans by blast
qed simp



subsection \<open>Layer names are single path components\<close>

lemma safe_layer_names:
  assumes "is_safe_path_component (os_family os)" and "is_safe_path_component (os_distro os)"
    and "\<And>v. os_version os = Some v \<Longrightarrow> is_safe_path_component v"
  shows "list_all is_safe_path_component (layer_names os)"
proof -
  have dash: "a @ ''-'' @ b \<noteq> ''.''" "a @ ''-'' @ b \<noteq> ''..''" for a b :: string
  proof -
    have "CHR ''-'' \<in> set (a @ ''-'' @ b)" "CHR ''-'' \<notin> set ''.''" "CHR ''-'' \<notin> set ''..''" by simp_all
    then show "a @ ''-'' @ b \<noteq> ''.''" "a @ ''-'' @ b \<noteq> ''..''" by metis+
  qed
  have two: "is_safe_path_component (a @ ''-'' @ b)" if "is_safe_path_component a" "is_safe_path_component b" for a b
    using that dash [of a b] unfolding is_safe_path_component_def by (simp add: list_all_append)
  show ?thesis
    using assms two two [OF assms(1) two [OF assms(2)]] by (auto simp: layer_names_def split: option.splits)
qed

lemma safe_linux: "is_safe_path_component ''linux''"
  by code_simp

lemma os_release_target_safe:
  assumes "os_release_target p ids = Ok os"
  shows "list_all is_safe_path_component (layer_names os)"
proof -
  from assms obtain i vid where ids: "ids = (Some i, vid)"
    by (cases ids; cases "fst ids") (auto simp: os_release_target_def)
  define distro where "distro = (if i = ''astralinux'' then ''astra'' else i)"
  define version where "version = (if vid = Some [] then None else vid)"
  from assms have "os_family os = ''linux'' \<and> os_distro os = distro \<and> os_version os = version
      \<and> is_safe_path_component distro \<and> (\<forall>v. version = Some v \<longrightarrow> is_safe_path_component v)"
    unfolding ids os_release_target_def Let_def
    by (simp add: distro_def [symmetric] version_def [symmetric] split: option.split_asm if_split_asm)
      auto
  then show ?thesis using safe_linux by (intro safe_layer_names) simp_all
qed

lemma detect_from_safe:
  "detect_from open_file p = Ok os \<Longrightarrow> list_all is_safe_path_component (layer_names os)"
  by (auto simp: detect_from_def try_bind_Ok_iff dest: os_release_target_safe)

lemma os_target_new_safe: "os_target_new f d v = Ok os \<Longrightarrow> list_all is_safe_path_component (layer_names os)"
  by (rule safe_layer_names)
    (auto simp: os_target_new_def try_bind_Ok_iff validate_path_component_def split: option.splits if_splits)

lemma path_join_component:
  assumes "starts_with root ''/''" and "is_safe_path_component l"
  shows "path_components (path_join root l) = (True, snd (path_components root) @ [l])"
proof -
  have sep: "CHR ''/'' \<notin> set l"
    using assms(2) by (auto simp: is_safe_path_component_def list_all_iff is_ascii_lowercase_def is_ascii_digit_def)
  then have l: "split_on (CHR ''/'') l = [l]" "l \<noteq> []" "l \<noteq> ''.''"
    using assms(2) by (simp_all add: is_safe_path_component_def split_on_id)
  from sep l(2) have rel: "\<not> starts_with l ''/''" by (cases l) (auto simp: starts_with_def)
  define cs where "cs = filter (\<lambda>c. c \<noteq> []) (split_on (CHR ''/'') root)"
  have "filter (\<lambda>c. c \<noteq> []) (split_on (CHR ''/'') (path_join root l)) = cs @ [l]"
  proof (cases "ends_with root ''/''")
    case True
    then obtain r0 where "root = r0 @ ''/''" by (auto simp: ends_with_iff)
    then show ?thesis using rel l by (simp add: path_join_def cs_def ends_with_def split_on_snoc)
  next
    case False
    moreover have "root \<noteq> []" using assms(1) by (auto simp: starts_with_iff)
    ultimately show ?thesis using rel l by (simp add: path_join_def cs_def split_on_snoc)
  qed
  moreover have "starts_with (path_join root l) ''/''"
    using assms(1) rel by (auto simp: path_join_def starts_with_iff)
  ultimately show ?thesis
    using assms(1) l by (simp add: path_components_def Let_def cs_def)
qed


subsection \<open>A catalog on disk\<close>

definition sample_def :: "string \<Rightarrow> permission_def" where
  "sample_def i =
     \<lparr>pd_id = i, pd_risk = Some Contained, pd_category = None, pd_groups = LoAppend [], pd_sudo = LoAppend [], pd_runas = None,
      pd_limits = None, pd_replace = False, pd_includes = [], pd_include_categories = [], pd_files = [], pd_params = []\<rparr>"

text \<open>A vendor root with a leaf and a bundle that includes it, and a site root that restates the leaf.\<close>

definition sample_toml :: "string \<Rightarrow> string + permission_def" where
  "sample_toml text =
     (if text = ''/v/linux/logs.toml''
      then Ok ((sample_def ''logs'')\<lparr>pd_groups := LoReplace [''adm''], pd_sudo := LoReplace [''/usr/bin/tail''], pd_runas := Some ''syslog'',
                 pd_risk := Some EscalationCapable\<rparr>)
      else if text = ''/v/linux/ops.toml''
      then Ok ((sample_def ''ops'')\<lparr>pd_risk := None, pd_includes := [inclusion_bare ''logs'']\<rparr>)
      else if text = ''/s/linux/logs.toml''
      then Ok ((sample_def ''logs'')\<lparr>pd_replace := True, pd_groups := LoReplace [''nobody'']\<rparr>)
      else Err text)"

definition sample_fs :: catalog_fs where
  "sample_fs =
     \<lparr>cf_is_dir = (\<lambda>p. p = ''/v/linux'' \<or> p = ''/s/linux''),
      cf_is_file = (\<lambda>p. p = ''/v/linux/logs.toml'' \<or> p = ''/v/linux/ops.toml'' \<or> p = ''/s/linux/logs.toml''),
      cf_is_symlink = (\<lambda>_. False),
      cf_read_dir = (\<lambda>p. if p = ''/v/linux'' then Ok [Ok ''logs.toml'', Ok ''ops.toml''] else Ok [Ok ''logs.toml'']),
      cf_open = (\<lambda>p. Ok \<lparr>fv_reported = 9, fv_bytes = p\<rparr>),
      cf_toml = sample_toml\<rparr>"

definition sample_os :: os_target where
  "sample_os = \<lparr>os_family = ''linux'', os_distro = ''debian'', os_version = None\<rparr>"

definition sample_expansion :: "catalog_error + resolved_permission \<times> catalog_warning list" where
  "sample_expansion = resolve_with_params (\<lambda>_. []) ''ops'' [] sample_os (live_catalog sample_fs [''/v'', ''/s'']) None"

text \<open>What a result hands out; an error hands out nothing.\<close>

definition handed_out :: "catalog_error + resolved_permission \<times> catalog_warning list \<Rightarrow> (string \<times> string option) list" where
  "handed_out x =
     (case x of Ok (rp, _) \<Rightarrow> map (\<lambda>p. (pm_value p, pm_runas p)) (rp_groups rp @ rp_sudo rp) | Err _ \<Rightarrow> [])"

lemma sample_expansion_value:
  "handed_out sample_expansion = [(''adm'', None), (''/usr/bin/tail'', Some ''syslog'')]"
  by code_simp


subsection \<open>Properties\<close>

text \<open>
  C10: whatever a permission expands to, with whatever parameters a role supplies, over the
  catalog directories on disk: every group it hands out is a legal group name, every sudo
  command passes the command gate and runs as no account or as one whose name passes the
  run-as gate, every file path passes the path gate with the shape its path and flags imply,
  no path occurs twice, and no member is left unexpanded.
\<close>

theorem catalog_expansion_gated:
  assumes "resolve_with_params show_f64 i params os (live_catalog fs roots) version = Ok (rp, ws)"
  shows "expansion_safe rp"
  using assms by (rule live.expansion_gated)

theorem catalog_expansion_gated_witness:
  "\<exists>rp ws. sample_expansion = Ok (rp, ws) \<and> expansion_safe rp
     \<and> map pm_value (rp_sudo rp) = [''/usr/bin/tail'']"
proof -
  from sample_expansion_value obtain rp ws where r: "sample_expansion = Ok (rp, ws)"
    by (auto simp: handed_out_def split: sum.splits)
  have "map pm_value (case sample_expansion of Ok (rp, _) \<Rightarrow> rp_sudo rp | Err _ \<Rightarrow> []) = [''/usr/bin/tail'']"
    by code_simp
  then have "map pm_value (rp_sudo rp) = [''/usr/bin/tail'']" by (simp add: r)
  then show ?thesis
    using r catalog_expansion_gated [OF r [unfolded sample_expansion_def]] by (intro exI [of _ rp] exI [of _ ws]) simp
qed

text \<open>
  C11: a permission that resolves has a finite include graph below it: no chain of includes
  visits a permission twice, and none is longer than the depth limit of 64.
\<close>

theorem includes_bounded:
  assumes "catalog_resolve show_f64 i os cat version = Ok x" and "include_chain os cat i cs"
  shows "distinct cs \<and> length cs \<le> MAX_INCLUDE_DEPTH"
proof -
  from chain_resolved [OF assms(1) [unfolded catalog_resolve_def] assms(2)] obtain y
    where "resolve_inner show_f64 os cat version (last cs) (butlast cs) = Ok y" and "distinct cs" by blast
  then show ?thesis using resolve_inner_path by fastforce
qed

theorem includes_bounded_witness:
  "distinct [''ops'', ''logs''] \<and> length [''ops'', ''logs''] \<le> MAX_INCLUDE_DEPTH"
proof -
  have "\<not> isl (catalog_resolve (\<lambda>_. []) ''ops'' sample_os (live_catalog sample_fs [''/v'']) None)" by code_simp
  then obtain x where x: "catalog_resolve (\<lambda>_. []) ''ops'' sample_os (live_catalog sample_fs [''/v'']) None = Ok x"
    by (metis sum.collapse(2))
  have "include_chain sample_os (live_catalog sample_fs [''/v'']) ''ops'' [''ops'', ''logs'']" by code_simp
  from includes_bounded [OF x this] show ?thesis .
qed

text \<open>
  C12: the risk of a resolved permission covers everything below it: along every chain of
  includes the permission at the end has a risk no higher than the one at the start, and one
  that states no risk counts as capable of escalation.
\<close>

theorem bundle_risk_honest:
  assumes "catalog_resolve show_f64 i os cat version = Ok (r, ws)" and "include_chain os cat i cs" and "length cs > 1"
    and "resolve_inner show_f64 os cat version (last cs) (butlast cs) = Ok (rm, wm)"
  shows "covers_risk (rp_risk r) (rp_risk rm)"
  using chain_risk assms by (simp add: catalog_resolve_def)

theorem bundle_risk_honest_witness:
  "\<exists>r rm. map_option rp_risk r = Some (Some EscalationCapable) \<and> covers_risk (rp_risk (the r)) (rp_risk rm)"
proof -
  let ?cat = "live_catalog sample_fs [''/v'']"
  let ?risk = "\<lambda>x. case x of Ok (r, _) \<Rightarrow> Some (rp_risk r) | Err _ \<Rightarrow> None"
  have a: "?risk (catalog_resolve (\<lambda>_. []) ''ops'' sample_os ?cat None) = Some (Some EscalationCapable)" by code_simp
  then obtain r ws where r: "catalog_resolve (\<lambda>_. []) ''ops'' sample_os ?cat None = Ok (r, ws)"
    by (auto split: sum.splits)
  have "?risk (resolve_inner (\<lambda>_. []) sample_os ?cat None ''logs'' [''ops'']) = Some (Some EscalationCapable)" by code_simp
  then obtain rm wm where rm: "resolve_inner (\<lambda>_. []) sample_os ?cat None (last [''ops'', ''logs'']) (butlast [''ops'', ''logs'']) = Ok (rm, wm)"
    by (auto split: sum.splits)
  have c: "include_chain sample_os ?cat ''ops'' [''ops'', ''logs'']" by code_simp
  from bundle_risk_honest [OF r c _ rm] a r show ?thesis by (intro exI [of _ "Some r"] exI [of _ rm]) simp
qed





text \<open>
  the target cannot redirect the catalog read: whether it comes from the option or from
  \<^verbatim>\<open>/etc/os-release\<close>, every layer directory the reader joins onto an absolute root is a direct
  child of that root.
\<close>

theorem layer_stays_under_root:
  assumes "detect_os_target open_file spec = Ok os" and "layer \<in> set (layer_names os)" and "starts_with root ''/''"
  shows "path_components (path_join root layer) = (True, snd (path_components root) @ [layer])"
proof -
  have "list_all is_safe_path_component (layer_names os)"
  proof (cases spec)
    case None
    then show ?thesis using assms(1) by (simp add: detect_os_target_def detect_from_safe)
  next
    case (Some s)
    then show ?thesis
      using assms(1) by (auto simp: detect_os_target_def split: list.splits intro: os_target_new_safe)
  qed
  then show ?thesis using assms(2,3) by (intro path_join_component) (simp_all add: list_all_iff)
qed

theorem layer_stays_under_root_witness:
  "path_components (path_join ''/etc/census'' ''linux-debian-12'') = (True, [''etc'', ''census'', ''linux-debian-12''])"
proof -
  let ?os = "\<lparr>os_family = ''linux'', os_distro = ''debian'', os_version = Some ''12''\<rparr>"
  have "detect_os_target (\<lambda>_. Ok \<lparr>fv_reported = 9, fv_bytes = []\<rparr>) (Some ''linux-debian-12'') = Ok ?os" by code_simp
  moreover have "''linux-debian-12'' \<in> set (layer_names ?os)" by code_simp
  moreover have "starts_with ''/etc/census'' ''/''" by code_simp
  ultimately have "path_components (path_join ''/etc/census'' ''linux-debian-12'')
      = (True, snd (path_components ''/etc/census'') @ [''linux-debian-12''])"
    by (rule layer_stays_under_root)
  moreover have "snd (path_components ''/etc/census'') = [''etc'', ''census'']" by code_simp
  ultimately show ?thesis by simp
qed

text \<open>The records of two root lists are read one after the other.\<close>

lemma live_read_layer_append:
  "live_read_layer fs (vendor @ site) layer =
     try_bind (live_read_layer fs vendor layer) (\<lambda>a. try_bind (live_read_layer fs site layer) (\<lambda>b. Ok (a @ b)))"
proof -
  let ?step = "\<lambda>root out.
       let layer_dir = path_join root layer in
       if \<not> cf_is_dir fs layer_dir then Ok out
       else try_bind (read_one_layer_dir fs layer_dir) (\<lambda>defs. Ok (out @ defs))"
  have "try_fold ?step site (a @ b) = try_bind (try_fold ?step site b) (\<lambda>c. Ok (a @ c))" for a b
  proof (induction site arbitrary: b)
    case (Cons root site)
    show ?case
    proof (cases "cf_is_dir fs (path_join root layer)")
      case True
      show ?thesis
        using Cons.IH True by (cases "read_one_layer_dir fs (path_join root layer)") (simp_all add: Let_def)
    qed (use Cons.IH in \<open>simp add: Let_def\<close>)
  qed simp
  then have site: "try_fold ?step site (a @ []) = try_bind (try_fold ?step site []) (\<lambda>c. Ok (a @ c))" for a
    by blast
  show ?thesis
    unfolding live_read_layer_def try_fold_append
  proof (cases "try_fold ?step vendor []")
    case (Inr a)
    then show "try_bind (try_fold ?step vendor []) (try_fold ?step site) =
        try_bind (try_fold ?step vendor []) (\<lambda>a. try_bind (try_fold ?step site []) (\<lambda>b. Ok (a @ b)))"
      using site [of a] by (simp only: try_bind_simps append_Nil2)
  qed simp
qed

lemma find_append_Some: "find P xs = Some y \<Longrightarrow> find P (xs @ ys) = Some y"
  by (induction xs) auto

lemma find_append_None: "find P xs = None \<Longrightarrow> find P ys = None \<Longrightarrow> find P (xs @ ys) = None"
  by (induction xs) auto


lemma overlay_statement:
  assumes "state_layer (live_catalog fs vendor) i layer lds = Ok a"
    and "state_layer (live_catalog fs (vendor @ site)) i layer lds = Ok b"
    and "\<And>ds. live_read_layer fs site layer = Ok ds \<Longrightarrow> i \<in> pd_id ` set ds \<Longrightarrow>
           \<exists>ds0. live_read_layer fs vendor layer = Ok ds0 \<and> i \<in> pd_id ` set ds0"
  shows "a = b"
proof -
  let ?f = "find (\<lambda>d. pd_id d = i)"
  from assms(1,2) obtain v s where r: "live_read_layer fs vendor layer = Ok v" "live_read_layer fs site layer = Ok s"
    and a: "a = lds @ (case ?f v of None \<Rightarrow> [] | Some d \<Rightarrow> [(layer, d)])"
    and b: "b = lds @ (case ?f (v @ s) of None \<Rightarrow> [] | Some d \<Rightarrow> [(layer, d)])"
    unfolding state_layer_def live_catalog_def by (auto simp: live_read_layer_append try_bind_Ok_iff)
  have "?f (v @ s) = ?f v"
  proof (cases "?f v")
    case None
    then have "i \<notin> pd_id ` set v" by (auto simp: find_None_iff)
    then have "i \<notin> pd_id ` set s" using assms(3) r by auto
    then have "?f s = None" by (auto simp: find_None_iff)
    with None show ?thesis by (simp add: find_append_None)
  qed (simp add: find_append_Some)
  then show ?thesis using a b by simp
qed

lemma try_fold_agree:
  "try_fold f xs z = Ok a \<Longrightarrow> try_fold g xs z = Ok b \<Longrightarrow>
   (\<And>x z a b. x \<in> set xs \<Longrightarrow> f x z = Ok a \<Longrightarrow> g x z = Ok b \<Longrightarrow> a = b) \<Longrightarrow> a = b"
proof (induction xs arbitrary: z)
  case (Cons x xs)
  from Cons.prems(1) obtain c where c: "f x z = Ok c" "try_fold f xs c = Ok a" by (auto simp: try_bind_Ok_iff)
  from Cons.prems(2) obtain c' where c': "g x z = Ok c'" "try_fold g xs c' = Ok b" by (auto simp: try_bind_Ok_iff)
  have "c = c'" by (rule Cons.prems(3) [OF _ c(1) c'(1)]) simp
  then show ?case using c' by (intro Cons.IH [OF c(2)]) (auto intro: Cons.prems(3))
qed simp

text \<open>
  within a layer a later root does not override an earlier one: adding site roots behind
  the vendor roots leaves a permission exactly as the vendor roots define it whenever every
  layer in which the site states it is one in which the vendor does.
\<close>

theorem site_record_shadowed:
  assumes "resolve_leaf i os (live_catalog fs vendor) = Ok (r, ws)"
    and "resolve_leaf i os (live_catalog fs (vendor @ site)) = Ok (r', ws')"
    and "\<And>layer ds. layer \<in> set (layer_names os) \<Longrightarrow> live_read_layer fs site layer = Ok ds \<Longrightarrow> i \<in> pd_id ` set ds \<Longrightarrow>
           \<exists>ds0. live_read_layer fs vendor layer = Ok ds0 \<and> i \<in> pd_id ` set ds0"
  shows "r' = r"
proof -
  from assms(1,2) obtain a b where
    a: "try_fold (state_layer (live_catalog fs vendor) i) (layer_names os) [] = Ok a" "r = merged i a" and
    b: "try_fold (state_layer (live_catalog fs (vendor @ site)) i) (layer_names os) [] = Ok b" "r' = merged i b"
    by (auto simp: resolve_leaf_merged statements_def try_bind_Ok_iff split: if_splits)
  have "a = b" using a(1) b(1) by (rule try_fold_agree) (rule overlay_statement, use assms(3) in auto)
  then show ?thesis using a(2) b(2) by simp
qed


theorem site_record_shadowed_witness:
  "\<exists>r. map pm_value (rp_groups r) = [''adm'']
     \<and> (\<exists>ws. resolve_leaf ''logs'' sample_os (live_catalog sample_fs ([''/v''] @ [''/s''])) = Ok (r, ws))"
proof -
  let ?get = "\<lambda>roots. resolve_leaf ''logs'' sample_os (live_catalog sample_fs roots)"
  let ?groups = "\<lambda>x. case x of Ok (r, _) \<Rightarrow> map pm_value (rp_groups r) | Err _ \<Rightarrow> []"
  have "?groups (?get [''/v'']) = [''adm'']" by code_simp
  then obtain r ws where r: "?get [''/v''] = Ok (r, ws)" and g: "map pm_value (rp_groups r) = [''adm'']"
    by (auto split: sum.splits)
  have "?groups (?get ([''/v''] @ [''/s''])) = [''adm'']" by code_simp
  then obtain r' ws' where r': "?get ([''/v''] @ [''/s'']) = Ok (r', ws')" by (auto split: sum.splits)
  have layers: "layer_names sample_os = [''linux'', ''linux-debian'']" by code_simp
  have "(case live_read_layer sample_fs [''/v''] ''linux'' of Ok ds \<Rightarrow> map pd_id ds | Err _ \<Rightarrow> []) = [''logs'', ''ops'']" by code_simp
  then obtain ds0 where ds0: "live_read_layer sample_fs [''/v''] ''linux'' = Ok ds0" "map pd_id ds0 = [''logs'', ''ops'']"
    by (auto split: sum.splits)
  from ds0(2) have "''logs'' \<in> set (map pd_id ds0)" by simp
  moreover have "live_read_layer sample_fs [''/s''] ''linux-debian'' = Ok []" by code_simp
  ultimately have "\<exists>ds0. live_read_layer sample_fs [''/v''] layer = Ok ds0 \<and> ''logs'' \<in> pd_id ` set ds0"
    if "layer \<in> set (layer_names sample_os)" "live_read_layer sample_fs [''/s''] layer = Ok ds" "''logs'' \<in> pd_id ` set ds"
    for layer ds
    using that ds0(1) unfolding layers by auto
  from site_record_shadowed [OF r r' this] g r' show ?thesis by auto
qed

end
