(* ===== verification/Resolve.thy ===== *)
theory Resolve
  imports Catalog
begin

text \<open>
  \<^verbatim>\<open>src/model.rs\<close>: resolution of a declaration into the target accounts and groups.  A role's
  composition is read from the role store as \<^verbatim>\<open>src/rolestore.rs\<close> reads it; the expansion of a
  permission by the catalog is a function the inputs carry, with its own error and warning
  types.
\<close>

subsection \<open>Inputs, warnings and errors\<close>

record ('c, 'v) compile_inputs =
  ci_exists :: "path \<Rightarrow> bool"
  ci_open :: "path \<Rightarrow> io_error + file_view"
  ci_toml :: "string \<Rightarrow> string + slice"
  ci_expand :: "string \<Rightarrow> (string, param_value) btree \<Rightarrow> 'c + resolved_permission \<times> 'v list"

datatype 'v resolve_warning =
  RawPrimitiveAlongsidePermissions string string
| InlineSudoUnlabeled string
| GroupsPrimitiveOnGroupTarget string string
| InlineSudoDroppedOnGroupTarget string string
| CatalogWarning 'v

datatype file_grant_reason = RawPlaceholder | PathDefect path_defect

datatype inline_reason = InlineEmpty | InlineNotPrintable | InlineNotAbsolute | InlineMetachar | InlineDotDot

datatype 'c resolve_error =
  ResRoleStore role_store_error
| ResCatalog string 'c
| UndeclaredGroup string
| InvalidFileGrant string path file_grant_reason
| InvalidInlineSudo string string inline_reason

subsection \<open>Raw primitives\<close>

definition INLINE_SUDO_FORBIDDEN :: string where
  "INLINE_SUDO_FORBIDDEN = '';|&$<>()'' @ [CHR 0x60] @ ''{}*?[]!#''"

definition INLINE_SUDO_PRINTABLE_ASCII :: "char \<Rightarrow> bool" where
  "INLINE_SUDO_PRINTABLE_ASCII c \<longleftrightarrow> 0x21 \<le> byte c \<and> byte c \<le> 0x7E"

definition inline_sudo_command_defect :: "string \<Rightarrow> inline_reason option" where
  "inline_sudo_command_defect v =
     (if v = [] then Some InlineEmpty
      else if \<not> list_all INLINE_SUDO_PRINTABLE_ASCII v then Some InlineNotPrintable
      else if \<not> starts_with v ''/'' then Some InlineNotAbsolute
      else if list_ex (\<lambda>c. c \<in> set INLINE_SUDO_FORBIDDEN) v then Some InlineMetachar
      else if has_dotdot_component v then Some InlineDotDot
      else None)"

fun seed_inline_sudo :: "string \<Rightarrow> string list \<Rightarrow> sudo_command list \<Rightarrow> 'c resolve_error + sudo_command list" where
  "seed_inline_sudo role [] acc = Ok acc"
| "seed_inline_sudo role (cmd # cmds) acc =
     (case inline_sudo_command_defect cmd of
        Some reason \<Rightarrow> Err (InvalidInlineSudo role cmd reason)
      | None \<Rightarrow> seed_inline_sudo role cmds (push_unique (sudo_root cmd) acc))"

fun raw_role_grants :: "string \<Rightarrow> file_grant list \<Rightarrow> 'c resolve_error + (file_grant \<times> string) list" where
  "raw_role_grants role [] = Ok []"
| "raw_role_grants role (g # gs) =
     (if has_placeholder (fg_path g) then Err (InvalidFileGrant role (fg_path g) RawPlaceholder)
      else case static_path_defect g of
        Some reason \<Rightarrow> Err (InvalidFileGrant role (fg_path g) (PathDefect reason))
      | None \<Rightarrow> try_bind (raw_role_grants role gs) (\<lambda>rest. Ok ((g, ''role:'' @ role) # rest)))"

definition merge_limits_first_wins :: "limits \<Rightarrow> limits \<Rightarrow> limits" where
  "merge_limits_first_wins acc ex =
     \<lparr>nofile = (case nofile acc of None \<Rightarrow> nofile ex | Some n \<Rightarrow> Some n),
      nproc = (case nproc acc of None \<Rightarrow> nproc ex | Some n \<Rightarrow> Some n)\<rparr>"

definition account_lints :: "string \<Rightarrow> role_composition \<Rightarrow> 'v resolve_warning list" where
  "account_lints role cmp =
     (if rc_permissions cmp \<noteq> [] then
        (if rc_groups cmp \<noteq> [] then [RawPrimitiveAlongsidePermissions role ''groups''] else [])
      @ (if rc_sudo_role cmp \<noteq> None then [RawPrimitiveAlongsidePermissions role ''sudo_role''] else [])
      @ (if rc_limits cmp \<noteq> limits_default then [RawPrimitiveAlongsidePermissions role ''limits''] else [])
      @ (if rc_files cmp \<noteq> [] then [RawPrimitiveAlongsidePermissions role ''files''] else [])
      else [])"

definition push_group_binding_lints :: "string \<Rightarrow> string \<Rightarrow> role_composition \<Rightarrow> 'v resolve_warning list" where
  "push_group_binding_lints role grp cmp =
     (if rc_permissions cmp \<noteq> [] \<and> rc_files cmp \<noteq> [] then [RawPrimitiveAlongsidePermissions role ''files''] else [])
   @ (if rc_sudo cmp \<noteq> [] then [InlineSudoDroppedOnGroupTarget role grp] else [])"

subsection \<open>Accounts\<close>

text \<open>What one account has accumulated while its permissions are expanded.\<close>

record 'v expansion =
  ex_groups :: "string list"
  ex_sudo :: "sudo_command list"
  ex_grants :: "resolved_file_grant list"
  ex_limits :: limits
  ex_warnings :: "'v resolve_warning list"

definition primitive_command :: "sourced_primitive \<Rightarrow> sudo_command" where
  "primitive_command p = \<lparr>sc_command = pm_value p, sc_runas = pm_runas p\<rparr>"

definition expand_permission ::
    "('c, 'v) compile_inputs \<Rightarrow> string \<Rightarrow> bool \<Rightarrow> permission_ref \<Rightarrow> 'v expansion \<Rightarrow> 'c resolve_error + 'v expansion" where
  "expand_permission ci role raw_limits_present perm ex =
     try_bind (map_err (ResCatalog role) (ci_expand ci (pr_id perm) (pr_params perm))) (\<lambda>(rp, ws).
       Ok \<lparr>ex_groups = extend_unique (map pm_value (rp_groups rp)) (ex_groups ex),
           ex_sudo = extend_unique (map primitive_command (rp_sudo rp)) (ex_sudo ex),
           ex_grants = ex_grants ex @ rp_file_grants rp,
           ex_limits = (if \<not> raw_limits_present
              then (case rp_limits rp of Some l \<Rightarrow> merge_limits_first_wins (ex_limits ex) l | None \<Rightarrow> ex_limits ex)
              else ex_limits ex),
           ex_warnings = ex_warnings ex @ map CatalogWarning ws\<rparr>)"

fun expand_permissions ::
    "('c, 'v) compile_inputs \<Rightarrow> string \<Rightarrow> bool \<Rightarrow> permission_ref list \<Rightarrow> 'v expansion \<Rightarrow> 'c resolve_error + 'v expansion" where
  "expand_permissions ci role raw [] ex = Ok ex"
| "expand_permissions ci role raw (p # ps) ex =
     try_bind (expand_permission ci role raw p ex) (expand_permissions ci role raw ps)"

definition read_role :: "('c, 'v) compile_inputs \<Rightarrow> decl \<Rightarrow> string \<Rightarrow> 'c resolve_error + role_composition" where
  "read_role ci d role =
     map_err ResRoleStore (read_composition (ci_exists ci) (ci_open ci) (ci_toml ci) (d_role_store d) role)"

definition resolve_account ::
    "('c, 'v) compile_inputs \<Rightarrow> decl \<Rightarrow> role_account \<Rightarrow> u32 \<Rightarrow>
     'c resolve_error + resolved_account \<times> 'v resolve_warning list" where
  "resolve_account ci d acct uid =
     (let role = ac_role acct in
      try_bind (read_role ci d role) (\<lambda>cmp.
      try_bind (seed_inline_sudo role (rc_sudo cmp) []) (\<lambda>sudo.
      try_bind (raw_role_grants role (rc_files cmp)) (\<lambda>raw.
      try_bind (expand_permissions ci role (rc_limits cmp \<noteq> limits_default) (rc_permissions cmp)
          \<lparr>ex_groups = extend_unique (rc_groups cmp) [], ex_sudo = sudo, ex_grants = union_file_grants raw None,
           ex_limits = rc_limits cmp,
           ex_warnings = (if rc_sudo cmp \<noteq> [] then [InlineSudoUnlabeled role] else []) @ account_lints role cmp\<rparr>) (\<lambda>ex.
      Ok ((account_builder role uid (shell_for d acct) (home_for d acct))
            \<lparr>ra_groups := ex_groups ex, ra_sudo_role := rc_sudo_role cmp, ra_sudo_commands := ex_sudo ex,
             ra_limits := ex_limits ex, ra_file_grants := union_resolved_file_grants (ex_grants ex)\<rparr>,
          ex_warnings ex))))))"

fun resolve_accounts ::
    "('c, 'v) compile_inputs \<Rightarrow> decl \<Rightarrow> role_account list \<Rightarrow>
     'c resolve_error + resolved_account list \<times> 'v resolve_warning list" where
  "resolve_accounts ci d [] = Ok ([], [])"
| "resolve_accounts ci d (a # as) =
     (case ac_uid a of
        None \<Rightarrow> resolve_accounts ci d as
      | Some uid \<Rightarrow>
          try_bind (resolve_account ci d a uid) (\<lambda>(r, ws).
            try_bind (resolve_accounts ci d as) (\<lambda>(rs, ws'). Ok (r # rs, ws @ ws'))))"

definition resolve ::
    "decl \<Rightarrow> ('c, 'v) compile_inputs \<Rightarrow> 'c resolve_error + resolved_account list \<times> 'v resolve_warning list" where
  "resolve d ci = resolve_accounts ci d (d_role_accounts d)"

subsection \<open>Groups\<close>

definition group_builder :: "string \<Rightarrow> provenance \<Rightarrow> resolved_group" where
  "group_builder nm prov = \<lparr>rg_name = nm, rg_gid = None, rg_provenance = prov, rg_members = [],
     rg_sudo_commands = [], rg_file_grants = [], rg_limits = limits_default, rg_bound_roles = []\<rparr>"

definition seed_group :: "group_spec \<Rightarrow> resolved_group" where
  "seed_group g =
     (group_builder (gs_name g) (if gs_adopt g then Adopted else Created))
       \<lparr>rg_gid := (if gs_adopt g then None else gs_gid g), rg_members := gs_members g\<rparr>"

record 'v binding_state =
  bs_group :: resolved_group
  bs_grants :: "resolved_file_grant list"
  bs_warned :: bool
  bs_warnings :: "'v resolve_warning list"

definition bind_permission ::
    "('c, 'v) compile_inputs \<Rightarrow> string \<Rightarrow> string \<Rightarrow> permission_ref \<Rightarrow> 'v binding_state \<Rightarrow>
     'c resolve_error + 'v binding_state" where
  "bind_permission ci role grp perm st =
     try_bind (map_err (ResCatalog role) (ci_expand ci (pr_id perm) (pr_params perm))) (\<lambda>(rp, ws).
       (let g = bs_group st; warn = rp_groups rp \<noteq> [] \<and> \<not> bs_warned st in
        Ok \<lparr>bs_group = g\<lparr>rg_sudo_commands := extend_unique (map primitive_command (rp_sudo rp)) (rg_sudo_commands g),
              rg_limits := (case rp_limits rp of Some l \<Rightarrow> merge_limits_first_wins (rg_limits g) l | None \<Rightarrow> rg_limits g)\<rparr>,
            bs_grants = bs_grants st @ rp_file_grants rp,
            bs_warned = (bs_warned st \<or> warn),
            bs_warnings = bs_warnings st @ map CatalogWarning ws
              @ (if warn then [GroupsPrimitiveOnGroupTarget role grp] else [])\<rparr>))"

fun bind_permissions ::
    "('c, 'v) compile_inputs \<Rightarrow> string \<Rightarrow> string \<Rightarrow> permission_ref list \<Rightarrow> 'v binding_state \<Rightarrow>
     'c resolve_error + 'v binding_state" where
  "bind_permissions ci role grp [] st = Ok st"
| "bind_permissions ci role grp (p # ps) st =
     try_bind (bind_permission ci role grp p st) (bind_permissions ci role grp ps)"

definition bind_role ::
    "('c, 'v) compile_inputs \<Rightarrow> decl \<Rightarrow> role_group \<Rightarrow> resolved_group \<Rightarrow>
     'c resolve_error + resolved_group \<times> 'v resolve_warning list" where
  "bind_role ci d rg g =
     (let role = bi_role rg in
      try_bind (read_role ci d role) (\<lambda>cmp.
      try_bind (raw_role_grants role (rc_files cmp)) (\<lambda>raw.
      try_bind (bind_permissions ci role (bi_group rg) (rc_permissions cmp)
          \<lparr>bs_group = g, bs_grants = union_file_grants raw None, bs_warned = False,
           bs_warnings = push_group_binding_lints role (bi_group rg) cmp\<rparr>) (\<lambda>st.
        (let g1 = bs_group st;
             g2 = (if bs_grants st \<noteq> []
               then g1\<lparr>rg_file_grants := union_resolved_file_grants (rg_file_grants g1 @ bs_grants st)\<rparr> else g1) in
         Ok (g2\<lparr>rg_bound_roles := push_unique role (rg_bound_roles g2)\<rparr>, bs_warnings st))))))"

text \<open>The first group of that name is updated in place.\<close>

fun bind_in :: "('c, 'v) compile_inputs \<Rightarrow> decl \<Rightarrow> role_group \<Rightarrow> resolved_group list \<Rightarrow>
     'c resolve_error + resolved_group list \<times> 'v resolve_warning list" where
  "bind_in ci d rg [] = Err (UndeclaredGroup (bi_group rg))"
| "bind_in ci d rg (g # gs) =
     (if rg_name g = bi_group rg
      then try_bind (bind_role ci d rg g) (\<lambda>(g', ws). Ok (g' # gs, ws))
      else try_bind (bind_in ci d rg gs) (\<lambda>(gs', ws). Ok (g # gs', ws)))"

fun bind_all :: "('c, 'v) compile_inputs \<Rightarrow> decl \<Rightarrow> role_group list \<Rightarrow> resolved_group list \<Rightarrow>
     'c resolve_error + resolved_group list \<times> 'v resolve_warning list" where
  "bind_all ci d [] gs = Ok (gs, [])"
| "bind_all ci d (rg # rgs) gs =
     try_bind (bind_in ci d rg gs) (\<lambda>(gs', ws).
       try_bind (bind_all ci d rgs gs') (\<lambda>(gs'', ws'). Ok (gs'', ws @ ws')))"

definition resolve_groups ::
    "decl \<Rightarrow> ('c, 'v) compile_inputs \<Rightarrow> 'c resolve_error + resolved_group list \<times> 'v resolve_warning list" where
  "resolve_groups d ci = bind_all ci d (d_role_groups d) (map seed_group (d_groups d))"

subsection \<open>What resolution guarantees\<close>

abbreviation path_safe :: "path \<Rightarrow> bool" where
  "path_safe p \<equiv> file_path_defect_substituted p = None"

text \<open>What resolution relies on: the catalog only hands out paths that pass its own gate.\<close>

definition expander_safe :: "('c, 'v) compile_inputs \<Rightarrow> bool" where
  "expander_safe ci \<longleftrightarrow>
     (\<forall>i ps rp ws. ci_expand ci i ps = Ok (rp, ws) \<longrightarrow> (\<forall>g\<in>set (rp_file_grants rp). path_safe (rfg_path g)))"

text \<open>A command the catalog produced for some permission.\<close>

definition expanded :: "('c, 'v) compile_inputs \<Rightarrow> sudo_command \<Rightarrow> bool" where
  "expanded ci c \<longleftrightarrow> (\<exists>i ps rp ws. ci_expand ci i ps = Ok (rp, ws) \<and> c \<in> primitive_command ` set (rp_sudo rp))"




lemma static_literal_safe: "static_path_defect g = None \<Longrightarrow> \<not> has_placeholder (fg_path g) \<Longrightarrow> path_safe (fg_path g)"
  by (auto simp: static_path_defect_def file_path_static_defect_def file_path_defect_substituted_def
      split: option.splits if_splits)

lemma raw_role_grants_safe:
  "raw_role_grants role gs = Ok raw \<Longrightarrow> \<forall>(g, l)\<in>set raw. path_safe (fg_path g)"
  by (induction gs arbitrary: raw)
    (auto simp: try_bind_Ok_iff split: if_splits option.splits dest: static_literal_safe)

lemma union_file_grants_paths:
  "set (grant_paths (union_file_grants raw via)) = fg_path ` fst ` set raw"
proof -
  let ?mk = "\<lambda>(g, layer). \<lparr>rfg_path = fg_path g, rfg_access = fg_access g, rfg_recursive = fg_recursive g,
      rfg_shape = shape_of g, rfg_sources = [\<lparr>sfg_layer = layer, sfg_via = via, sfg_binding = None\<rparr>]\<rparr>"
  have "union_file_grants raw via = fold add_grant (map ?mk raw) []"
    unfolding union_file_grants_def fold_map by (rule fold_cong) (auto simp: comp_def)
  moreover have "set (grant_paths (map ?mk raw)) = fg_path ` fst ` set raw" by force
  ultimately show ?thesis using fold_add_grant_paths [of "map ?mk raw" "[]"] by simp
qed

lemma union_file_grants_safe:
  assumes "raw_role_grants role gs = Ok raw" and "g \<in> set (union_file_grants raw via)"
  shows "path_safe (rfg_path g)"
proof -
  have "rfg_path g \<in> fg_path ` fst ` set raw"
    using assms(2) union_file_grants_paths [of raw via] by auto
  then show ?thesis using raw_role_grants_safe [OF assms(1)] by auto
qed

lemma union_resolved_safe:
  assumes "\<forall>g\<in>set gs. path_safe (rfg_path g)" and "g \<in> set (union_resolved_file_grants gs)"
  shows "path_safe (rfg_path g)"
proof -
  have "rfg_path g \<in> set (grant_paths gs)"
    using assms(2) fold_add_grant_paths [of gs "[]"] by (auto simp: union_resolved_file_grants_def)
  then show ?thesis using assms(1) by auto
qed







text \<open>What a binding may change of a group: only its grants, limits and bound roles.\<close>

definition same_identity :: "resolved_group \<Rightarrow> resolved_group \<Rightarrow> bool" where
  "same_identity g h \<longleftrightarrow> rg_name h = rg_name g \<and> rg_gid h = rg_gid g \<and> rg_provenance h = rg_provenance g
     \<and> rg_members h = rg_members g"

definition group_sound :: "('c, 'v) compile_inputs \<Rightarrow> resolved_group \<Rightarrow> bool" where
  "group_sound ci g \<longleftrightarrow> distinct (rg_sudo_commands g) \<and> distinct (grant_paths (rg_file_grants g))
     \<and> distinct (rg_bound_roles g)
     \<and> (\<forall>x\<in>set (rg_file_grants g). path_safe (rfg_path x)) \<and> (\<forall>c\<in>set (rg_sudo_commands g). expanded ci c)"

lemma same_identity_refl [simp]: "same_identity g g"
  by (simp add: same_identity_def)

lemma same_identity_trans: "same_identity g h \<Longrightarrow> same_identity h k \<Longrightarrow> same_identity g k"
  by (simp add: same_identity_def)

definition binding_ok :: "('c, 'v) compile_inputs \<Rightarrow> resolved_group \<Rightarrow> 'v binding_state \<Rightarrow> bool" where
  "binding_ok ci g st \<longleftrightarrow> same_identity g (bs_group st) \<and> group_sound ci (bs_group st)
     \<and> (\<forall>x\<in>set (bs_grants st). path_safe (rfg_path x))"

lemma bind_permission_ok:
  fixes ci :: "('c, 'v) compile_inputs"
  assumes "expander_safe ci" and "bind_permission ci role grp p st = Ok st'" and "binding_ok ci g st"
  shows "binding_ok ci g st'"
proof -
  from assms(2) obtain rp :: resolved_permission and ws where rp: "ci_expand ci (pr_id p) (pr_params p) = Ok (rp, ws)"
    and st': "bs_grants st' = bs_grants st @ rp_file_grants rp"
      "\<exists>l. bs_group st' = (bs_group st)\<lparr>rg_sudo_commands :=
            extend_unique (map primitive_command (rp_sudo rp)) (rg_sudo_commands (bs_group st)), rg_limits := l\<rparr>"
    by (cases "ci_expand ci (pr_id p) (pr_params p)")
      (auto simp: bind_permission_def try_bind_Ok_iff map_err_def Let_def split: prod.splits, blast)
  have "expanded ci c" if "c \<in> primitive_command ` set (rp_sudo rp)" for c
    using that rp unfolding expanded_def by blast
  moreover have "\<forall>g\<in>set (rp_file_grants rp). path_safe (rfg_path g)"
    using assms(1) rp unfolding expander_safe_def by blast
  ultimately show ?thesis
    using assms(3) st' unfolding binding_ok_def group_sound_def same_identity_def by auto
qed

lemma bind_permissions_ok:
  "expander_safe ci \<Longrightarrow> bind_permissions ci role grp ps st = Ok st' \<Longrightarrow> binding_ok ci g st \<Longrightarrow> binding_ok ci g st'"
  by (induction ps arbitrary: st) (auto simp: try_bind_Ok_iff dest: bind_permission_ok)

lemma bind_role_ok:
  fixes ci :: "('c, 'v) compile_inputs"
  assumes "expander_safe ci" and "bind_role ci d rg g = Ok (g', ws)" and "group_sound ci g"
  shows "same_identity g g' \<and> group_sound ci g' \<and> bi_role rg \<in> set (rg_bound_roles g')"
proof -
  from assms(2) obtain cmp :: role_composition and raw and st :: "'v binding_state" where
    raw: "(raw_role_grants (bi_role rg) (rc_files cmp) :: 'c resolve_error + _) = Ok raw"
    and st: "bind_permissions ci (bi_role rg) (bi_group rg) (rc_permissions cmp)
          \<lparr>bs_group = g, bs_grants = union_file_grants raw None, bs_warned = False,
           bs_warnings = push_group_binding_lints (bi_role rg) (bi_group rg) cmp\<rparr> = Ok st"
    and out: "(Ok ((let g2 = (if bs_grants st \<noteq> []
               then (bs_group st)\<lparr>rg_file_grants := union_resolved_file_grants (rg_file_grants (bs_group st) @ bs_grants st)\<rparr>
               else bs_group st) in g2\<lparr>rg_bound_roles := push_unique (bi_role rg) (rg_bound_roles g2)\<rparr>), bs_warnings st)
          :: 'c resolve_error + resolved_group \<times> 'v resolve_warning list) = Ok (g', ws)"
    unfolding bind_role_def Let_def try_bind_Ok_iff by blast
  have ok: "binding_ok ci g st"
    using assms(1) st
    by (rule bind_permissions_ok) (use assms(3) union_file_grants_safe [OF raw] in \<open>auto simp: binding_ok_def\<close>)
  let ?all = "rg_file_grants (bs_group st) @ bs_grants st"
  have safe: "\<forall>x\<in>set ?all. path_safe (rfg_path x)" using ok by (auto simp: binding_ok_def group_sound_def)
  show ?thesis
    using ok out union_resolved_safe [OF safe]
    by (cases "bs_grants st = []") (auto simp: binding_ok_def group_sound_def same_identity_def Let_def)
qed

lemma bind_in_ok:
  "expander_safe ci \<Longrightarrow> bind_in ci d rg gs = Ok (gs', ws) \<Longrightarrow> list_all (group_sound ci) gs \<Longrightarrow>
     list_all2 same_identity gs gs' \<and> list_all (group_sound ci) gs'"
proof (induction gs arbitrary: gs' ws)
  case (Cons g gs)
  show ?case
  proof (cases "rg_name g = bi_group rg")
    case True
    with Cons.prems(2) obtain g' where "bind_role ci d rg g = Ok (g', ws)" "gs' = g' # gs"
      by (auto simp: try_bind_Ok_iff)
    with bind_role_ok [OF Cons.prems(1)] Cons.prems(3) show ?thesis
      by (auto intro: list_all2_refl)
  next
    case False
    with Cons.prems(2) obtain gs1 where "bind_in ci d rg gs = Ok (gs1, ws)" "gs' = g # gs1"
      by (auto simp: try_bind_Ok_iff)
    with Cons.IH [OF Cons.prems(1)] Cons.prems(3) show ?thesis by auto
  qed
qed simp

lemma bind_all_ok:
  "expander_safe ci \<Longrightarrow> bind_all ci d rgs gs = Ok (gs', ws) \<Longrightarrow> list_all (group_sound ci) gs \<Longrightarrow>
     list_all2 same_identity gs gs' \<and> list_all (group_sound ci) gs'"
proof (induction rgs arbitrary: gs ws)
  case Nil
  then show ?case by (simp add: list_all2_refl)
next
  case (Cons rg rgs)
  from Cons.prems(2) obtain gs1 w1 w2 where one: "bind_in ci d rg gs = Ok (gs1, w1)"
    and rest: "bind_all ci d rgs gs1 = Ok (gs', w2)" by (auto simp: try_bind_Ok_iff)
  note o = bind_in_ok [OF Cons.prems(1) one Cons.prems(3)]
  with Cons.IH [OF Cons.prems(1) rest] show ?case
    using list_all2_trans [of same_identity same_identity same_identity gs gs1 gs'] same_identity_trans by blast
qed

subsection \<open>Resolution over the catalog\<close>

text \<open>
  The inputs of a production run: permissions are expanded by the catalog's resolver over the
  directories on disk, for one target and one catalog version.
\<close>

definition catalog_inputs ::
    "(u64 \<Rightarrow> string) \<Rightarrow> os_target \<Rightarrow> catalog_fs \<Rightarrow> path list \<Rightarrow> string option \<Rightarrow>
     (path \<Rightarrow> bool) \<Rightarrow> (path \<Rightarrow> io_error + file_view) \<Rightarrow> (string \<Rightarrow> string + slice) \<Rightarrow>
     (catalog_error, catalog_warning) compile_inputs" where
  "catalog_inputs show_f64 os fs roots version exists open_file toml =
     \<lparr>ci_exists = exists, ci_open = open_file, ci_toml = toml,
      ci_expand = (\<lambda>i ps. resolve_with_params show_f64 i ps os (live_catalog fs roots) version)\<rparr>"

definition command_gated :: "sudo_command \<Rightarrow> bool" where
  "command_gated c \<longleftrightarrow> sudo_command_defect (sc_command c) = None \<and> runas_vetted (sc_runas c)"


lemma catalog_inputs_expand:
  "ci_expand (catalog_inputs show_f64 os fs roots version exists open_file toml) i ps =
     resolve_with_params show_f64 i ps os (live_catalog fs roots) version"
  by (simp add: catalog_inputs_def)

lemma catalog_inputs_safe: "expander_safe (catalog_inputs show_f64 os fs roots version exists open_file toml)"
  unfolding expander_safe_def catalog_inputs_expand
  by (auto dest!: live.expansion_gated simp: expansion_safe_def list_all_iff grant_ok_def)

lemma catalog_expanded_gated:
  "expanded (catalog_inputs show_f64 os fs roots version exists open_file toml) c \<Longrightarrow> command_gated c"
  unfolding expanded_def catalog_inputs_expand
  by (auto dest!: live.expansion_gated simp: expansion_safe_def list_all_iff command_gated_def primitive_command_def)

subsection \<open>Properties\<close>


text \<open>
  C9: resolution of groups over the catalog on disk.  When it succeeds, it returns the declared
  groups in order with the name, pin, provenance and members the declaration gives them,
  whatever roles are bound; the grants bound to them have distinct paths that pass the path
  gate, and their sudo commands are distinct, all come from the catalog (so inline sudo never
  reaches a group), passed its command gate and run as a vetted account.
\<close>

theorem resolve_groups_sound:
  assumes "ci = catalog_inputs show_f64 os fs roots version exists open_file toml" and "resolve_groups d ci = Ok (gs, ws)"
  shows "list_all2 same_identity (map seed_group (d_groups d)) gs \<and> list_all (group_sound ci) gs
    \<and> list_all (\<lambda>g. list_all command_gated (rg_sudo_commands g)) gs"
proof -
  have s: "expander_safe ci" unfolding assms(1) by (rule catalog_inputs_safe)
  have "list_all (group_sound ci) (map seed_group (d_groups d))"
    by (simp add: list_all_iff seed_group_def group_builder_def group_sound_def)
  with bind_all_ok [OF s] assms(2)
  have g: "list_all2 same_identity (map seed_group (d_groups d)) gs" "list_all (group_sound ci) gs"
    by (simp_all add: resolve_groups_def)
  have "command_gated c" if "expanded ci c" for c
    using that catalog_expanded_gated unfolding assms(1) by blast
  with g show ?thesis by (simp add: list_all_iff group_sound_def)
qed

text \<open>A role with an inline command and the permission of the sample catalog.\<close>

definition catalog_sample :: "(catalog_error, catalog_warning) compile_inputs" where
  "catalog_sample = catalog_inputs (\<lambda>_. []) sample_os sample_fs [''/v''] None (\<lambda>_. True) (\<lambda>_. Ok \<lparr>fv_reported = 0, fv_bytes = []\<rparr>)
     (\<lambda>_. Ok \<lparr>sl_payload = Some \<lparr>sp_groups = Some [''netdev'', ''netdev''], sp_sudo_role = None, sp_limits = None,
        sp_files = None, sp_sudo = Some [''/usr/sbin/ip''], sp_permissions = Some [\<lparr>pr_id = ''logs'', pr_params = []\<rparr>]\<rparr>\<rparr>)"


theorem resolve_groups_sound_witness:
  "\<exists>gs ws. resolve_groups sample_decl catalog_sample = Ok (gs, ws)
     \<and> list_all2 same_identity (map seed_group (d_groups sample_decl)) gs \<and> list_all (group_sound catalog_sample) gs"
proof -
  have "\<not> isl (resolve_groups sample_decl catalog_sample)" by code_simp
  then obtain gs ws where r: "resolve_groups sample_decl catalog_sample = Ok (gs, ws)"
    by (metis sum.collapse(2) surj_pair)
  from resolve_groups_sound [OF catalog_sample_def r] r show ?thesis by (intro exI [of _ gs] exI [of _ ws]) simp
qed

subsection \<open>Inputs with a fixed expansion\<close>

definition sample_inputs :: "(unit, unit) compile_inputs" where
  "sample_inputs = \<lparr>ci_exists = (\<lambda>_. True), ci_open = (\<lambda>_. Ok \<lparr>fv_reported = 0, fv_bytes = []\<rparr>),
     ci_toml = (\<lambda>_. Ok \<lparr>sl_payload = Some \<lparr>sp_groups = Some [''netdev'', ''netdev''], sp_sudo_role = None, sp_limits = None,
        sp_files = None, sp_sudo = Some [''/usr/sbin/ip''],
        sp_permissions = Some [\<lparr>pr_id = ''log-read'', pr_params = []\<rparr>]\<rparr>\<rparr>),
     ci_expand = (\<lambda>_ _. Ok (ResolvedPermission ''log-read'' None None [] []
        [\<lparr>rfg_path = ''/var/log'', rfg_access = RO, rfg_recursive = True, rfg_shape = Dir, rfg_sources = []\<rparr>]
        None None [] None [] [], []))\<rparr>"

lemma sample_inputs_safe: "expander_safe sample_inputs"
proof -
  have "path_safe ''/var/log''" by code_simp
  then show ?thesis by (auto simp: expander_safe_def sample_inputs_def)
qed

lemma sample_read:
  "read_role sample_inputs d role = Ok \<lparr>rc_groups = [''netdev'', ''netdev''], rc_sudo_role = None, rc_limits = limits_default,
     rc_files = [], rc_sudo = [''/usr/sbin/ip''], rc_permissions = [\<lparr>pr_id = ''log-read'', pr_params = []\<rparr>]\<rparr>"
proof -
  have "read_capped (Ok \<lparr>fv_reported = 0, fv_bytes = []\<rparr>) MAX_INPUT_FILE_BYTES = Ok []"
    using read_capped_small [of "\<lparr>fv_reported = 0, fv_bytes = []\<rparr>" MAX_INPUT_FILE_BYTES]
    by (simp add: MAX_INPUT_FILE_BYTES_def)
  then show ?thesis by (simp add: read_role_def read_composition_def sample_inputs_def Let_def)
qed

lemma sample_resolves: "\<exists>rs ws. resolve sample_decl sample_inputs = Ok (rs, ws)"
proof -
  have "inline_sudo_command_defect ''/usr/sbin/ip'' = None" by code_simp
  then show ?thesis
    by (simp add: resolve_def sample_decl_def resolve_account_def sample_read Let_def expand_permission_def)
      (simp add: sample_inputs_def)
qed

end
