(* ===== verification/Apply.thy ===== *)
theory Apply
  imports Trust Provision Reconcile Resolve
begin

text \<open>
  The apply orchestrator (\<^verbatim>\<open>src/apply.rs\<close>): trust, resolution, capability gate, plan,
  live-session reconciliation, lockout gate, snapshot, the mutating phases with rollback on any
  failure, and the registry write.  The provisioner and the file-access backend are the two
  interfaces the source reaches through trait objects: records of operations on the host, the
  world together with the private state of each.  A log line is the constructor of its format
  string with the values it prints.
\<close>

subsection \<open>The host and its interfaces\<close>

record ('x, 'p, 'f) host =
  h_world :: "'x world"
  h_prov :: 'p
  h_fa :: 'f

definition on_world :: "('x world, 'e, 'a) comp \<Rightarrow> (('x, 'p, 'f) host, 'e, 'a) comp" where
  "on_world m h = (case m (h_world h) of (r, w) \<Rightarrow> (r, h\<lparr>h_world := w\<rparr>))"

record 's file_access_ops =
  fo_capabilities :: capabilities
  fo_materialize :: "principal \<Rightarrow> resolved_file_grant list \<Rightarrow> ('s, file_access_error, unit) comp"
  fo_revoke :: "principal \<Rightarrow> resolved_file_grant \<Rightarrow> ('s, file_access_error, unit) comp"
  fo_snapshot :: "path list \<Rightarrow> ('s, file_access_error, unit) comp"
  fo_restore :: "('s, file_access_error, unit) comp"

subsection \<open>Inputs, errors and the report\<close>

datatype rollback_outcome = Restored | RestoreFailed "provision_error + file_access_error"

datatype 'c apply_error =
  AeNotTrusted
| AeTrust trust_error
| AeLockout lockout_error
| AePhase string provision_error rollback_outcome
| AeRegistry io_error
| AeRegistryText string
| AeResolve "'c resolve_error"
| AeGroupPlan group_plan_error
| AeDeclaration declaration_error
| AeSessionRegistry session_error
| AeFileAccess file_access_error
| AeCorruptPlan string rollback_outcome

datatype retained = RetainedSudoRole string | RetainedSudoCommand sudo_command | RetainedGrant path

datatype 'v log_line =
  LogTrust trust_decision
| LogWarning "'v resolve_warning"
| LogNoRecord string
| LogDeferred string u32
| LogRetained string "retained list"
| LogGroupRetained string "string option"
| LogRiskAcknowledged
| LogEmptyPlan
| LogCreateGroup string "u32 option"
| LogAction string action
| LogMaterialized nat string
| LogAdopt string "u32 option"
| LogGroupMaterialized nat string
| LogGroupGrants string
| LogRelease string
| LogTeardown string
| LogDeleteGroup string
| LogAllSucceeded

record ('k, 'c, 'v, 'x) apply_inputs =
  ai_declaration :: decl
  ai_declaration_bytes :: string
  ai_accounts :: "(string, managed_account) btree"
  ai_groups :: "(string, managed_group) btree"
  ai_inspector :: "'x world \<Rightarrow> inspector"
  ai_crypto :: "'k crypto"
  ai_trust :: trust_options
  ai_lockout :: lockout_context
  ai_sudoers_dir :: node
  ai_sessions :: "'x world \<Rightarrow> session_error + live_sessions"
  ai_compile :: "('c, 'v) compile_inputs"

record 'v apply_report =
  ar_managed :: "managed_account list"
  ar_managed_group_records :: "managed_group list"
  ar_log :: "'v log_line list"
  ar_mutations :: nat
  ar_registry_written :: bool
  ar_trust_mode :: trust_mode
  ar_deferred_deletes :: "deferred_delete list"

subsection \<open>Before any mutation\<close>

text \<open>Capability gating of every target's and every group's grants.\<close>

definition route_if_any :: "capabilities \<Rightarrow> resolved_file_grant list \<Rightarrow> file_access_error + unit" where
  "route_if_any caps gs = (if gs = [] then Ok () else try_bind (route_grants gs [caps]) (\<lambda>_. Ok ()))"

fun gate_grants :: "capabilities \<Rightarrow> resolved_file_grant list list \<Rightarrow> file_access_error + unit" where
  "gate_grants caps [] = Ok ()"
| "gate_grants caps (gs # gss) = try_bind (route_if_any caps gs) (\<lambda>_. gate_grants caps gss)"

definition retained_grants :: "managed_account \<Rightarrow> retained list" where
  "retained_grants r =
     (case ma_sudo_role r of Some role \<Rightarrow> [RetainedSudoRole role] | None \<Rightarrow> [])
     @ map RetainedSudoCommand (ma_sudo_commands r)
     @ map (\<lambda>g. RetainedGrant (mfg_path g)) (ma_file_grants r)"

definition deferral_log :: "(string, managed_account) btree \<Rightarrow> deferred_delete \<Rightarrow> 'v log_line list" where
  "deferral_log managed_now d =
     LogDeferred (dd_name d) (dd_uid d) #
     (case bt_get managed_now (dd_name d) of
        None \<Rightarrow> []
      | Some r \<Rightarrow> if retained_grants r = [] then [] else [LogRetained (dd_name d) (retained_grants r)])"

definition group_retention_log ::
    "deferred_delete list \<Rightarrow> (string, managed_account) btree \<Rightarrow> string list \<Rightarrow> group_action list \<Rightarrow> 'v log_line list" where
  "group_retention_log deferred managed_now names gas =
     map (\<lambda>ga. LogGroupRetained (group_action_name ga)
            (map_option dd_name (find (\<lambda>d. group_owned_by (dd_name d) managed_now (group_action_name ga)) deferred)))
       (filter (retained_group names) gas)"

text \<open>What planning hands to the phases.\<close>

record 'v prepared =
  pr_targets :: "resolved_account list"
  pr_groups :: "resolved_group list"
  pr_required :: "(string, u32 option) btree"
  pr_plan :: plan
  pr_rgroup_actions :: "group_action list"
  pr_deferred :: "deferred_delete list"
  pr_log :: "'v log_line list"

definition sessions_or_fail :: "plan \<Rightarrow> session_error + live_sessions \<Rightarrow> 'c apply_error + live_sessions" where
  "sessions_or_fail p live =
     (case live of
        Ok l \<Rightarrow> Ok l
      | Err e \<Rightarrow> if list_ex is_destructive (pl_actions p) then Err (AeSessionRegistry e) else Ok no_sessions)"

text \<open>Reconciling with the live sessions, then the lockout gate.\<close>

definition settle ::
    "('k, 'c, 'v, 'x) apply_inputs \<Rightarrow> plan \<Rightarrow> live_sessions \<Rightarrow> 'v prepared \<Rightarrow> 'c apply_error + 'v prepared" where
  "settle ai plan1 live pr =
     (let accounts = ai_accounts ai;
          rec = reconcile_live_sessions plan1 accounts live;
          plan2 = fst rec; deferred = snd rec;
          names = deferred_group_names deferred accounts;
          plan3 = plan2\<lparr>pl_group_actions := retain_group_actions names (pl_group_actions plan2)\<rparr> in
      try_bind (map_err AeLockout (gate plan3 (ai_lockout ai) (untouched_login_shells accounts (pl_actions plan3)))) (\<lambda>_.
      Ok (pr\<lparr>pr_required := require_deferred names (pr_required pr), pr_plan := plan3, pr_deferred := deferred,
             pr_log := pr_log pr
               @ map LogNoRecord (unrecorded_deletes accounts (pl_actions plan1))
               @ concat (map (deferral_log accounts) deferred)
               @ group_retention_log deferred accounts names (pl_group_actions plan2)
               @ (if lc_risk_acknowledged (ai_lockout ai) then [LogRiskAcknowledged] else [])\<rparr>)))"

definition plan_stage ::
    "('k, 'c, 'v, 'x) apply_inputs \<Rightarrow> capabilities \<Rightarrow> 'x world \<Rightarrow> 'c apply_error + 'v prepared" where
  "plan_stage ai caps w =
     (let d = ai_declaration ai in
      try_bind (map_err AeResolve (resolve d (ai_compile ai))) (\<lambda>(targets, ws).
      try_bind (map_err AeResolve (resolve_groups d (ai_compile ai))) (\<lambda>(rgroups, gws).
      try_bind (map_err AeFileAccess (gate_grants caps (map ra_file_grants targets @ map rg_file_grants rgroups))) (\<lambda>_.
      try_bind (map_err AeDeclaration (required_groups d targets)) (\<lambda>required.
      try_bind (map_err AeGroupPlan (diff_groups_via_inspector required (ai_groups ai) (ai_inspector ai w))) (\<lambda>gas.
      let plan1 = (diff targets (ai_accounts ai))\<lparr>pl_group_actions := gas\<rparr> in
      try_bind (sessions_or_fail plan1 (ai_sessions ai w)) (\<lambda>live.
      settle ai plan1 live
        \<lparr>pr_targets = targets, pr_groups = rgroups, pr_required = required, pr_plan = plan1,
         pr_rgroup_actions = diff_resolved_groups rgroups (ai_groups ai), pr_deferred = [],
         pr_log = map LogWarning ws @ map LogWarning gws\<rparr>)))))))"

definition prepare ::
    "('k, 'c, 'v, 'x) apply_inputs \<Rightarrow> capabilities \<Rightarrow> (('x, 'p, 'f) host, 'c apply_error, trust_mode \<times> 'v prepared) comp" where
  "prepare ai caps =
     seq (comp_err AeTrust (on_world (verify_trust (ai_crypto ai) (ai_declaration ai) (ai_declaration_bytes ai) (ai_trust ai)))) (\<lambda>decision.
       case trust_decision_mode decision of
         None \<Rightarrow> fail AeNotTrusted
       | Some mode \<Rightarrow> (\<lambda>h. (try_bind (plan_stage ai caps (h_world h)) (\<lambda>pr.
            Ok (mode, pr\<lparr>pr_log := LogTrust decision # pr_log pr\<rparr>)), h)))"

subsection \<open>Rollback\<close>

definition rollback_of :: "provision_error + unit \<Rightarrow> file_access_error + unit \<Rightarrow> rollback_outcome" where
  "rollback_of prov acl =
     (case prov of
        Err e \<Rightarrow> RestoreFailed (Inl e)
      | Ok _ \<Rightarrow> (case acl of Err e \<Rightarrow> RestoreFailed (Inr e) | Ok _ \<Rightarrow> Restored))"

definition abort_with_rollback ::
    "'s provisioner \<Rightarrow> 's file_access_ops \<Rightarrow> 's \<Rightarrow> rollback_outcome \<times> 's" where
  "abort_with_rollback pv fo s =
     (case pv_restore pv s of (prov, s1) \<Rightarrow> case fo_restore fo s1 of (acl, s2) \<Rightarrow> (rollback_of prov acl, s2))"

definition phase_failure ::
    "'s provisioner \<Rightarrow> 's file_access_ops \<Rightarrow> string \<Rightarrow> provision_error \<Rightarrow> ('s, 'c apply_error, 'a) comp" where
  "phase_failure pv fo phase source s =
     (case pv_restore pv s of (prov, s1) \<Rightarrow> case fo_restore fo s1 of (acl, s2) \<Rightarrow>
        (Err (AePhase phase source (rollback_of prov acl)), s2))"

definition phase_failure_file_access ::
    "'s provisioner \<Rightarrow> 's file_access_ops \<Rightarrow> file_access_error \<Rightarrow> ('s, 'c apply_error, 'a) comp" where
  "phase_failure_file_access pv fo source s =
     (case pv_restore pv s of (_, s1) \<Rightarrow> case fo_restore fo s1 of (_, s2) \<Rightarrow> (Err (AeFileAccess source), s2))"

text \<open>An operation of a phase: its failure rolls both sides back.\<close>

definition in_phase ::
    "'s provisioner \<Rightarrow> 's file_access_ops \<Rightarrow> string \<Rightarrow> ('s, provision_error, 'a) comp \<Rightarrow> ('s, 'c apply_error, 'a) comp" where
  "in_phase pv fo phase m s =
     (case m s of (Ok x, s1) \<Rightarrow> (Ok x, s1) | (Err source, s1) \<Rightarrow> phase_failure pv fo phase source s1)"

definition in_file_access ::
    "'s provisioner \<Rightarrow> 's file_access_ops \<Rightarrow> ('s, file_access_error, 'a) comp \<Rightarrow> ('s, 'c apply_error, 'a) comp" where
  "in_file_access pv fo m s =
     (case m s of (Ok x, s1) \<Rightarrow> (Ok x, s1) | (Err source, s1) \<Rightarrow> phase_failure_file_access pv fo source s1)"

subsection \<open>Phases\<close>

record 'v progress =
  pg_mutations :: nat
  pg_created :: "(string \<times> u32 option) list"
  pg_baselines :: "(string, group_baseline) btree"
  pg_log :: "'v log_line list"

definition bump :: "'v progress \<Rightarrow> 'v progress" where
  "bump g = g\<lparr>pg_mutations := Suc (pg_mutations g)\<rparr>"

definition log_to :: "'v log_line \<Rightarrow> 'v progress \<Rightarrow> 'v progress" where
  "log_to l g = g\<lparr>pg_log := pg_log g @ [l]\<rparr>"

definition create_group_step ::
    "'s provisioner \<Rightarrow> 's file_access_ops \<Rightarrow> group_action \<Rightarrow> 'v progress \<Rightarrow> ('s, 'c apply_error, 'v progress) comp" where
  "create_group_step pv fo ga g =
     (case ga of
        GrpCreate nm gid \<Rightarrow>
          seq (in_phase pv fo ''create-group'' (pv_create_group pv nm gid)) (\<lambda>_ s.
            (case (case gid of Some i \<Rightarrow> (Some i, s) | None \<Rightarrow> pv_group_gid pv nm s) of
               (assigned, s1) \<Rightarrow>
                 (Ok (log_to (LogCreateGroup nm gid)
                        ((bump g)\<lparr>pg_created := pg_created g @ [(nm, assigned)]\<rparr>)), s1)))
      | _ \<Rightarrow> pure_ok g)"

definition account_step ::
    "'s provisioner \<Rightarrow> 's file_access_ops \<Rightarrow> action \<Rightarrow> 'v progress \<Rightarrow> ('s, 'c apply_error, 'v progress) comp" where
  "account_step pv fo a g =
     (case (case a of
          ActCreate t \<Rightarrow> (''create'', seq (pv_create pv t) (\<lambda>_. pv_apply_sudoers pv t))
        | ActUpdate t changes \<Rightarrow> (''update'', seq (pv_update pv t changes) (\<lambda>_. pv_apply_sudoers pv t))
        | ActDelete nm \<Rightarrow> (''delete'', seq (pv_remove_sudoers pv nm) (\<lambda>_. pv_delete pv nm))) of
      (phase, op) \<Rightarrow> seq (in_phase pv fo phase op) (\<lambda>_. pure_ok (log_to (LogAction phase a) (bump g))))"

definition revoke_one ::
    "'s file_access_ops \<Rightarrow> principal \<Rightarrow> managed_file_grant \<Rightarrow> ('s, file_access_error, unit) comp" where
  "revoke_one fo pr m = fo_revoke fo pr (resolved_from_managed m)"

definition revoke_all ::
    "'s provisioner \<Rightarrow> 's file_access_ops \<Rightarrow> principal \<Rightarrow> managed_file_grant list \<Rightarrow> ('s, 'c apply_error, unit) comp" where
  "revoke_all pv fo pr ms = for_each (\<lambda>m _. in_file_access pv fo (revoke_one fo pr m)) ms ()"

definition account_access_step ::
    "'s provisioner \<Rightarrow> 's file_access_ops \<Rightarrow> (string, managed_account) btree \<Rightarrow> action \<Rightarrow> 'v progress \<Rightarrow>
     ('s, 'c apply_error, 'v progress) comp" where
  "account_access_step pv fo managed_now a g =
     (case (case a of ActCreate t \<Rightarrow> Some t | ActUpdate t _ \<Rightarrow> Some t | ActDelete _ \<Rightarrow> None) of
        None \<Rightarrow> pure_ok g
      | Some t \<Rightarrow>
          seq (revoke_all pv fo (PUser (ra_name t)) (removed_grants (ra_name t) (ra_file_grants t) managed_now)) (\<lambda>_.
            if ra_file_grants t = [] then pure_ok g
            else seq (in_file_access pv fo (fo_materialize fo (PUser (ra_name t)) (ra_file_grants t))) (\<lambda>_.
                   pure_ok (log_to (LogMaterialized (length (ra_file_grants t)) (ra_name t)) g))))"

definition deleted_access_step ::
    "'s provisioner \<Rightarrow> 's file_access_ops \<Rightarrow> (string, managed_account) btree \<Rightarrow> action \<Rightarrow> 'v progress \<Rightarrow>
     ('s, 'c apply_error, 'v progress) comp" where
  "deleted_access_step pv fo managed_now a g =
     (case a of
        ActDelete nm \<Rightarrow>
          (let pr = (case bt_get managed_now nm of Some m \<Rightarrow> PUid (ma_uid m) | None \<Rightarrow> PUser nm) in
           seq (revoke_all pv fo pr (removed_grants nm [] managed_now)) (\<lambda>_. pure_ok g))
      | _ \<Rightarrow> pure_ok g)"

definition member_step ::
    "'s provisioner \<Rightarrow> 's file_access_ops \<Rightarrow> (string \<Rightarrow> ('s, provision_error, unit) comp) \<Rightarrow> string \<Rightarrow>
     'v progress \<Rightarrow> ('s, 'c apply_error, 'v progress) comp" where
  "member_step pv fo op m g = seq (in_phase pv fo ''group-member'' (op m)) (\<lambda>_. pure_ok (bump g))"

definition capture_baseline ::
    "('x world \<Rightarrow> inspector) \<Rightarrow> (string, managed_group) btree \<Rightarrow> group_action \<Rightarrow> 'v progress \<Rightarrow>
     (('x, 'p, 'f) host, 'c apply_error, 'v progress) comp" where
  "capture_baseline insp managed_groups_now ga g h =
     (case ga of
        GrpAdopt nm \<Rightarrow>
          if bt_has managed_groups_now nm then (Ok g, h)
          else (let i = insp (h_world h); gid = map_option gf_gid (si_group i nm) in
                (Ok (log_to (LogAdopt nm gid)
                       (g\<lparr>pg_baselines := bt_insert nm \<lparr>gb_gid = gid, gb_members = si_group_members i nm\<rparr> (pg_baselines g)\<rparr>)), h))
      | _ \<Rightarrow> (Ok g, h))"

definition group_access ::
    "'s provisioner \<Rightarrow> 's file_access_ops \<Rightarrow> (string, managed_group) btree \<Rightarrow> string \<Rightarrow> resolved_group \<Rightarrow> 'v progress \<Rightarrow>
     ('s, 'c apply_error, 'v progress) comp" where
  "group_access pv fo managed_groups_now nm rg g =
     (if rg_file_grants rg \<noteq> []
      then seq (in_file_access pv fo (fo_materialize fo (PGroup nm) (rg_file_grants rg))) (\<lambda>_.
           seq (revoke_all pv fo (PGroup nm) (removed_group_grants nm (rg_file_grants rg) managed_groups_now)) (\<lambda>_.
           pure_ok (log_to (LogGroupMaterialized (length (rg_file_grants rg)) nm) g)))
      else seq (revoke_all pv fo (PGroup nm) (removed_group_grants nm [] managed_groups_now)) (\<lambda>_. pure_ok g))"

definition apply_group_grants ::
    "(('x, 'p, 'f) host) provisioner \<Rightarrow> ('x, 'p, 'f) host file_access_ops \<Rightarrow> ('x world \<Rightarrow> inspector) \<Rightarrow>
     (string, managed_group) btree \<Rightarrow> group_action \<Rightarrow> resolved_group \<Rightarrow> 'v progress \<Rightarrow>
     (('x, 'p, 'f) host, 'c apply_error, 'v progress) comp" where
  "apply_group_grants pv fo insp managed_groups_now ga rg g =
     (let nm = group_action_name ga; current = members_added_of nm managed_groups_now in
      seq (capture_baseline insp managed_groups_now ga g) (\<lambda>g1.
      seq (in_phase pv fo ''group-sudoers'' (pv_apply_group_sudoers pv rg)) (\<lambda>_.
      seq (group_access pv fo managed_groups_now nm rg g1) (\<lambda>g2.
      seq (for_each (member_step pv fo (pv_add_group_member pv nm))
             (filter (\<lambda>m. m \<notin> set current) (rg_members rg)) g2) (\<lambda>g3.
      seq (for_each (member_step pv fo (pv_remove_group_member pv nm))
             (filter (\<lambda>m. m \<notin> set (rg_members rg)) current) g3) (\<lambda>g4.
      pure_ok (log_to (LogGroupGrants nm) (bump g4))))))))"

definition teardown_group ::
    "'s provisioner \<Rightarrow> 's file_access_ops \<Rightarrow> (string, managed_group) btree \<Rightarrow> group_action \<Rightarrow> 'v progress \<Rightarrow>
     ('s, 'c apply_error, 'v progress) comp" where
  "teardown_group pv fo managed_groups_now ga g =
     (let nm = group_action_name ga in
      seq (in_phase pv fo ''group-sudoers'' (pv_remove_group_sudoers pv nm)) (\<lambda>_.
      seq (revoke_all pv fo (PGroup nm) (removed_group_grants nm [] managed_groups_now)) (\<lambda>_.
      seq (for_each (member_step pv fo (pv_remove_group_member pv nm)) (members_added_of nm managed_groups_now) g) (\<lambda>g1.
      pure_ok (log_to (case ga of GrpRelease _ \<Rightarrow> LogRelease nm | _ \<Rightarrow> LogTeardown nm) g1)))))"

definition group_grant_step ::
    "(('x, 'p, 'f) host) provisioner \<Rightarrow> ('x, 'p, 'f) host file_access_ops \<Rightarrow> ('x world \<Rightarrow> inspector) \<Rightarrow>
     (string, managed_group) btree \<Rightarrow> resolved_group list \<Rightarrow> group_action \<Rightarrow> 'v progress \<Rightarrow>
     (('x, 'p, 'f) host, 'c apply_error, 'v progress) comp" where
  "group_grant_step pv fo insp managed_groups_now groups ga g =
     (if applies_grants ga
      then (case resolved_group_by_name groups (group_action_name ga) of
              None \<Rightarrow> (\<lambda>s. case abort_with_rollback pv fo s of
                  (rollback, s1) \<Rightarrow> (Err (AeCorruptPlan (group_action_name ga) rollback), s1))
            | Some rg \<Rightarrow> apply_group_grants pv fo insp managed_groups_now ga rg g)
      else teardown_group pv fo managed_groups_now ga g)"

definition delete_group_step ::
    "'s provisioner \<Rightarrow> 's file_access_ops \<Rightarrow> group_action \<Rightarrow> 'v progress \<Rightarrow> ('s, 'c apply_error, 'v progress) comp" where
  "delete_group_step pv fo ga g =
     (case ga of
        GrpDelete nm \<Rightarrow>
          seq (in_phase pv fo ''delete-group'' (pv_delete_group pv nm)) (\<lambda>_.
            pure_ok (log_to (LogDeleteGroup nm) (bump g)))
      | _ \<Rightarrow> pure_ok g)"

subsection \<open>The run\<close>

definition track_backups :: "'s provisioner \<Rightarrow> node list \<Rightarrow> 's \<Rightarrow> 's" where
  "track_backups pv ns s = fold (pv_track_sudoers_backup pv) ns s"

definition snapshot_paths ::
    "('k, 'c, 'v, 'x) apply_inputs \<Rightarrow> 'v prepared \<Rightarrow> path list" where
  "snapshot_paths ai pr =
     push_paths (group_file_access_touched_paths (pr_rgroup_actions pr) (pr_groups pr) (ai_groups ai))
       (file_access_touched_paths (pr_plan pr) (pr_targets pr) (ai_accounts ai))"

definition snapshot_access ::
    "'s provisioner \<Rightarrow> 's file_access_ops \<Rightarrow> path list \<Rightarrow> ('s, 'c apply_error, unit) comp" where
  "snapshot_access pv fo paths s =
     (if paths = [] then (Ok (), s)
      else case fo_snapshot fo paths s of
          (Ok _, s1) \<Rightarrow> (Ok (), s1)
        | (Err e, s1) \<Rightarrow> (case pv_restore pv s1 of (_, s2) \<Rightarrow> (Err (AeFileAccess e), s2)))"

definition no_progress :: "'v progress" where
  "no_progress = \<lparr>pg_mutations = 0, pg_created = [], pg_baselines = [], pg_log = []\<rparr>"

definition phases ::
    "(('x, 'p, 'f) host) provisioner \<Rightarrow> ('x, 'p, 'f) host file_access_ops \<Rightarrow> ('k, 'c, 'v, 'x) apply_inputs \<Rightarrow>
     'v prepared \<Rightarrow> (('x, 'p, 'f) host, 'c apply_error, 'v progress) comp" where
  "phases pv fo ai pr =
     seq (for_each (create_group_step pv fo) (pl_group_actions (pr_plan pr)) no_progress) (\<lambda>g1.
     seq (for_each (account_step pv fo) (pl_actions (pr_plan pr)) g1) (\<lambda>g2.
     seq (for_each (account_access_step pv fo (ai_accounts ai)) (pl_actions (pr_plan pr)) g2) (\<lambda>g3.
     seq (for_each (deleted_access_step pv fo (ai_accounts ai)) (pl_actions (pr_plan pr)) g3) (\<lambda>g4.
     seq (for_each (group_grant_step pv fo (ai_inspector ai) (ai_groups ai) (pr_groups pr)) (pr_rgroup_actions pr) g4) (\<lambda>g5.
     for_each (delete_group_step pv fo) (pl_group_actions (pr_plan pr)) g5)))))"

definition report ::
    "('k, 'c, 'v, 'x) apply_inputs \<Rightarrow> trust_mode \<Rightarrow> 'v prepared \<Rightarrow> bool \<Rightarrow> 'v log_line list \<Rightarrow> 'v progress \<Rightarrow>
     'x world \<Rightarrow> 'v apply_report" where
  "report ai mode pr written lines g w =
     \<lparr>ar_managed = build_managed_set (pr_targets pr) (d_version (ai_declaration ai)) (ai_accounts ai) (pr_deferred pr),
      ar_managed_group_records = build_managed_groups (pr_required pr) (pr_groups pr) (ai_groups ai) (pg_created g)
        (pg_baselines g) (d_version (ai_declaration ai)) (ai_inspector ai w),
      ar_log = pr_log pr @ pg_log g @ lines,
      ar_mutations = pg_mutations g,
      ar_registry_written = written,
      ar_trust_mode = mode,
      ar_deferred_deletes = pr_deferred pr\<rparr>"

definition nothing_to_do :: "'v prepared \<Rightarrow> bool" where
  "nothing_to_do pr \<longleftrightarrow> plan_is_empty (pr_plan pr) \<and> pr_rgroup_actions pr = []"

definition execute ::
    "(('x, 'p, 'f) host) provisioner \<Rightarrow> ('x, 'p, 'f) host file_access_ops \<Rightarrow> ('k, 'c, 'v, 'x) apply_inputs \<Rightarrow>
     trust_mode \<Rightarrow> 'v prepared \<Rightarrow> (('x, 'p, 'f) host, 'c apply_error, 'v apply_report) comp" where
  "execute pv fo ai mode pr h0 =
     (let h = track_backups pv (touched_sudoers_paths (pr_plan pr) (ai_sudoers_dir ai)
                @ touched_group_sudoers_paths (pr_rgroup_actions pr) (ai_sudoers_dir ai)) h0 in
      seq (comp_err (\<lambda>e. AePhase ''snapshot'' e Restored) (pv_snapshot pv)) (\<lambda>_.
      seq (snapshot_access pv fo (snapshot_paths ai pr)) (\<lambda>_.
      seq (phases pv fo ai pr) (\<lambda>g h1.
      (Ok (report ai mode pr True [LogAllSucceeded] g (h_world h1)), h1)))) h)"

definition run ::
    "('k, 'c, 'v, 'x) apply_inputs \<Rightarrow> (('x, 'p, 'f) host) provisioner \<Rightarrow> ('x, 'p, 'f) host file_access_ops \<Rightarrow>
     (('x, 'p, 'f) host, 'c apply_error, 'v apply_report) comp" where
  "run ai pv fo =
     seq (prepare ai (fo_capabilities fo)) (\<lambda>(mode, pr).
       if nothing_to_do pr
       then (\<lambda>h. (Ok (report ai mode pr (pr_deferred pr \<noteq> []) [LogEmptyPlan] no_progress (h_world h)), h))
       else execute pv fo ai mode pr)"

text \<open>The registry text is written by a serializer that is a parameter.\<close>

definition registry_temp :: "node \<Rightarrow> node" where
  "registry_temp p = node_join (node_parent p) ''.census-managed.toml.tmp''"

definition write_registry ::
    "(managed_account list \<Rightarrow> managed_group list \<Rightarrow> string + string) \<Rightarrow> node \<Rightarrow> managed_account list \<Rightarrow>
     managed_group list \<Rightarrow> ('x world, 'c apply_error, unit) comp" where
  "write_registry toml p managed groups =
     (case toml managed groups of
        Err e \<Rightarrow> fail (AeRegistryText e)
      | Ok text \<Rightarrow>
          seq (comp_err AeRegistry (fs_write (registry_temp p) text)) (\<lambda>_.
          comp_err AeRegistry (on_err (fs_rename (registry_temp p) p) (cleanup_temp (registry_temp p)))))"

subsection \<open>The transaction contract\<close>

text \<open>
  The contract between the orchestrator and its two interfaces: every operation keeps \<open>I\<close>,
  whether it succeeds or fails (deleting an account only has to for accounts that may be
  deleted), and rolling both sides back from \<open>I\<close> ends in \<open>F\<close> of the outcome it reports.
\<close>

definition aborted :: "(rollback_outcome \<Rightarrow> 's \<Rightarrow> bool) \<Rightarrow> 'c apply_error \<Rightarrow> 's \<Rightarrow> bool" where
  "aborted F e s =
     (case e of
        AePhase _ _ r \<Rightarrow> F r s
      | AeCorruptPlan _ r \<Rightarrow> F r s
      | AeFileAccess _ \<Rightarrow> \<exists>r. F r s
      | _ \<Rightarrow> False)"

lemma phase_failure_abort:
  "phase_failure pv fo phase source s =
     (case abort_with_rollback pv fo s of (r, s') \<Rightarrow> (Err (AePhase phase source r), s'))"
  by (simp add: phase_failure_def abort_with_rollback_def split: prod.splits)

lemma phase_failure_file_access_abort:
  "phase_failure_file_access pv fo source s =
     (case abort_with_rollback pv fo s of (r, s') \<Rightarrow> (Err (AeFileAccess source), s'))"
  by (simp add: phase_failure_file_access_def abort_with_rollback_def split: prod.splits)

lemma in_phase_handle: "in_phase pv fo phase m = handle m (phase_failure pv fo phase)"
  by (rule ext) (simp add: in_phase_def handle_def split: prod.splits sum.splits)

lemma in_file_access_handle: "in_file_access pv fo m = handle m (phase_failure_file_access pv fo)"
  by (rule ext) (simp add: in_file_access_def handle_def split: prod.splits sum.splits)

locale transaction =
  fixes pv :: "('x, 'p, 'f) host provisioner" and fo :: "('x, 'p, 'f) host file_access_ops"
    and I :: "('x, 'p, 'f) host \<Rightarrow> bool" and del_ok :: "string \<Rightarrow> bool"
    and F :: "rollback_outcome \<Rightarrow> ('x, 'p, 'f) host \<Rightarrow> bool"
  assumes create_keeps: "triple I (pv_create pv a) (\<lambda>_. I) (\<lambda>_. I)"
    and update_keeps: "triple I (pv_update pv a changes) (\<lambda>_. I) (\<lambda>_. I)"
    and delete_keeps: "del_ok nm \<Longrightarrow> triple I (pv_delete pv nm) (\<lambda>_. I) (\<lambda>_. I)"
    and create_group_keeps: "triple I (pv_create_group pv nm gid) (\<lambda>_. I) (\<lambda>_. I)"
    and group_gid_keeps: "I s \<Longrightarrow> I (snd (pv_group_gid pv nm s))"
    and delete_group_keeps: "triple I (pv_delete_group pv nm) (\<lambda>_. I) (\<lambda>_. I)"
    and apply_sudoers_keeps: "triple I (pv_apply_sudoers pv a) (\<lambda>_. I) (\<lambda>_. I)"
    and remove_sudoers_keeps: "triple I (pv_remove_sudoers pv nm) (\<lambda>_. I) (\<lambda>_. I)"
    and apply_group_sudoers_keeps: "triple I (pv_apply_group_sudoers pv rg) (\<lambda>_. I) (\<lambda>_. I)"
    and remove_group_sudoers_keeps: "triple I (pv_remove_group_sudoers pv nm) (\<lambda>_. I) (\<lambda>_. I)"
    and add_member_keeps: "triple I (pv_add_group_member pv nm m) (\<lambda>_. I) (\<lambda>_. I)"
    and remove_member_keeps: "triple I (pv_remove_group_member pv nm m) (\<lambda>_. I) (\<lambda>_. I)"
    and materialize_keeps: "triple I (fo_materialize fo pr gs) (\<lambda>_. I) (\<lambda>_. I)"
    and revoke_keeps: "triple I (fo_revoke fo pr g) (\<lambda>_. I) (\<lambda>_. I)"
    and rollback_ends: "I s \<Longrightarrow> abort_with_rollback pv fo s = (r, s') \<Longrightarrow> F r s'"
begin

lemma phase_failure_ends: "triple I (phase_failure pv fo phase source) Q (aborted F)"
  using rollback_ends by (auto simp: triple_def phase_failure_abort aborted_def split: prod.splits)

lemma phase_failure_file_access_ends: "triple I (phase_failure_file_access pv fo source) Q (aborted F)"
  using rollback_ends by (auto simp: triple_def phase_failure_file_access_abort aborted_def split: prod.splits)

lemma in_phase_ends:
  assumes "triple I m (\<lambda>_. I) (\<lambda>_. I)"
  shows "triple I (in_phase pv fo phase m) (\<lambda>_. I) (aborted F)"
  unfolding in_phase_handle using assms phase_failure_ends by (rule triple_handle)

lemma in_file_access_ends:
  assumes "triple I m (\<lambda>_. I) (\<lambda>_. I)"
  shows "triple I (in_file_access pv fo m) (\<lambda>_. I) (aborted F)"
  unfolding in_file_access_handle using assms phase_failure_file_access_ends by (rule triple_handle)

lemma pure_keeps: "triple I (pure_ok x) (\<lambda>_. I) E"
  by (simp add: triple_def pure_ok_def)

lemmas account_keeps = create_keeps update_keeps apply_sudoers_keeps remove_sudoers_keeps

lemma create_group_step_ends: "triple I (create_group_step pv fo ga g) (\<lambda>_. I) (aborted F)"
proof (cases ga)
  case (GrpCreate nm gid)
  have "triple I (in_phase pv fo ''create-group'' (pv_create_group pv nm gid)) (\<lambda>_. I) (aborted F)"
    by (rule in_phase_ends) (rule create_group_keeps)
  then show ?thesis
    unfolding create_group_step_def GrpCreate group_action.case
    by (rule triple_seq)
      (use group_gid_keeps [of _ nm] in \<open>fastforce simp: triple_def split: prod.splits option.splits\<close>)
qed (simp_all add: create_group_step_def pure_keeps)

lemma delete_group_step_ends: "triple I (delete_group_step pv fo ga g) (\<lambda>_. I) (aborted F)"
  by (cases ga)
    (auto simp: delete_group_step_def intro!: triple_seq [OF in_phase_ends] delete_group_keeps pure_keeps)

lemma account_step_ends:
  assumes "\<And>nm. a = ActDelete nm \<Longrightarrow> del_ok nm"
  shows "triple I (account_step pv fo a g) (\<lambda>_. I) (aborted F)"
proof -
  have two: "triple I (in_phase pv fo phase (seq m n)) (\<lambda>_. I) (aborted F)"
    if "triple I m (\<lambda>_. I) (\<lambda>_. I)" "\<And>x. triple I (n x) (\<lambda>_. I) (\<lambda>_. I)" for phase m n
    by (rule in_phase_ends) (rule triple_seq [OF that])
  show ?thesis
    using assms
    by (cases a) (auto simp: account_step_def intro!: triple_seq [OF two] account_keeps delete_keeps pure_keeps)
qed

lemma revoke_all_ends: "triple I (revoke_all pv fo pr ms) (\<lambda>_. I) (aborted F)"
  unfolding revoke_all_def revoke_one_def
  by (rule triple_for_each [where I = "\<lambda>_. I"]) (intro in_file_access_ends revoke_keeps)

lemma account_access_step_ends: "triple I (account_access_step pv fo mn a g) (\<lambda>_. I) (aborted F)"
  by (cases a)
    (auto simp: account_access_step_def
      intro!: triple_seq [OF revoke_all_ends] triple_seq [OF in_file_access_ends] materialize_keeps pure_keeps)

lemma deleted_access_step_ends: "triple I (deleted_access_step pv fo mn a g) (\<lambda>_. I) (aborted F)"
  by (cases a) (auto simp: deleted_access_step_def intro!: triple_seq [OF revoke_all_ends] pure_keeps)

lemma members_end:
  assumes "\<And>m. triple I (op m) (\<lambda>_. I) (\<lambda>_. I)"
  shows "triple I (for_each (member_step pv fo op) ms g) (\<lambda>_. I) (aborted F)"
  unfolding member_step_def
  by (rule triple_for_each [where I = "\<lambda>_. I"]) (intro triple_seq [OF in_phase_ends] assms pure_keeps)

lemma group_access_ends: "triple I (group_access pv fo mgn nm rg g) (\<lambda>_. I) (aborted F)"
  unfolding group_access_def
  by (auto intro!: triple_seq [OF in_file_access_ends] triple_seq [OF revoke_all_ends] materialize_keeps pure_keeps)

lemma capture_baseline_ends: "triple I (capture_baseline insp mgn ga g) (\<lambda>_. I) E"
  by (auto simp: triple_def capture_baseline_def Let_def split: group_action.splits)

lemma apply_group_grants_ends: "triple I (apply_group_grants pv fo insp mgn ga rg g) (\<lambda>_. I) (aborted F)"
  unfolding apply_group_grants_def Let_def
  by (intro triple_seq [OF capture_baseline_ends] triple_seq [OF in_phase_ends] triple_seq [OF group_access_ends]
      triple_seq [OF members_end] apply_group_sudoers_keeps add_member_keeps remove_member_keeps pure_keeps)

lemma teardown_group_ends: "triple I (teardown_group pv fo mgn ga g) (\<lambda>_. I) (aborted F)"
  unfolding teardown_group_def Let_def
  by (intro triple_seq [OF in_phase_ends] triple_seq [OF revoke_all_ends]
      triple_seq [OF members_end] remove_group_sudoers_keeps remove_member_keeps pure_keeps)

lemma group_grant_step_ends: "triple I (group_grant_step pv fo insp mgn groups ga g) (\<lambda>_. I) (aborted F)"
proof (cases "applies_grants ga \<and> resolved_group_by_name groups (group_action_name ga) = None")
  case True
  then show ?thesis
    using rollback_ends by (auto simp: triple_def group_grant_step_def aborted_def split: prod.splits)
next
  case False
  then show ?thesis
    using apply_group_grants_ends teardown_group_ends by (auto simp: group_grant_step_def)
qed

lemma phases_end:
  assumes "\<And>nm. ActDelete nm \<in> set (pl_actions (pr_plan pr)) \<Longrightarrow> del_ok nm"
  shows "triple I (phases pv fo ai pr) (\<lambda>_. I) (aborted F)"
proof -
  have acc: "triple I (for_each (account_step pv fo) (pl_actions (pr_plan pr)) g) (\<lambda>_. I) (aborted F)" for g
    by (rule triple_for_each [where I = "\<lambda>_. I"], rule account_step_ends, rule assms) simp
  show ?thesis
    unfolding phases_def
    by (intro triple_seq [OF acc] triple_seq [OF triple_for_each [where I = "\<lambda>_. I"]]
        triple_for_each [where I = "\<lambda>_. I"] create_group_step_ends account_access_step_ends
        deleted_access_step_ends group_grant_step_ends delete_group_step_ends)
qed

end

subsection \<open>Snapshots\<close>

text \<open>
  A host whose snapshot, taken in a state with \<open>P\<close>, establishes what rollback needs (or fails
  with nothing to roll back), and whose snapshot of the access entries keeps it.
\<close>

locale snapshotting = transaction pv fo I del_ok F
  for pv :: "('x, 'p, 'f) host provisioner" and fo :: "('x, 'p, 'f) host file_access_ops"
    and I :: "('x, 'p, 'f) host \<Rightarrow> bool" and del_ok :: "string \<Rightarrow> bool"
    and F :: "rollback_outcome \<Rightarrow> ('x, 'p, 'f) host \<Rightarrow> bool" +
  fixes P :: "('x, 'p, 'f) host \<Rightarrow> bool"
  assumes snapshot_starts: "P s \<Longrightarrow> pv_snapshot pv s = (Ok u, s') \<Longrightarrow> I s'"
    and snapshot_fails: "P s \<Longrightarrow> pv_snapshot pv s = (Err e, s') \<Longrightarrow> F Restored s'"
    and access_snapshot_keeps: "I s \<Longrightarrow> fo_snapshot fo ps s = (Ok u, s') \<Longrightarrow> I s'"
begin

lemma execute_ends:
  assumes "execute pv fo ai mode pr h0 = (r, h')"
    and P: "P (track_backups pv (touched_sudoers_paths (pr_plan pr) (ai_sudoers_dir ai)
              @ touched_group_sudoers_paths (pr_rgroup_actions pr) (ai_sudoers_dir ai)) h0)"
    and del: "\<And>nm. ActDelete nm \<in> set (pl_actions (pr_plan pr)) \<Longrightarrow> del_ok nm"
  shows "case r of
      Ok _ \<Rightarrow> I h'
    | Err e \<Rightarrow> aborted F e h' \<or> (\<exists>x. e = AeFileAccess x)"
proof -
  let ?E = "\<lambda>e h. aborted F e h \<or> (\<exists>x. e = AeFileAccess x)"
  have snap: "triple P (comp_err (\<lambda>e. AePhase ''snapshot'' e Restored) (pv_snapshot pv)) (\<lambda>_. I) ?E"
    using snapshot_starts snapshot_fails by (auto intro!: tripleI simp: comp_err_iff aborted_def)
  have acc: "triple I (snapshot_access pv fo ps) (\<lambda>_. I) ?E" for ps
    using access_snapshot_keeps
    by (auto simp: triple_def snapshot_access_def split: prod.splits sum.splits)
  have ph: "triple I (phases pv fo ai pr) (\<lambda>_. I) ?E"
    by (rule triple_weaken [OF phases_end [OF del]]) simp_all
  have fin: "triple I (\<lambda>h1. (Ok (report ai mode pr True [LogAllSucceeded] g (h_world h1)), h1)) (\<lambda>_. I) ?E" for g
    by (simp add: triple_def)
  have "triple P (seq (comp_err (\<lambda>e. AePhase ''snapshot'' e Restored) (pv_snapshot pv)) (\<lambda>_.
      seq (snapshot_access pv fo (snapshot_paths ai pr)) (\<lambda>_.
      seq (phases pv fo ai pr) (\<lambda>g h1. (Ok (report ai mode pr True [LogAllSucceeded] g (h_world h1)), h1))))) (\<lambda>_. I) ?E"
    by (intro triple_seq [OF snap] triple_seq [OF acc] triple_seq [OF ph] fin)
  then show ?thesis
    using P assms(1) unfolding execute_def Let_def by (auto simp: triple_def split: prod.splits sum.splits)
qed

end

subsection \<open>Before the snapshot\<close>

lemma on_world_iff: "on_world m h = (r, h') \<longleftrightarrow> (\<exists>w. m (h_world h) = (r, w) \<and> h' = h\<lparr>h_world := w\<rparr>)"
  by (auto simp: on_world_def split: prod.splits)

lemma prepare_frame:
  assumes "prepare ai caps h = (r, h')"
  shows "h_prov h' = h_prov h \<and> h_fa h' = h_fa h \<and> w_files (h_world h') = w_files (h_world h)"
proof -
  have trust: "h_prov h1 = h_prov h \<and> h_fa h1 = h_fa h \<and> w_files (h_world h1) = w_files (h_world h)"
    if "comp_err AeTrust (on_world (verify_trust cr d b o')) h = (x, h1)" for x h1 cr d b o'
    using that verify_trust_same by (cases x) (fastforce simp: comp_err_iff on_world_iff)+
  show ?thesis
  proof (cases r)
    case (Inl e)
    then show ?thesis
      using assms trust by (fastforce simp: prepare_def seq_Err_iff fail_def split: option.splits)
  next
    case (Inr x)
    then show ?thesis
      using assms trust by (fastforce simp: prepare_def seq_Ok_iff fail_def split: option.splits)
  qed
qed

lemma run_cases:
  assumes "run ai pv fo h = (r, h')"
  obtains (refused) e where "prepare ai (fo_capabilities fo) h = (Err e, h')" "r = Err e"
  | (nothing) mode pr where "prepare ai (fo_capabilities fo) h = (Ok (mode, pr), h')" "nothing_to_do pr"
      "r = Ok (report ai mode pr (pr_deferred pr \<noteq> []) [LogEmptyPlan] no_progress (h_world h'))"
  | (executed) mode pr h1 where "prepare ai (fo_capabilities fo) h = (Ok (mode, pr), h1)" "\<not> nothing_to_do pr"
      "execute pv fo ai mode pr h1 = (r, h')"
  using assms by (cases "prepare ai (fo_capabilities fo) h") (auto simp: run_def seq_def split: sum.splits if_splits prod.splits)

lemma reconcile_group_actions:
  "pl_actions (fst (reconcile_live_sessions (p\<lparr>pl_group_actions := gas\<rparr>) m live)) =
     pl_actions (fst (reconcile_live_sessions p m live))"
  "snd (reconcile_live_sessions (p\<lparr>pl_group_actions := gas\<rparr>) m live) = snd (reconcile_live_sessions p m live)"
  by (simp_all add: reconcile_live_sessions_def)

lemma settle_Ok:
  assumes "settle ai plan1 live pr0 = Ok pr"
  shows "pr_targets pr = pr_targets pr0"
    and "pl_actions (pr_plan pr) = pl_actions (fst (reconcile_live_sessions plan1 (ai_accounts ai) live))"
    and "pr_deferred pr = snd (reconcile_live_sessions plan1 (ai_accounts ai) live)"
    and "gate (pr_plan pr) (ai_lockout ai) (untouched_login_shells (ai_accounts ai) (pl_actions (pr_plan pr))) = Ok ()"
  using assms by (auto simp: settle_def Let_def try_bind_Ok_iff)

lemma plan_stage_Ok:
  fixes ai :: "('k, 'c, 'v, 'x) apply_inputs"
  assumes "plan_stage ai caps w = Ok pr"
  obtains live ws where "resolve (ai_declaration ai) (ai_compile ai) = Ok (pr_targets pr, ws)"
    "ai_sessions ai w = Ok live \<or> live = no_sessions \<and> \<not> list_ex is_destructive (pl_actions (diff (pr_targets pr) (ai_accounts ai)))"
    "pl_actions (pr_plan pr) =
       pl_actions (fst (reconcile_live_sessions (diff (pr_targets pr) (ai_accounts ai)) (ai_accounts ai) live))"
    "pr_deferred pr = snd (reconcile_live_sessions (diff (pr_targets pr) (ai_accounts ai)) (ai_accounts ai) live)"
    "gate (pr_plan pr) (ai_lockout ai) (untouched_login_shells (ai_accounts ai) (pl_actions (pr_plan pr))) = Ok ()"
proof -
  let ?plan = "\<lambda>targets gas. (diff targets (ai_accounts ai))\<lparr>pl_group_actions := gas\<rparr>"
  from assms obtain targets ws rgroups gws required gas live lines where
    r: "resolve (ai_declaration ai) (ai_compile ai) = Ok (targets, ws)"
    and l: "sessions_or_fail (?plan targets gas) (ai_sessions ai w) = (Ok live :: 'c apply_error + _)"
    and s: "settle ai (?plan targets gas) live
        \<lparr>pr_targets = targets, pr_groups = rgroups, pr_required = required, pr_plan = ?plan targets gas,
         pr_rgroup_actions = diff_resolved_groups rgroups (ai_groups ai), pr_deferred = [], pr_log = lines\<rparr> = Ok pr"
    unfolding plan_stage_def Let_def
    by (simp only: try_bind_Ok_iff map_err_Ok_iff split_paired_Ex prod.case) blast
  note st = settle_Ok [OF s, simplified]
  show thesis
  proof (rule that)
    show "resolve (ai_declaration ai) (ai_compile ai) = Ok (pr_targets pr, ws)" using r st(1) by simp
    show "ai_sessions ai w = Ok live \<or> live = no_sessions \<and> \<not> list_ex is_destructive (pl_actions (diff (pr_targets pr) (ai_accounts ai)))"
      using l st(1) by (auto simp: sessions_or_fail_def split: sum.splits if_splits)
  qed (use st reconcile_group_actions in simp_all)
qed

lemma planned_delete:
  assumes "plan_stage ai caps w = Ok pr" and "ActDelete nm \<in> set (pl_actions (pr_plan pr))"
    and "ai_sessions ai w = Ok live"
  shows "\<not> has_session (ai_accounts ai) live nm"
proof -
  obtain l where l: "ai_sessions ai w = Ok l \<or> l = no_sessions
      \<and> \<not> list_ex is_destructive (pl_actions (diff (pr_targets pr) (ai_accounts ai)))"
    and p: "pl_actions (pr_plan pr) =
       pl_actions (fst (reconcile_live_sessions (diff (pr_targets pr) (ai_accounts ai)) (ai_accounts ai) l))"
    using assms(1) by (rule plan_stage_Ok)
  have "ActDelete nm \<in> set (pl_actions (diff (pr_targets pr) (ai_accounts ai)))"
    using assms(2) p by (auto simp: reconcile_live_sessions_def)
  then have "list_ex is_destructive (pl_actions (diff (pr_targets pr) (ai_accounts ai)))"
    by (simp only: list_ex_iff) (erule bexI [rotated], simp)
  with l assms(3) have "l = live" by auto
  then show ?thesis using assms(2) unfolding p reconcile_actions by (auto simp: diff_target_mem)
qed

subsection \<open>Deleting only what may be deleted\<close>

lemma delete_fields:
  "pv_create (pv\<lparr>pv_delete := d\<rparr>) = pv_create pv" "pv_update (pv\<lparr>pv_delete := d\<rparr>) = pv_update pv"
  "pv_create_group (pv\<lparr>pv_delete := d\<rparr>) = pv_create_group pv" "pv_group_gid (pv\<lparr>pv_delete := d\<rparr>) = pv_group_gid pv"
  "pv_delete_group (pv\<lparr>pv_delete := d\<rparr>) = pv_delete_group pv" "pv_apply_sudoers (pv\<lparr>pv_delete := d\<rparr>) = pv_apply_sudoers pv"
  "pv_remove_sudoers (pv\<lparr>pv_delete := d\<rparr>) = pv_remove_sudoers pv"
  "pv_apply_group_sudoers (pv\<lparr>pv_delete := d\<rparr>) = pv_apply_group_sudoers pv"
  "pv_remove_group_sudoers (pv\<lparr>pv_delete := d\<rparr>) = pv_remove_group_sudoers pv"
  "pv_add_group_member (pv\<lparr>pv_delete := d\<rparr>) = pv_add_group_member pv"
  "pv_remove_group_member (pv\<lparr>pv_delete := d\<rparr>) = pv_remove_group_member pv"
  "pv_track_sudoers_backup (pv\<lparr>pv_delete := d\<rparr>) = pv_track_sudoers_backup pv"
  "pv_snapshot (pv\<lparr>pv_delete := d\<rparr>) = pv_snapshot pv" "pv_restore (pv\<lparr>pv_delete := d\<rparr>) = pv_restore pv"
  "pv_delete (pv\<lparr>pv_delete := d\<rparr>) = d"
  by simp_all

lemma in_phase_delete: "in_phase (pv\<lparr>pv_delete := d\<rparr>) fo = in_phase pv fo"
  by (intro ext) (simp only: in_phase_def [abs_def] phase_failure_def [abs_def] delete_fields)

lemma in_file_access_delete: "in_file_access (pv\<lparr>pv_delete := d\<rparr>) fo = in_file_access pv fo"
  by (intro ext) (simp only: in_file_access_def [abs_def] phase_failure_file_access_def [abs_def] delete_fields)

lemma other_delete:
  "abort_with_rollback (pv\<lparr>pv_delete := d\<rparr>) fo = abort_with_rollback pv fo"
  "snapshot_access (pv\<lparr>pv_delete := d\<rparr>) fo = snapshot_access pv fo"
  "track_backups (pv\<lparr>pv_delete := d\<rparr>) = track_backups pv"
  unfolding abort_with_rollback_def [abs_def] snapshot_access_def [abs_def] track_backups_def [abs_def] delete_fields
  by (rule refl)+

lemmas delete_frame = delete_fields in_phase_delete in_file_access_delete other_delete

lemma account_step_delete:
  assumes "\<And>nm. a = ActDelete nm \<Longrightarrow> d nm = pv_delete pv nm"
  shows "account_step (pv\<lparr>pv_delete := d\<rparr>) fo a = account_step pv fo a"
  using assms by (cases a) (simp_all add: account_step_def [abs_def] in_phase_delete)

lemma steps_delete:
  "create_group_step (pv\<lparr>pv_delete := d\<rparr>) fo = create_group_step pv fo"
  "account_access_step (pv\<lparr>pv_delete := d\<rparr>) fo = account_access_step pv fo"
  "deleted_access_step (pv\<lparr>pv_delete := d\<rparr>) fo = deleted_access_step pv fo"
  "group_grant_step (pv\<lparr>pv_delete := d\<rparr>) fo = group_grant_step pv fo"
  "delete_group_step (pv\<lparr>pv_delete := d\<rparr>) fo = delete_group_step pv fo"
  unfolding create_group_step_def [abs_def] account_access_step_def [abs_def] deleted_access_step_def [abs_def]
    group_grant_step_def [abs_def] delete_group_step_def [abs_def] apply_group_grants_def [abs_def]
    teardown_group_def [abs_def] group_access_def [abs_def] revoke_all_def [abs_def] member_step_def [abs_def] delete_frame
  by (rule refl)+

lemma account_steps_delete:
  assumes "\<And>nm. ActDelete nm \<in> set as \<Longrightarrow> d nm = pv_delete pv nm"
  shows "for_each (account_step (pv\<lparr>pv_delete := d\<rparr>) fo) as = for_each (account_step pv fo) as"
  using assms by (intro for_each_cong account_step_delete) auto

lemma phases_delete:
  assumes "\<And>nm. ActDelete nm \<in> set (pl_actions (pr_plan pr)) \<Longrightarrow> d nm = pv_delete pv nm"
  shows "phases (pv\<lparr>pv_delete := d\<rparr>) fo ai pr = phases pv fo ai pr"
  unfolding phases_def steps_delete by (subst account_steps_delete) (auto intro: assms)

subsection \<open>The trivial contract\<close>

definition planning_error :: "'c apply_error \<Rightarrow> bool" where
  "planning_error e =
     (case e of
        AeNotTrusted \<Rightarrow> True | AeTrust _ \<Rightarrow> True | AeLockout _ \<Rightarrow> True | AeResolve _ \<Rightarrow> True
      | AeGroupPlan _ \<Rightarrow> True | AeDeclaration _ \<Rightarrow> True | AeSessionRegistry _ \<Rightarrow> True | _ \<Rightarrow> False)"

interpretation any_host: snapshotting pv fo "\<lambda>_. True" "\<lambda>_. True" "\<lambda>_ _. True" "\<lambda>_. True"
  for pv :: "('x, 'p, 'f) host provisioner" and fo :: "('x, 'p, 'f) host file_access_ops"
  by unfold_locales (simp_all add: triple_def split: prod.splits sum.splits)

end
