(* ===== verification/Production.thy ===== *)
theory Production
  imports Apply
begin

text \<open>
  The orchestrator on its production interfaces: the shadow-utils provisioner with its backup
  and the ACL backend, both running programs through the same parameter, and what a rollback
  leaves of the files it protects.
\<close>

subsection \<open>The production interfaces\<close>

definition by_prov :: "('p \<Rightarrow> ('x world, 'e, 'a) comp) \<Rightarrow> (('x, 'p, 'f) host, 'e, 'a) comp" where
  "by_prov m h = on_world (m (h_prov h)) h"

definition by_fa :: "('f \<Rightarrow> ('x world, 'e, 'a) comp) \<Rightarrow> (('x, 'p, 'f) host, 'e, 'a) comp" where
  "by_fa m h = on_world (m (h_fa h)) h"

definition prov_snapshot :: "(('x, shadow_utils, 'f) host, provision_error, unit) comp" where
  "prov_snapshot h =
     (case su_snapshot (h_prov h) (h_world h) of
        (Ok su, w) \<Rightarrow> (Ok (), h\<lparr>h_prov := su, h_world := w\<rparr>)
      | (Err e, w) \<Rightarrow> (Err e, h\<lparr>h_world := w\<rparr>))"

definition fa_snapshot ::
    "'x acl_env \<Rightarrow> path list \<Rightarrow> (('x, 'p, acl_backend) host, file_access_error, unit) comp" where
  "fa_snapshot env paths h =
     (case acl_snapshot env (h_fa h) paths (h_world h) of
        (Ok b, w) \<Rightarrow> (Ok (), h\<lparr>h_fa := b, h_world := w\<rparr>)
      | (Err e, w) \<Rightarrow> (Err e, h\<lparr>h_world := w\<rparr>))"

definition shadow_ops :: "'x world exec \<Rightarrow> (('x, shadow_utils, 'f) host) provisioner" where
  "shadow_ops exec =
     \<lparr>pv_create = (\<lambda>a. on_world (su_create exec a)),
      pv_update = (\<lambda>a changes. by_prov (\<lambda>su. su_update exec su a changes)),
      pv_delete = (\<lambda>nm. on_world (su_delete exec nm)),
      pv_create_group = (\<lambda>nm gid. on_world (su_create_group exec nm gid)),
      pv_group_gid = (\<lambda>nm h. case su_group_gid exec nm (h_world h) of (g, w) \<Rightarrow> (g, h\<lparr>h_world := w\<rparr>)),
      pv_delete_group = (\<lambda>nm. on_world (su_delete_group exec nm)),
      pv_apply_sudoers = (\<lambda>a. by_prov (\<lambda>su. su_apply_sudoers exec su a)),
      pv_remove_sudoers = (\<lambda>nm. by_prov (\<lambda>su. su_remove_sudoers su nm)),
      pv_apply_group_sudoers = (\<lambda>g. by_prov (\<lambda>su. su_apply_group_sudoers exec su g)),
      pv_remove_group_sudoers = (\<lambda>nm. by_prov (\<lambda>su. su_remove_group_sudoers su nm)),
      pv_add_group_member = (\<lambda>nm m. on_world (su_add_group_member exec nm m)),
      pv_remove_group_member = (\<lambda>nm m. on_world (su_remove_group_member exec nm m)),
      pv_track_sudoers_backup = (\<lambda>p h. h\<lparr>h_prov := su_track_sudoers_backup p (h_prov h)\<rparr>),
      pv_snapshot = prov_snapshot,
      pv_restore = by_prov su_restore\<rparr>"

definition process_env :: "'x world exec \<Rightarrow> ('x world \<Rightarrow> dir_tree) \<Rightarrow> 'x acl_env" where
  "process_env exec tree = \<lparr>ae_run = process_run exec, ae_tree = tree\<rparr>"

definition acl_ops :: "'x acl_env \<Rightarrow> (('x, 'p, acl_backend) host) file_access_ops" where
  "acl_ops env =
     \<lparr>fo_capabilities = acl_capabilities,
      fo_materialize = (\<lambda>pr gs. by_fa (\<lambda>b. acl_materialize env b pr gs)),
      fo_revoke = (\<lambda>pr g. by_fa (\<lambda>b. acl_revoke env b pr g)),
      fo_snapshot = fa_snapshot env,
      fo_restore = by_fa (acl_restore env)\<rparr>"

subsection \<open>What the operations leave alone\<close>

text \<open>
  The files under \<open>dir\<close> are as \<open>f\<close> says, and \<^verbatim>\<open>stat\<close> does not fail.
\<close>

definition guards :: "node \<Rightarrow> (node \<Rightarrow> fs_file option) \<Rightarrow> 'x world \<Rightarrow> bool" where
  "guards dir f w \<longleftrightarrow> (\<forall>n. node_under dir n \<longrightarrow> w_files w n = f n) \<and> stats_ok w"

lemma guards_touches:
  assumes "only_touches N w w'" and "\<And>n. n \<in> N \<Longrightarrow> \<not> node_under dir n" and "guards dir f w"
  shows "guards dir f w'"
proof -
  have "w_files w' n = f n" if "node_under dir n" for n
    using assms(2) [of n] only_touches_files [OF assms(1), of n] assms(3) that by (auto simp: guards_def)
  then show ?thesis using assms(3) only_touches_sched(1) [OF assms(1)] by (simp add: guards_def)
qed

lemma kept_touches:
  assumes "\<And>w r w'. m w = (r, w') \<Longrightarrow> only_touches N w w'" and "\<And>n. n \<in> N \<Longrightarrow> \<not> node_under dir n"
  shows "kept (guards dir f) m"
  by (rule keptI) (rule guards_touches [OF assms(1) assms(2)])

lemma fs_kept:
  assumes "\<not> node_under dir n"
  shows "kept (guards dir f) (fs_create_new n m)" "kept (guards dir f) (fs_open_truncate n m)"
    "kept (guards dir f) (fs_write_all n s)" "kept (guards dir f) (fs_chmod n m)" "kept (guards dir f) (fs_remove_file n)"
  by (rule kept_touches [where N = "{n}"], erule fs_touches, use assms in simp)+

lemma fs_rename_kept: "\<not> node_under dir a \<Longrightarrow> \<not> node_under dir b \<Longrightarrow> kept (guards dir f) (fs_rename a b)"
  by (rule kept_touches [where N = "{a, b}"], erule fs_rename_touches) auto

lemma fs_create_dir_kept: "kept (guards dir f) (fs_create_dir n)"
  by (rule kept_touches [where N = "{}"], erule fs_touches) simp

lemma cleanup_kept: "\<not> node_under dir n \<Longrightarrow> guards dir f w \<Longrightarrow> guards dir f (cleanup_temp n w)"
  by (rule guards_touches [OF cleanup_temp_touches]) auto

text \<open>
  The programs that are run leave the snapshot directory alone and do not make \<^verbatim>\<open>stat\<close> fail.
\<close>

definition tools_keep :: "node \<Rightarrow> 'x world exec \<Rightarrow> bool" where
  "tools_keep dir exec \<longleftrightarrow>
     (\<forall>p args w. (\<forall>n. node_under dir n \<longrightarrow> w_files (snd (exec p args w)) n = w_files w n)
        \<and> (stats_ok w \<longrightarrow> stats_ok (snd (exec p args w))))"

text \<open>\<^verbatim>\<open>setfacl\<close> does not change what files hold.\<close>

definition setfacl_keeps_bytes :: "'x world exec \<Rightarrow> bool" where
  "setfacl_keeps_bytes exec \<longleftrightarrow> (\<forall>args w n. bytes_at (snd (exec ''setfacl'' args w)) n = bytes_at w n)"

lemma setfacl_bytes:
  "setfacl_keeps_bytes exec \<Longrightarrow> exec ''setfacl'' args w = (r, w') \<Longrightarrow> bytes_at w' n = bytes_at w n"
  unfolding setfacl_keeps_bytes_def by (metis snd_conv)

lemma exec_kept:
  assumes "tools_keep dir exec"
  shows "kept (guards dir f) (exec p args)"
proof (rule keptI)
  fix w r w' assume g: "guards dir f w" and e: "exec p args w = (r, w')"
  have "w_files w' n = w_files w n" if "node_under dir n" for n
    using assms that e unfolding tools_keep_def by (metis snd_conv)
  moreover have "stats_ok w'"
    using assms g e unfolding tools_keep_def guards_def by (metis snd_conv)
  ultimately show "guards dir f w'" using g by (simp add: guards_def)
qed

subsection \<open>Every operation keeps the snapshot directory\<close>

lemma kept_case_result:
  assumes "kept K m"
  shows "kept K (\<lambda>w. case m w of (r, w1) \<Rightarrow> (g r w1, w1))"
  using keptD [OF assms] by (intro keptI) (auto split: prod.splits)

lemma open_excl_or_retry_kept: "\<not> node_under dir n \<Longrightarrow> kept (guards dir f) (open_excl_or_retry n)"
  by (rule kept_touches [where N = "{n}"], erule open_excl_or_retry_touches) simp

lemma run_visudo_kept:
  assumes "tools_keep dir exec"
  shows "kept (guards dir f) (run_visudo (visudo_by exec) tmp subject)"
proof (rule keptI)
  fix w r w' assume "guards dir f w" and "run_visudo (visudo_by exec) tmp subject w = (r, w')"
  then show "guards dir f w'"
    using keptD [OF exec_kept [OF assms, of f "''visudo''" "[''-c'', ''-f'', node_display tmp]"]]
    by (auto simp: run_visudo_def visudo_by_def split: prod.splits sum.splits if_splits)
qed

lemma write_fragment_kept:
  assumes "tools_keep dir exec" and "\<And>x. \<not> node_under dir (node_join sd x)"
  shows "kept (guards dir f) (write_fragment (visudo_by exec) sd filename content subject)"
  unfolding write_fragment_def Let_def set_mode_0440_def fragment_temp_def
  by (intro kept_rules open_excl_or_retry_kept run_visudo_kept fs_kept fs_rename_kept cleanup_kept assms)

lemma remove_fragment_kept:
  assumes "\<And>x. \<not> node_under dir (node_join sd x)"
  shows "kept (guards dir f) (remove_fragment sd filename)"
proof (rule keptI)
  fix w r w' assume "guards dir f w" and "remove_fragment sd filename w = (r, w')"
  then show "guards dir f w'"
    using keptD [OF fs_kept(5) [OF assms, of f filename]]
    by (auto simp: remove_fragment_def Let_def split: prod.splits sum.splits io_error.splits)
qed

lemma su_run_all_kept:
  assumes "tools_keep dir exec"
  shows "kept (guards dir f) (su_run_all exec cmds)"
proof -
  have "kept (guards dir f) (su_run exec cmd)" for cmd
    by (cases cmd) (auto simp: su_run_def intro!: kept_seq kept_comp_err exec_kept [OF assms])
  then show ?thesis unfolding su_run_all_def by (intro kept_for_each)
qed

lemma su_update_kept: "tools_keep dir exec \<Longrightarrow> kept (guards dir f) (su_update exec su a changes)"
  by (auto simp: su_update_def intro!: su_run_all_kept split: option.splits sum.splits)

lemma process_run_kept: "tools_keep dir exec \<Longrightarrow> kept (guards dir f) (process_run exec p args)"
  by (auto simp: process_run_def intro!: kept_seq kept_comp_err exec_kept)

lemma resolve_in_kept: "kept K (resolve_in env p)"
  by (simp add: triple_def resolve_in_def split: sum.splits)

lemma run_passes_kept_by:
  assumes "tools_keep dir exec"
  shows "kept (guards dir f) (run_passes (process_env exec tree) b declared argss)"
  unfolding run_passes_def
  by (intro kept_for_each kept_seq kept_comp_err) (simp_all add: process_env_def process_run_kept [OF assms])

lemma acl_ops_kept:
  assumes "tools_keep dir exec"
  shows "kept (guards dir f) (acl_materialize (process_env exec tree) b pr gs)"
    and "kept (guards dir f) (acl_revoke (process_env exec tree) b pr g)"
  unfolding acl_materialize_def acl_revoke_def materialize_one_def
  by (auto intro!: kept_for_each kept_seq resolve_in_kept run_passes_kept_by assms)

lemma acl_snapshot_kept:
  assumes "tools_keep dir exec" and "\<not> node_under dir (acl_snapshot_file b)"
  shows "kept (guards dir f) (acl_snapshot (process_env exec tree) b paths)"
  unfolding acl_snapshot_def dump_one_def fs_write_def
  by (intro kept_rules resolve_in_kept fs_create_dir_kept fs_kept assms)
    (simp add: process_env_def process_run_kept [OF assms(1)])

subsection \<open>A transaction that can be rolled back\<close>

definition snapshot_dir :: "backup \<Rightarrow> 'x world \<Rightarrow> node" where
  "snapshot_dir b w = node_join (bk_root b) (fst (timestamp_component w))"

text \<open>
  What a rollback relies on when the snapshot of \<open>b\<close> is taken in \<open>w\<close>: the programs leave the
  snapshot directory alone, it is new, the targets and their temporary files are distinct and
  outside it, and neither the sudoers directory nor the access snapshot lies in it.
\<close>

definition can_roll_back :: "'x world exec \<Rightarrow> backup \<Rightarrow> 'x world \<Rightarrow> node \<Rightarrow> node \<Rightarrow> bool" where
  "can_roll_back exec b w sd rd \<longleftrightarrow>
     (let dir = snapshot_dir b w in
      tools_keep dir exec \<and> setfacl_keeps_bytes exec \<and> stats_ok w
      \<and> (\<forall>n. node_under dir n \<longrightarrow> w_files w n = None) \<and> distinct (bk_targets b)
      \<and> (\<forall>a\<in>set (bk_targets b).
           \<not> node_under dir a \<and> \<not> node_under dir (restore_temp a) \<and> restore_temp a \<notin> set (bk_targets b))
      \<and> (\<forall>x. \<not> node_under dir (node_join sd x)) \<and> (\<forall>x. \<not> node_under dir (node_join rd x)))"

definition wired :: "node \<Rightarrow> node \<Rightarrow> ('x, shadow_utils, acl_backend) host \<Rightarrow> bool" where
  "wired sd rd h \<longleftrightarrow> su_sudoers_dir (h_prov h) = sd \<and> ab_setfacl_bin (h_fa h) = ''setfacl'' \<and> ab_rollback_dir (h_fa h) = rd"

definition in_transaction ::
    "'x world exec \<Rightarrow> backup \<Rightarrow> 'x world \<Rightarrow> node \<Rightarrow> node \<Rightarrow> ('x, shadow_utils, acl_backend) host \<Rightarrow> bool" where
  "in_transaction exec b w sd rd h \<longleftrightarrow>
     can_roll_back exec b w sd rd \<and> wired sd rd h
     \<and> (\<exists>w1. snapshot b w = (Ok (su_backup (h_prov h)), w1) \<and> guards (snapshot_dir b w) (w_files w1) (h_world h))"

definition restored :: "backup \<Rightarrow> 'x world \<Rightarrow> 'x world \<Rightarrow> bool" where
  "restored b w w' \<longleftrightarrow> (\<forall>a\<in>set (bk_targets b). w_files w a \<noteq> None \<longrightarrow> bytes_at w' a = bytes_at w a)"

lemma in_transaction_by:
  assumes "\<And>f. tools_keep (snapshot_dir b w) exec \<Longrightarrow> (\<And>x. \<not> node_under (snapshot_dir b w) (node_join sd x)) \<Longrightarrow>
      wired sd rd h \<Longrightarrow> kept (guards (snapshot_dir b w) f) (m h)"
  shows "in_transaction exec b w sd rd h \<Longrightarrow> on_world (m h) h = (r, h') \<Longrightarrow> in_transaction exec b w sd rd h'"
proof -
  assume t: "in_transaction exec b w sd rd h" and o: "on_world (m h) h = (r, h')"
  then obtain w2 where m: "m h (h_world h) = (r, w2)" and h': "h' = h\<lparr>h_world := w2\<rparr>" by (auto simp: on_world_iff)
  from t obtain w1 where c: "can_roll_back exec b w sd rd" "wired sd rd h"
    and s: "snapshot b w = (Ok (su_backup (h_prov h)), w1)" "guards (snapshot_dir b w) (w_files w1) (h_world h)"
    by (auto simp: in_transaction_def)
  have "kept (guards (snapshot_dir b w) (w_files w1)) (m h)"
    by (rule assms) (use c in \<open>simp_all add: can_roll_back_def Let_def\<close>)
  from keptD [OF this s(2) m] c s(1) show ?thesis by (auto simp: in_transaction_def h' wired_def)
qed

lemma kept_on_world:
  assumes "\<And>f. tools_keep (snapshot_dir b w) exec \<Longrightarrow> kept (guards (snapshot_dir b w) f) m"
  shows "kept (in_transaction exec b w sd rd) (on_world m)"
  by (rule keptI) (rule in_transaction_by [where m = "\<lambda>_. m"], rule assms)

lemma kept_by_prov:
  assumes "\<And>f su. tools_keep (snapshot_dir b w) exec \<Longrightarrow> (\<And>x. \<not> node_under (snapshot_dir b w) (node_join sd x)) \<Longrightarrow>
      su_sudoers_dir su = sd \<Longrightarrow> kept (guards (snapshot_dir b w) f) (m su)"
  shows "kept (in_transaction exec b w sd rd) (by_prov m)"
  unfolding by_prov_def [abs_def]
  by (rule keptI) (rule in_transaction_by [where m = "\<lambda>h. m (h_prov h)"], rule assms, simp_all add: wired_def)

lemma kept_by_fa:
  assumes "\<And>f b'. tools_keep (snapshot_dir b w) exec \<Longrightarrow> kept (guards (snapshot_dir b w) f) (m b')"
  shows "kept (in_transaction exec b w sd rd) (by_fa m)"
  unfolding by_fa_def [abs_def] by (rule keptI) (rule in_transaction_by [where m = "\<lambda>h. m (h_fa h)"], rule assms)

lemma group_gid_kept:
  assumes "in_transaction exec b w sd rd h"
  shows "in_transaction exec b w sd rd (snd (pv_group_gid (shadow_ops exec) nm h))"
proof -
  let ?m = "\<lambda>w. (Ok (fst (su_group_gid exec nm w)), snd (su_group_gid exec nm w))"
  have "kept (guards (snapshot_dir b w) f) ?m" if "tools_keep (snapshot_dir b w) exec" for f
  proof (rule keptI)
    fix w1 r w2 assume "guards (snapshot_dir b w) f w1" and "?m w1 = (r, w2)"
    then show "guards (snapshot_dir b w) f w2"
      using keptD [OF exec_kept [OF that, of f "''getent''" "[''group'', nm]"]]
      by (auto simp: su_group_gid_def split: prod.splits sum.splits)
  qed
  from keptD [OF kept_on_world [where m = ?m, OF this] assms] show ?thesis
    by (auto simp: on_world_def shadow_ops_def split: prod.splits)
qed

lemma snapshot_frame:
  fixes w :: "'x world"
  assumes "snapshot b w = (r, w')" and "\<not> node_under (snapshot_dir b w) n"
  shows "w_files w' n = w_files w n"
proof -
  let ?d = "snapshot_dir b w" and ?K = "\<lambda>w1 :: 'x world. w_files w1 n = w_files w n"
  have copy: "kept ?K (copy_file a (node_join ?d x))" for a x
  proof -
    have "n \<noteq> node_join ?d x" using assms(2) by (auto simp: node_under_def node_join_def)
    then show ?thesis
      unfolding copy_file_def by (intro kept_comp_err keptI) (drule fs_touches(10), auto dest: only_touches_files)
  qed
  have files: "kept ?K (snapshot_files ?d i ns saved)" for i ns saved
  proof (induction ns arbitrary: i saved)
    case Nil
    show ?case by (simp add: triple_def)
  next
    case (Cons a ns)
    have st: "kept ?K (seq (if ex then copy_file a (node_join ?d x) else pure_ok ()) (\<lambda>_. snapshot_files ?d (Suc i) ns sv))"
      for ex x sv
      by (rule kept_seq, cases ex, simp_all only: if_True if_False copy kept_pure) (rule Cons.IH)+
    show ?case
    proof (rule keptI)
      fix w1 r' w2 assume "?K w1" and "snapshot_files ?d i (a # ns) saved w1 = (r', w2)"
      then show "?K w2" using keptD [OF st, of "tick w1" _ _ _ r' w2] by (simp add: fs_exists_def Let_def)
    qed
  qed
  have "kept ?K (seq (create_dir_0700 ?d) (\<lambda>_. seq (snapshot_files ?d 0 (bk_targets b) [])
      (\<lambda>saved. pure_ok (b\<lparr>bk_snapshot_dir := Some ?d, bk_saved := saved\<rparr>))))"
    unfolding create_dir_0700_def
    by (intro kept_rules files keptI) (drule fs_touches(11), simp add: only_touches_files)
  from keptD [OF this, of "snd (timestamp_component w)" r w'] assms(1)
    timestamp_frame [of w "fst (timestamp_component w)" "snd (timestamp_component w)"]
  show ?thesis by (simp add: snapshot_def Let_def snapshot_dir_def split_beta)
qed

lemma snapshot_Ok_dir: "snapshot b w = (Ok b', w') \<Longrightarrow> bk_snapshot_dir b' = Some (snapshot_dir b w)"
  by (auto simp: snapshot_def snapshot_dir_def seq_Ok_iff pure_ok_def Let_def split: prod.splits)

lemma restore_restores:
  assumes "in_transaction exec b w sd rd h" and "restore (su_backup (h_prov h)) (h_world h) = (Ok u, w3)"
  shows "restored b w w3"
proof -
  obtain w1 where s: "snapshot b w = (Ok (su_backup (h_prov h)), w1)"
    and g: "guards (snapshot_dir b w) (w_files w1) (h_world h)" and c: "can_roll_back exec b w sd rd"
    using assms(1) by (auto simp: in_transaction_def)
  note c = c [unfolded can_roll_back_def Let_def]
  from restore_after_snapshot [OF s _ snapshot_Ok_dir [OF s], of "h_world h"] c g assms(2)
  show ?thesis unfolding restored_def guards_def by simp
qed

lemma rollback_restored:
  assumes t: "in_transaction exec b w sd rd h"
    and a: "abort_with_rollback (shadow_ops exec) (acl_ops (process_env exec tree)) h = (Restored, h')"
  shows "restored b w (h_world h')"
proof -
  have bytes: "setfacl_keeps_bytes exec" "ab_setfacl_bin (h_fa h) = ''setfacl''"
    using t by (auto simp: in_transaction_def can_roll_back_def Let_def wired_def)
  obtain r w3 where re: "restore (su_backup (h_prov h)) (h_world h) = (r, w3)" by fastforce
  obtain ra w4 where ac: "acl_restore (process_env exec tree) (h_fa h) w3 = (ra, w4)" by fastforce
  have r: "r = Ok ()" and h': "h_world h' = w4"
    using a re ac by (auto simp: abort_with_rollback_def shadow_ops_def acl_ops_def by_prov_def by_fa_def on_world_def
        su_restore_def comp_err_def rollback_of_def split: prod.splits sum.splits)
  have "bytes_at w4 n = bytes_at w3 n" for n
    using ac bytes(2) setfacl_bytes [OF bytes(1)]
    by (auto simp: acl_restore_def process_env_def process_run_def seq_def comp_err_def pure_ok_def fail_def
        split: option.splits prod.splits sum.splits if_splits)
  with restore_restores [OF t, of "()" w3] re r show ?thesis by (simp add: restored_def h')
qed

lemma prov_snapshot_starts:
  assumes "can_roll_back exec b w sd rd \<and> wired sd rd h \<and> su_backup (h_prov h) = b \<and> h_world h = w"
    and "prov_snapshot h = (Ok u, h')"
  shows "in_transaction exec b w sd rd h'"
proof -
  from assms obtain b' w1 where s: "snapshot b w = (Ok b', w1)"
    and h': "h' = h\<lparr>h_prov := (h_prov h)\<lparr>su_backup := b'\<rparr>, h_world := w1\<rparr>"
    by (auto simp: prov_snapshot_def su_snapshot_def seq_Ok_iff comp_err_iff pure_ok_def split: prod.splits sum.splits)
  have c: "can_roll_back exec b w sd rd" and c': "stats_ok w"
    "\<forall>n. node_under (snapshot_dir b w) n \<longrightarrow> w_files w n = None"
    "\<forall>a\<in>set (bk_targets b). \<not> node_under (snapshot_dir b w) a"
    using assms(1) by (simp_all add: can_roll_back_def Let_def)
  have "w_stat_fault w1 = w_stat_fault w"
    using snapshot_Ok [OF s c'(1) snapshot_Ok_dir [OF s] c'(2,3)] by simp
  then have "guards (snapshot_dir b w) (w_files w1) w1" using c'(1) by (simp add: guards_def)
  with s assms(1) c show ?thesis by (simp add: in_transaction_def h' wired_def)
qed

lemma prov_snapshot_fails:
  assumes "can_roll_back exec b w sd rd \<and> wired sd rd h \<and> su_backup (h_prov h) = b \<and> h_world h = w"
    and "prov_snapshot h = (Err e, h')"
  shows "restored b w (h_world h')"
proof -
  from assms obtain e' where s: "snapshot b w = (Err e', h_world h')"
    by (auto simp: prov_snapshot_def su_snapshot_def seq_Err_iff comp_err_iff pure_ok_def split: prod.splits sum.splits)
  have "\<forall>a\<in>set (bk_targets b). \<not> node_under (snapshot_dir b w) a"
    using assms(1) by (simp add: can_roll_back_def Let_def)
  with snapshot_frame [OF s] show ?thesis by (simp add: restored_def)
qed

lemma fa_snapshot_keeps:
  assumes "in_transaction exec b w sd rd h" and "fa_snapshot (process_env exec tree) ps h = (Ok u, h')"
  shows "in_transaction exec b w sd rd h'"
proof -
  from assms obtain w1 where c: "can_roll_back exec b w sd rd" "wired sd rd h"
    and s: "snapshot b w = (Ok (su_backup (h_prov h)), w1)" "guards (snapshot_dir b w) (w_files w1) (h_world h)"
    by (auto simp: in_transaction_def)
  from assms(2) obtain fb w2 where a: "acl_snapshot (process_env exec tree) (h_fa h) ps (h_world h) = (Ok fb, w2)"
    and h': "h' = h\<lparr>h_fa := fb, h_world := w2\<rparr>"
    by (auto simp: fa_snapshot_def split: prod.splits sum.splits)
  have fb: "fb = (h_fa h)\<lparr>ab_last_snapshot := Some (acl_snapshot_file (h_fa h))\<rparr>"
    using a by (auto simp: acl_snapshot_def seq_Ok_iff pure_ok_def)
  have "kept (guards (snapshot_dir b w) (w_files w1)) (acl_snapshot (process_env exec tree) (h_fa h) ps)"
    by (rule acl_snapshot_kept)
      (use c in \<open>simp_all add: can_roll_back_def Let_def wired_def acl_snapshot_file_def\<close>)
  from keptD [OF this s(2) a] c s(1) show ?thesis by (auto simp: in_transaction_def wired_def h' fb)
qed

interpretation backed_up: snapshotting "shadow_ops exec" "acl_ops (process_env exec tree)"
    "in_transaction exec b w sd rd" "\<lambda>_. True" "\<lambda>r h. r = Restored \<longrightarrow> restored b w (h_world h)"
    "\<lambda>h. can_roll_back exec b w sd rd \<and> wired sd rd h \<and> su_backup (h_prov h) = b \<and> h_world h = w"
  for exec :: "'x world exec" and tree b w sd rd
proof (unfold_locales, goal_cases)
  case 1 show ?case by (simp add: shadow_ops_def su_create_def kept_on_world su_run_all_kept)
next
  case 2 show ?case by (simp add: shadow_ops_def kept_by_prov su_update_kept)
next
  case 3 show ?case by (simp add: shadow_ops_def su_delete_def kept_on_world su_run_all_kept)
next
  case 4 show ?case by (simp add: shadow_ops_def su_create_group_def kept_on_world su_run_all_kept)
next
  case (5 s nm) then show ?case by (rule group_gid_kept)
next
  case 6 show ?case by (simp add: shadow_ops_def su_delete_group_def kept_on_world su_run_all_kept)
next
  case (7 a) show ?case
    by (auto simp: shadow_ops_def su_apply_sudoers_def write_sudoers_def remove_sudoers_def split: option.splits
        intro!: kept_by_prov kept_comp_err write_fragment_kept remove_fragment_kept)
next
  case 8 show ?case
    by (auto simp: shadow_ops_def su_remove_sudoers_def remove_sudoers_def
        intro!: kept_by_prov kept_comp_err remove_fragment_kept)
next
  case 9 show ?case
    by (auto simp: shadow_ops_def su_apply_group_sudoers_def write_group_sudoers_def remove_group_sudoers_def
        split: option.splits intro!: kept_by_prov kept_comp_err write_fragment_kept remove_fragment_kept)
next
  case 10 show ?case
    by (auto simp: shadow_ops_def su_remove_group_sudoers_def remove_group_sudoers_def
        intro!: kept_by_prov kept_comp_err remove_fragment_kept)
next
  case 11 show ?case by (simp add: shadow_ops_def su_add_group_member_def kept_on_world su_run_all_kept)
next
  case 12 show ?case by (simp add: shadow_ops_def su_remove_group_member_def kept_on_world su_run_all_kept)
next
  case 13 show ?case by (simp add: acl_ops_def kept_by_fa acl_ops_kept)
next
  case 14 show ?case by (simp add: acl_ops_def kept_by_fa acl_ops_kept)
next
  case 15 then show ?case by (auto intro: rollback_restored)
next
  case (16 s u s') then show ?case
    using prov_snapshot_starts [of exec b w sd rd s u s'] by (simp add: shadow_ops_def)
next
  case (17 s e s') then show ?case
    using prov_snapshot_fails [of exec b w sd rd s e s'] by (simp add: shadow_ops_def)
next
  case (18 s ps u s') then show ?case
    using fa_snapshot_keeps [of exec b w sd rd s tree ps u s'] by (simp add: acl_ops_def)
qed

text \<open>The backup session of a run: the provisioner's, with every fragment the plan touches.\<close>

definition tracked :: "('k, 'c, 'v, 'x) apply_inputs \<Rightarrow> 'v prepared \<Rightarrow> backup \<Rightarrow> backup" where
  "tracked ai pr b = fold backup_add_file (touched_sudoers_paths (pr_plan pr) (ai_sudoers_dir ai)
     @ touched_group_sudoers_paths (pr_rgroup_actions pr) (ai_sudoers_dir ai)) b"

lemma track_backups_shadow:
  "track_backups (shadow_ops exec) ns h = h\<lparr>h_prov := (h_prov h)\<lparr>su_backup := fold backup_add_file ns (su_backup (h_prov h))\<rparr>\<rparr>"
  by (induction ns arbitrary: h) (simp_all add: track_backups_def shadow_ops_def su_track_sudoers_backup_def)

lemma execute_restores:
  assumes "execute (shadow_ops exec) (acl_ops (process_env exec tree)) ai mode pr h1 = (Err e, h')"
    and "can_roll_back exec (tracked ai pr (su_backup (h_prov h1))) (h_world h1) sd rd" and "wired sd rd h1"
    and "e = AePhase phase source Restored \<or> e = AeCorruptPlan nm Restored"
  shows "restored (tracked ai pr (su_backup (h_prov h1))) (h_world h1) (h_world h')"
proof -
  from backed_up.execute_ends [OF assms(1), of "tracked ai pr (su_backup (h_prov h1))" "h_world h1" sd rd]
  have "aborted (\<lambda>r h. r = Restored \<longrightarrow> restored (tracked ai pr (su_backup (h_prov h1))) (h_world h1) (h_world h)) e h'
      \<or> (\<exists>x. e = AeFileAccess x)"
    using assms(2,3) by (simp add: track_backups_shadow tracked_def wired_def)
  then show ?thesis using assms(4) by (auto simp: aborted_def)
qed

subsection \<open>Sample runs\<close>

text \<open>
  A declaration that drops every account and group, on a host with one managed account.
\<close>

definition dropping_inputs :: "(string, managed_account) btree \<Rightarrow> live_sessions \<Rightarrow> bool \<Rightarrow> (string, unit, unit, unit) apply_inputs" where
  "dropping_inputs accounts live risk =
     \<lparr>ai_declaration = sample_decl\<lparr>d_role_accounts := [], d_groups := [], d_role_groups := []\<rparr>,
      ai_declaration_bytes = [], ai_accounts = accounts, ai_groups = [], ai_inspector = (\<lambda>_. sample_inspector),
      ai_crypto = sample_crypto, ai_trust = trust_opts\<lparr>to_trust_fs := True\<rparr>,
      ai_lockout = \<lparr>lc_rescue_present = False, lc_risk_acknowledged = risk\<rparr>,
      ai_sudoers_dir = (True, [''etc'', ''sudoers.d'']), ai_sessions = (\<lambda>_. Ok live),
      ai_compile = sample_inputs\<rparr>"

definition sample_exec :: "unit world exec" where
  "sample_exec p args w =
     (Ok \<lparr>po_success = (p \<noteq> ''userdel''), po_status = ''exit status: 8'', po_stdout = [], po_stderr = ''busy''\<rparr>, w)"

definition sample_host :: "(unit, shadow_utils, acl_backend) host" where
  "sample_host =
     \<lparr>h_world = sample_world,
      h_prov = \<lparr>su_managed = sample_managed, su_backup = sample_backup, su_sudoers_dir = (True, [''etc'', ''sudoers.d''])\<rparr>,
      h_fa = acl_production (True, [''var'', ''fa''])\<rparr>"

definition sample_run ::
    "(string, unit, unit, unit) apply_inputs \<Rightarrow>
     (unit apply_error + unit apply_report) \<times> (unit, shadow_utils, acl_backend) host" where
  "sample_run ai = run ai (shadow_ops sample_exec) (acl_ops (process_env sample_exec (\<lambda>_. sample_tree))) sample_host"

lemma prepare_standalone: "to_trust_fs (ai_trust ai) \<Longrightarrow> snd (prepare ai caps h) = h"
  by (simp add: prepare_def seq_def comp_err_def on_world_def verify_trust_def pure_ok_def trust_decision_mode_def
      split: sum.splits option.splits)

lemma sample_prepared:
  "prepare (dropping_inputs sample_managed no_sessions True) acl_capabilities sample_host =
     (Ok (Standalone, \<lparr>pr_targets = [], pr_groups = [], pr_required = [],
        pr_plan = \<lparr>pl_actions = [ActDelete ''oper''], pl_group_actions = []\<rparr>, pr_rgroup_actions = [],
        pr_deferred = [], pr_log = [LogTrust (Trusted Standalone), LogRiskAcknowledged]\<rparr>), sample_host)"
  (is "?p = (?r, _)")
proof (rule prod_eqI)
  show "fst ?p = fst (?r, sample_host)" by code_simp
  show "snd ?p = snd (?r, sample_host)"
    using prepare_standalone [of "dropping_inputs sample_managed no_sessions True"] by (simp add: dropping_inputs_def)
qed

lemma sample_idle:
  "prepare (dropping_inputs [] no_sessions False) acl_capabilities sample_host =
     (Ok (Standalone, \<lparr>pr_targets = [], pr_groups = [], pr_required = [],
        pr_plan = \<lparr>pl_actions = [], pl_group_actions = []\<rparr>, pr_rgroup_actions = [],
        pr_deferred = [], pr_log = [LogTrust (Trusted Standalone)]\<rparr>), sample_host)"
  (is "?p = (?r, _)")
proof (rule prod_eqI)
  show "fst ?p = fst (?r, sample_host)" by code_simp
  show "snd ?p = snd (?r, sample_host)"
    using prepare_standalone [of "dropping_inputs [] no_sessions False"] by (simp add: dropping_inputs_def)
qed

subsection \<open>Properties\<close>

text \<open>
  C2: apply fails closed.  When it stops because the declaration is not trusted, does not
  resolve, plans a renumbering, names a bad group, cannot read the live sessions, or would lock
  everyone out, it has called neither the provisioner nor the file-access backend and has
  changed no file.
\<close>

theorem run_fails_closed:
  assumes "run ai pv fo h = (Err e, h')" and "planning_error e"
  shows "h_prov h' = h_prov h \<and> h_fa h' = h_fa h \<and> w_files (h_world h') = w_files (h_world h)"
  using assms(1)
proof (cases rule: run_cases)
  case (refused e')
  then show ?thesis by (metis prepare_frame)
next
  case (nothing mode pr)
  then show ?thesis by simp
next
  case (executed mode pr h1)
  from any_host.execute_ends [OF executed(3)] assms(2) show ?thesis
    by (auto simp: aborted_def planning_error_def split: apply_error.splits)
qed

theorem run_fails_closed_witness:
  "\<exists>h'. sample_run (dropping_inputs sample_managed no_sessions False) = (Err (AeLockout WouldLockOut), h')
     \<and> h_prov h' = h_prov sample_host \<and> w_files (h_world h') = w_files sample_world"
proof -
  have "fst (sample_run (dropping_inputs sample_managed no_sessions False)) = Err (AeLockout WouldLockOut)"
    by code_simp
  then obtain h' where r: "sample_run (dropping_inputs sample_managed no_sessions False) = (Err (AeLockout WouldLockOut), h')"
    by (metis prod.collapse)
  from run_fails_closed [OF r [unfolded sample_run_def]] have
    "h_prov h' = h_prov sample_host \<and> w_files (h_world h') = w_files (h_world sample_host)"
    by (simp add: planning_error_def)
  with r show ?thesis by (simp add: sample_host_def)
qed

text \<open>
  C4: an apply with nothing to do does nothing: it reports success with no mutation, leaves
  provisioner, backend and files alone, and asks for the registry to be written only if a
  deletion was deferred.
\<close>

theorem run_noop:
  assumes "prepare ai (fo_capabilities fo) h = (Ok (mode, pr), h1)" and "nothing_to_do pr"
  shows "\<exists>r. run ai pv fo h = (Ok r, h1) \<and> ar_mutations r = 0
    \<and> ar_registry_written r = (ar_deferred_deletes r \<noteq> [])
    \<and> h_prov h1 = h_prov h \<and> h_fa h1 = h_fa h \<and> w_files (h_world h1) = w_files (h_world h)"
  using prepare_frame [OF assms(1)] assms
  by (simp add: run_def report_def no_progress_def)

theorem run_noop_witness:
  "\<exists>r. sample_run (dropping_inputs [] no_sessions False) = (Ok r, sample_host) \<and> ar_mutations r = 0"
proof -
  let ?fo = "acl_ops (process_env sample_exec (\<lambda>_. sample_tree)) :: (unit, shadow_utils, acl_backend) host file_access_ops"
  obtain mode pr where p: "prepare (dropping_inputs [] no_sessions False) (fo_capabilities ?fo) sample_host =
      (Ok (mode, pr), sample_host)" "nothing_to_do pr"
    using sample_idle by (simp add: acl_ops_def nothing_to_do_def plan_is_empty_def)
  from run_noop [OF p, of "shadow_ops sample_exec"] show ?thesis unfolding sample_run_def by blast
qed

text \<open>
  C3: an account with a live session is never deleted.  Whatever the declaration drops, the
  run does not depend on what deleting such an account would do: replacing the provisioner's
  deletion by any other that agrees with it on accounts without a live session gives the very
  same run.
\<close>

theorem live_account_never_deleted:
  assumes sess: "\<forall>w. ai_sessions ai w = Ok live"
    and d: "\<forall>nm. \<not> has_session (ai_accounts ai) live nm \<longrightarrow> d nm = pv_delete pv nm"
  shows "run ai (pv\<lparr>pv_delete := d\<rparr>) fo h = run ai pv fo h"
proof (cases "prepare ai (fo_capabilities fo) h")
  case (Pair r h1)
  show ?thesis
  proof (cases "\<exists>mode pr. r = Ok (mode, pr)")
    case True
    then obtain mode pr where r: "r = Ok (mode, pr)" by blast
    from Pair r obtain pr0 dec where p0: "plan_stage ai (fo_capabilities fo) (h_world h1) = Ok pr0"
      and pr: "pr = pr0\<lparr>pr_log := dec # pr_log pr0\<rparr>"
      by (auto simp: prepare_def seq_Ok_iff fail_def try_bind_Ok_iff split: option.splits)
    have "d nm = pv_delete pv nm" if "ActDelete nm \<in> set (pl_actions (pr_plan pr))" for nm
      using planned_delete [OF p0, of nm live] that sess d by (simp add: pr)
    then have "phases (pv\<lparr>pv_delete := d\<rparr>) fo ai pr = phases pv fo ai pr" by (rule phases_delete)
    then have "execute (pv\<lparr>pv_delete := d\<rparr>) fo ai mode pr = execute pv fo ai mode pr"
      by (intro ext) (simp add: execute_def delete_frame)
    then show ?thesis using Pair r by (simp add: run_def)
  next
    case False
    then show ?thesis using Pair by (cases r) (auto simp: run_def)
  qed
qed

theorem live_account_never_deleted_witness:
  "\<exists>h'. run (dropping_inputs sample_managed sample_live True)
       ((shadow_ops sample_exec)\<lparr>pv_delete := (\<lambda>nm. if nm = ''oper'' then fail (PvSpawn [] None) else pv_delete (shadow_ops sample_exec) nm)\<rparr>)
       (acl_ops (process_env sample_exec (\<lambda>_. sample_tree))) sample_host = h'
     \<and> sample_run (dropping_inputs sample_managed sample_live True) = h' \<and> sum.isl (fst h') = False"
proof -
  have s: "has_session sample_managed sample_live ''oper''"
    by (simp add: has_session_def bt_get_def sample_managed_def session_matches_def sample_live_def)
  have f: "sum.isl (fst (sample_run (dropping_inputs sample_managed sample_live True))) = False" by code_simp
  show ?thesis
    using live_account_never_deleted [of "dropping_inputs sample_managed sample_live True" sample_live
        "\<lambda>nm. if nm = ''oper'' then fail (PvSpawn [] None) else pv_delete (shadow_ops sample_exec) nm"
        "shadow_ops sample_exec" "acl_ops (process_env sample_exec (\<lambda>_. sample_tree))" sample_host] s f
    by (auto simp: dropping_inputs_def sample_run_def)
qed

text \<open>
  C1: a failed phase leaves no half-applied system behind.  On the production interfaces, with
  programs that leave the snapshot directory alone, a run that fails in any phase and reports
  the rollback as done has given every file of the authentication database and every sudoers
  fragment the plan touches that existed before the bytes it had before the run.
\<close>

theorem rollback_restores:
  assumes "run ai (shadow_ops exec) (acl_ops (process_env exec tree)) h = (Err e, h')"
    and "e = AePhase phase source Restored \<or> e = AeCorruptPlan nm Restored"
    and "prepare ai acl_capabilities h = (Ok (mode, pr), h1)"
    and "can_roll_back exec (tracked ai pr (su_backup (h_prov h))) (h_world h1) sd rd" and "wired sd rd h"
  shows "\<forall>a\<in>set (bk_targets (tracked ai pr (su_backup (h_prov h)))).
    w_files (h_world h) a \<noteq> None \<longrightarrow> bytes_at (h_world h') a = bytes_at (h_world h) a"
proof -
  have same: "h_prov h1 = h_prov h" "h_fa h1 = h_fa h" "w_files (h_world h1) = w_files (h_world h)"
    using prepare_frame [OF assms(3)] by simp_all
  have "execute (shadow_ops exec) (acl_ops (process_env exec tree)) ai mode pr h1 = (Err e, h')"
    using assms(1,3) by (auto simp: run_def seq_def acl_ops_def split: if_splits)
  from execute_restores [OF this _ _ assms(2)] assms(4,5) same
  show ?thesis by (simp add: restored_def wired_def)
qed

lemma sample_can_roll_back:
  "can_roll_back sample_exec (backup_add_file (True, [''etc'', ''sudoers.d'', ''census-oper'']) sample_backup) sample_world
     (True, [''etc'', ''sudoers.d'']) (True, [''var'', ''fa''])"
proof -
  let ?b = "backup_add_file (True, [''etc'', ''sudoers.d'', ''census-oper'']) sample_backup"
  have dir: "snapshot_dir ?b sample_world = sample_dir"
    by (simp add: snapshot_dir_def sample_dir_def sample_backup_def backup_new_def backup_add_file_def)
  have under: "\<not> node_under sample_dir (a, ''etc'' # p)" "\<not> node_under sample_dir (a, ''var'' # p)" for a p
    using sample_under [of "(a, ''etc'' # p)"] sample_under [of "(a, ''var'' # p)"] by auto
  have t: "bk_targets ?b = [passwd_node, shadow_node, (True, [''etc'', ''sudoers.d'', ''census-oper''])]"
    by (simp add: sample_backup_def backup_new_def backup_add_file_def push_unique_def sample_nodes)
  have temps: "restore_temp passwd_node = (True, [''etc'', ''.census-restore-passwd''])"
    "restore_temp shadow_node = (True, [''etc'', ''.census-restore-shadow''])"
    "restore_temp (True, [''etc'', ''sudoers.d'', ''census-oper'']) = (True, [''etc'', ''sudoers.d'', ''.census-restore-census-oper''])"
    by (simp_all add: restore_temp_def sample_nodes node_join_def node_parent_def)
  show ?thesis
    unfolding can_roll_back_def Let_def dir t
    using under
    by (auto simp: tools_keep_def setfacl_keeps_bytes_def sample_exec_def temps sample_world_def node_join_def)
      (auto simp: sample_nodes)
qed

theorem rollback_restores_witness:
  "\<exists>h'. sample_run (dropping_inputs sample_managed no_sessions True) =
       (Err (AePhase ''delete'' (PvCommandFailed [''userdel'', ''-r'', ''oper''] ''exit status: 8'' ''busy'') Restored), h')
     \<and> bytes_at (h_world h') passwd_node = Some ''root''"
proof -
  let ?ai = "dropping_inputs sample_managed no_sessions True"
  let ?e = "AePhase ''delete'' (PvCommandFailed [''userdel'', ''-r'', ''oper''] ''exit status: 8'' ''busy'') Restored"
  have "fst (sample_run ?ai) = Err ?e" by code_simp
  then obtain h' where r: "sample_run ?ai = (Err ?e, h')" by (metis prod.collapse)
  have t: "tracked ?ai pr sample_backup =
      backup_add_file (True, [''etc'', ''sudoers.d'', ''census-oper'']) sample_backup"
    if "pr_plan pr = \<lparr>pl_actions = [ActDelete ''oper''], pl_group_actions = []\<rparr>" "pr_rgroup_actions pr = []" for pr
    using that by (simp add: tracked_def touched_sudoers_paths_def touched_group_sudoers_paths_def dropping_inputs_def
        sample_host_def sudoers_filename_def node_join_def extend_unique_def push_unique_def)
  have "\<forall>a\<in>set (bk_targets (backup_add_file (True, [''etc'', ''sudoers.d'', ''census-oper'']) sample_backup)).
      w_files (h_world sample_host) a \<noteq> None \<longrightarrow> bytes_at (h_world h') a = bytes_at (h_world sample_host) a"
    using rollback_restores [OF r [unfolded sample_run_def] _ sample_prepared,
        of _ _ _ "(True, [''etc'', ''sudoers.d''])" "(True, [''var'', ''fa''])"] sample_can_roll_back
    by (simp add: t wired_def sample_host_def acl_production_def acl_new_def)
  from bspec [OF this, of passwd_node] have "bytes_at (h_world h') passwd_node = Some ''root''"
    by (simp add: backup_add_file_def push_unique_def sample_backup_def backup_new_def sample_host_def sample_world_def)
  with r show ?thesis by blast
qed

end
