(* ===== verification/Inspect.thy ===== *)
theory Inspect
  imports Provision
begin

text \<open>
  The live inspector (\<^verbatim>\<open>src/inspect.rs\<close>): what \<^verbatim>\<open>getent\<close>, \<^verbatim>\<open>getfacl\<close> and the file system show of
  accounts, groups, password locks, markers and ACL entries.  Running the two programs and
  looking at paths are parameters.  Over an account database that \<^verbatim>\<open>getent\<close> prints, the inspector
  returns exactly what the database holds.
\<close>

subsection \<open>The interface\<close>

record full_inspector = inspector +
  si_primary_gid :: "string \<Rightarrow> u32 option"
  si_account_name_by_uid :: "u32 \<Rightarrow> string option"
  si_password_locked :: "string \<Rightarrow> bool option"
  si_shadow_locks :: "(string, bool) btree option"
  si_has_authorized_keys :: "string \<Rightarrow> path \<Rightarrow> bool"
  si_census_marked_accounts :: "string list"
  si_group_sudoers_fragment_present :: "string \<Rightarrow> bool option"
  si_file_access_present :: "path \<Rightarrow> string \<Rightarrow> bool option"
  si_group_file_access_present :: "path \<Rightarrow> string \<Rightarrow> bool option"
  si_login_capable_non_managed :: "string list \<Rightarrow> string list"

text \<open>What the inspector reads of a host.\<close>

record live_host =
  lh_run :: "string \<Rightarrow> string list \<Rightarrow> io_error + proc_output"
  lh_exists :: "path \<Rightarrow> bool"
  lh_stat_ok :: "path \<Rightarrow> bool"

definition utf8_stdout :: "io_error + proc_output \<Rightarrow> string option" where
  "utf8_stdout r =
     (case r of
        Err _ \<Rightarrow> None
      | Ok out \<Rightarrow> if po_success out \<and> utf8_valid (po_stdout out) then Some (po_stdout out) else None)"

definition getent :: "live_host \<Rightarrow> string \<Rightarrow> string option \<Rightarrow> string option" where
  "getent h db key =
     utf8_stdout (lh_run h ''getent'' (db # (case key of Some k \<Rightarrow> [k] | None \<Rightarrow> [])))"

abbreviation colon_fields :: "string \<Rightarrow> string list" where
  "colon_fields line \<equiv> split_on (CHR '':'') line"

definition parse_passwd_line :: "string \<Rightarrow> (string \<times> u32 \<times> string \<times> string) option" where
  "parse_passwd_line line =
     (case colon_fields line of
        nm # _ # uid # _ # _ # home # shell # _ \<Rightarrow> map_option (\<lambda>u. (nm, u, home, shell)) (parse_u32 uid)
      | _ \<Rightarrow> None)"

definition parse_group_line :: "string \<Rightarrow> (string \<times> u32) option" where
  "parse_group_line line =
     (case colon_fields line of
        nm # _ # gid # _ \<Rightarrow> map_option (Pair nm) (parse_u32 gid)
      | _ \<Rightarrow> None)"

definition member_names :: "string \<Rightarrow> string list" where
  "member_names member_field = filter (\<lambda>m. m \<noteq> []) (map trim (split_on (CHR '','') member_field))"

definition groups_for_line :: "string \<Rightarrow> string \<Rightarrow> string list" where
  "groups_for_line nm line =
     (case colon_fields line of
        grp # _ # _ # member_field # _ \<Rightarrow> if nm \<in> set (member_names member_field) then [grp] else []
      | _ \<Rightarrow> [])"

definition groups_for :: "live_host \<Rightarrow> string \<Rightarrow> string list" where
  "groups_for h nm =
     (case getent h ''group'' None of
        None \<Rightarrow> []
      | Some text \<Rightarrow> concat (map (groups_for_line nm) (str_lines text)))"

definition is_login_shell :: "string \<Rightarrow> bool" where
  "is_login_shell shell \<longleftrightarrow>
     shell \<noteq> [] \<and> (let base = last (split_on (CHR ''/'') shell) in base \<noteq> ''nologin'' \<and> base \<noteq> ''false'')"

definition is_rescue_eligible :: "bool \<Rightarrow> bool option \<Rightarrow> bool \<Rightarrow> bool" where
  "is_rescue_eligible login_shell password_locked has_keys \<longleftrightarrow>
     login_shell \<and> (password_locked = Some False \<or> has_keys)"

definition acl_has_entry :: "string \<Rightarrow> string \<Rightarrow> string \<Rightarrow> bool" where
  "acl_has_entry kind dump nm \<longleftrightarrow>
     list_ex (\<lambda>line. starts_with (trim line) (kind @ '':'' @ nm @ '':'')
                  \<or> starts_with (trim line) (''default:'' @ kind @ '':'' @ nm @ '':'')) (str_lines dump)"

definition acl_has_user_entry :: "string \<Rightarrow> string \<Rightarrow> bool" where
  "acl_has_user_entry dump account = acl_has_entry ''user'' dump account"

definition acl_has_group_entry :: "string \<Rightarrow> string \<Rightarrow> bool" where
  "acl_has_group_entry dump grp = acl_has_entry ''group'' dump grp"

definition getfacl_dump :: "live_host \<Rightarrow> path \<Rightarrow> string option" where
  "getfacl_dump h p = utf8_stdout (lh_run h ''getfacl'' [''--omit-header'', ''--absolute-names'', p])"

subsection \<open>The live inspector\<close>

definition live_account :: "live_host \<Rightarrow> string \<Rightarrow> account_facts option" where
  "live_account h nm =
     Option.bind (Option.bind (getent h ''passwd'' (Some nm)) first_line) (\<lambda>line.
     case parse_passwd_line line of
       None \<Rightarrow> None
     | Some (_, uid, home, shell) \<Rightarrow>
         Some \<lparr>af_uid = uid, af_shell = shell, af_home = home, af_groups = groups_for h nm\<rparr>)"

definition live_group :: "live_host \<Rightarrow> string \<Rightarrow> group_facts option" where
  "live_group h nm =
     Option.bind (Option.bind (getent h ''group'' (Some nm)) first_line) (\<lambda>line.
     map_option (\<lambda>(_, gid). \<lparr>gf_gid = gid\<rparr>) (parse_group_line line))"

definition live_group_name_by_gid :: "live_host \<Rightarrow> u32 \<Rightarrow> string option" where
  "live_group_name_by_gid h gid =
     Option.bind (Option.bind (getent h ''group'' (Some (show_u32 gid))) first_line) (\<lambda>line.
     map_option fst (parse_group_line line))"

definition live_primary_gid :: "live_host \<Rightarrow> string \<Rightarrow> u32 option" where
  "live_primary_gid h nm =
     Option.bind (Option.bind (getent h ''passwd'' (Some nm)) first_line) (\<lambda>line.
     if length (colon_fields line) \<le> 3 then None else parse_u32 (colon_fields line ! 3))"

definition live_account_name_by_uid :: "live_host \<Rightarrow> u32 \<Rightarrow> string option" where
  "live_account_name_by_uid h uid =
     map_option (\<lambda>line. hd (colon_fields line)) (Option.bind (getent h ''passwd'' (Some (show_u32 uid))) first_line)"

definition live_group_members :: "live_host \<Rightarrow> string \<Rightarrow> string list" where
  "live_group_members h nm =
     (case Option.bind (getent h ''group'' (Some nm)) first_line of
        None \<Rightarrow> []
      | Some line \<Rightarrow> (case colon_fields line of _ # _ # _ # member_field # _ \<Rightarrow> member_names member_field | _ \<Rightarrow> []))"

definition hash_locked :: "string \<Rightarrow> bool" where
  "hash_locked hash \<longleftrightarrow> starts_with hash ''!'' \<or> starts_with hash ''*''"

definition live_password_locked :: "live_host \<Rightarrow> string \<Rightarrow> bool option" where
  "live_password_locked h nm =
     Option.bind (Option.bind (getent h ''shadow'' (Some nm)) first_line) (\<lambda>line.
     if length (colon_fields line) \<le> 1 then None else Some (hash_locked (colon_fields line ! 1)))"

definition shadow_line :: "string \<Rightarrow> (string, bool) btree \<Rightarrow> (string, bool) btree" where
  "shadow_line line m =
     (case colon_fields line of
        nm # hash # _ \<Rightarrow> if nm = [] then m else bt_insert nm (hash_locked hash) m
      | _ \<Rightarrow> m)"

definition live_shadow_locks :: "live_host \<Rightarrow> (string, bool) btree option" where
  "live_shadow_locks h = map_option (\<lambda>text. fold shadow_line (str_lines text) []) (getent h ''shadow'' None)"

definition live_has_authorized_keys :: "live_host \<Rightarrow> string \<Rightarrow> path \<Rightarrow> bool" where
  "live_has_authorized_keys h nm home = lh_exists h (path_join (path_join home ''.ssh'') ''authorized_keys'')"

definition SUDOERS_DIR :: path where "SUDOERS_DIR = ''/etc/sudoers.d''"

definition live_group_sudoers_fragment_present :: "live_host \<Rightarrow> string \<Rightarrow> bool option" where
  "live_group_sudoers_fragment_present h grp =
     (if \<not> lh_stat_ok h SUDOERS_DIR then None
      else Some (lh_exists h (path_join SUDOERS_DIR (sudoers_group_filename grp))))"

text \<open>\<open>str::split\<close> at any of a set of characters.\<close>

definition split_any :: "string \<Rightarrow> string \<Rightarrow> string list" where
  "split_any seps s =
     (case seps of [] \<Rightarrow> [s] | c # _ \<Rightarrow> split_on c (map (\<lambda>x. if x \<in> set seps then c else x) s))"

definition marked_line :: "string \<Rightarrow> string list" where
  "marked_line line =
     (case colon_fields line of
        nm # _ # _ # _ # gecos # _ # _ # _ \<Rightarrow>
          if list_ex (\<lambda>t. starts_with t GECOS_MARKER_PREFIX) (split_any [CHR '' '', CHR 0x09, CHR '',''] gecos) then [nm] else []
      | _ \<Rightarrow> [])"

definition live_census_marked_accounts :: "live_host \<Rightarrow> string list" where
  "live_census_marked_accounts h =
     (case getent h ''passwd'' None of None \<Rightarrow> [] | Some text \<Rightarrow> concat (map marked_line (str_lines text)))"

definition live_file_access_present :: "live_host \<Rightarrow> path \<Rightarrow> string \<Rightarrow> bool option" where
  "live_file_access_present h p account = map_option (\<lambda>d. acl_has_user_entry d account) (getfacl_dump h p)"

definition live_group_file_access_present :: "live_host \<Rightarrow> path \<Rightarrow> string \<Rightarrow> bool option" where
  "live_group_file_access_present h p grp = map_option (\<lambda>d. acl_has_group_entry d grp) (getfacl_dump h p)"

definition rescue_line :: "live_host \<Rightarrow> (string, bool) btree option \<Rightarrow> string list \<Rightarrow> string \<Rightarrow> string list" where
  "rescue_line h shadow managed line =
     (case parse_passwd_line line of
        None \<Rightarrow> []
      | Some (nm, _, home, shell) \<Rightarrow>
          if nm \<in> set managed then []
          else if is_rescue_eligible (is_login_shell shell) (Option.bind shadow (\<lambda>m. bt_get m nm)) (live_has_authorized_keys h nm home)
          then [nm] else [])"

definition live_login_capable_non_managed :: "live_host \<Rightarrow> string list \<Rightarrow> string list" where
  "live_login_capable_non_managed h managed =
     (case getent h ''passwd'' None of
        None \<Rightarrow> []
      | Some text \<Rightarrow> concat (map (rescue_line h (live_shadow_locks h) managed) (str_lines text)))"

definition live_inspector :: "live_host \<Rightarrow> full_inspector" where
  "live_inspector h =
     \<lparr>si_account = live_account h, si_group = live_group h, si_group_name_by_gid = live_group_name_by_gid h,
      si_group_members = live_group_members h, si_primary_gid = live_primary_gid h,
      si_account_name_by_uid = live_account_name_by_uid h, si_password_locked = live_password_locked h,
      si_shadow_locks = live_shadow_locks h, si_has_authorized_keys = live_has_authorized_keys h,
      si_census_marked_accounts = live_census_marked_accounts h,
      si_group_sudoers_fragment_present = live_group_sudoers_fragment_present h,
      si_file_access_present = live_file_access_present h, si_group_file_access_present = live_group_file_access_present h,
      si_login_capable_non_managed = live_login_capable_non_managed h\<rparr>"


subsection \<open>An account database and how \<open>getent\<close> prints it\<close>

record passwd_entry =
  pe_name :: string
  pe_uid :: u32
  pe_gid :: u32
  pe_gecos :: string
  pe_home :: string
  pe_shell :: string

record group_entry =
  ge_name :: string
  ge_gid :: u32
  ge_members :: "string list"

text \<open>What follows the hash of a shadow line is one opaque string.\<close>

record shadow_entry =
  sh_name :: string
  sh_hash :: string
  sh_rest :: string

record account_db =
  db_passwd :: "passwd_entry list"
  db_group :: "group_entry list"
  db_shadow :: "shadow_entry list"

definition passwd_line :: "passwd_entry \<Rightarrow> string" where
  "passwd_line e =
     join_with '':'' [pe_name e, ''x'', show_u32 (pe_uid e), show_u32 (pe_gid e), pe_gecos e, pe_home e, pe_shell e]"

definition group_line :: "group_entry \<Rightarrow> string" where
  "group_line e = join_with '':'' [ge_name e, ''x'', show_u32 (ge_gid e), join_with '','' (ge_members e)]"

definition shadow_row :: "shadow_entry \<Rightarrow> string" where
  "shadow_row e = sh_name e @ '':'' @ sh_hash e @ '':'' @ sh_rest e"

definition text_of :: "string list \<Rightarrow> string" where
  "text_of ls = concat (map (\<lambda>l. l @ [CHR 0x0A]) ls)"

definition reply :: "string list \<Rightarrow> proc_output" where
  "reply ls = \<lparr>po_success = (ls \<noteq> []), po_status = ''exit status'', po_stdout = text_of ls, po_stderr = []\<rparr>"

definition numeric :: "string \<Rightarrow> bool" where
  "numeric k \<longleftrightarrow> list_all is_ascii_digit k"

definition lookup_rows :: "('e \<Rightarrow> string) \<Rightarrow> ('e \<Rightarrow> u32) \<Rightarrow> string \<Rightarrow> 'e list \<Rightarrow> 'e list" where
  "lookup_rows nm ident k es =
     (case find (\<lambda>e. if numeric k then parse_u32 k = Some (ident e) else nm e = k) es of None \<Rightarrow> [] | Some e \<Rightarrow> [e])"

text \<open>The program: without a key it lists a database, with one it looks it up by number or by name.\<close>

definition getent_run :: "account_db \<Rightarrow> string list \<Rightarrow> proc_output" where
  "getent_run db args =
     (case args of
        [d] \<Rightarrow>
          if d = ''passwd'' then (reply (map passwd_line (db_passwd db)))\<lparr>po_success := True\<rparr>
          else if d = ''group'' then (reply (map group_line (db_group db)))\<lparr>po_success := True\<rparr>
          else if d = ''shadow'' then (reply (map shadow_row (db_shadow db)))\<lparr>po_success := True\<rparr>
          else reply []
      | [d, k] \<Rightarrow>
          if d = ''passwd'' then reply (map passwd_line (lookup_rows pe_name pe_uid k (db_passwd db)))
          else if d = ''group'' then reply (map group_line (lookup_rows ge_name ge_gid k (db_group db)))
          else if d = ''shadow''
          then reply (case find (\<lambda>e. sh_name e = k) (db_shadow db) of None \<Rightarrow> [] | Some e \<Rightarrow> [shadow_row e])
          else reply []
      | _ \<Rightarrow> reply [])"

definition getent_serves :: "live_host \<Rightarrow> account_db \<Rightarrow> bool" where
  "getent_serves h db \<longleftrightarrow> (\<forall>args. lh_run h ''getent'' args = Ok (getent_run db args))"

definition plain_field :: "string \<Rightarrow> bool" where
  "plain_field s \<longleftrightarrow> CHR '':'' \<notin> set s \<and> CHR 0x0A \<notin> set s \<and> CHR 0x0D \<notin> set s \<and> utf8_valid s"

definition plain_member :: "string \<Rightarrow> bool" where
  "plain_member m \<longleftrightarrow> plain_field m \<and> CHR '','' \<notin> set m \<and> m \<noteq> [] \<and> trim m = m"

definition plain_passwd :: "passwd_entry \<Rightarrow> bool" where
  "plain_passwd e \<longleftrightarrow> list_all plain_field [pe_name e, pe_gecos e, pe_home e, pe_shell e]"

definition plain_group :: "group_entry \<Rightarrow> bool" where
  "plain_group e \<longleftrightarrow> plain_field (ge_name e) \<and> list_all plain_member (ge_members e)"

definition plain_shadow :: "shadow_entry \<Rightarrow> bool" where
  "plain_shadow e \<longleftrightarrow> plain_field (sh_name e) \<and> sh_name e \<noteq> [] \<and> plain_field (sh_hash e)
     \<and> CHR 0x0A \<notin> set (sh_rest e) \<and> CHR 0x0D \<notin> set (sh_rest e) \<and> utf8_valid (sh_rest e)"

definition wf_db :: "account_db \<Rightarrow> bool" where
  "wf_db db \<longleftrightarrow>
     list_all plain_passwd (db_passwd db) \<and> list_all plain_group (db_group db) \<and> list_all plain_shadow (db_shadow db)"

subsection \<open>Lines read back\<close>

lemma utf8_valid_append: "utf8_valid s \<Longrightarrow> utf8_valid t \<Longrightarrow> utf8_valid (s @ t)"
  by (induction s rule: utf8_valid.induct) (auto split: if_splits list.splits)

definition line_ok :: "string \<Rightarrow> bool" where
  "line_ok l \<longleftrightarrow> CHR 0x0A \<notin> set l \<and> CHR 0x0D \<notin> set l \<and> utf8_valid l"

lemma line_stripped:
  "CHR 0x0D \<notin> set l \<Longrightarrow>
   (if ends_with (l @ [CHR 0x0A]) [CHR 0x0D, CHR 0x0A] then x
    else if ends_with (l @ [CHR 0x0A]) [CHR 0x0A] then butlast (l @ [CHR 0x0A]) else l @ [CHR 0x0A]) = l"
  by (auto simp: ends_with_iff append_eq_append_conv2 append_eq_Cons_conv)

lemma str_lines_text: "list_all line_ok ls \<Longrightarrow> str_lines (text_of ls) = ls"
proof (induction ls)
  case (Cons l ls)
  then have "split_inclusive (text_of (l # ls)) = (l @ [CHR 0x0A]) # split_inclusive (text_of ls)"
    using split_inclusive_line [of l "text_of ls"] by (simp add: text_of_def line_ok_def)
  then show ?case using Cons line_stripped [of l] by (simp add: str_lines_def line_ok_def)
qed (simp add: text_of_def str_lines_def)

lemma first_line_text: "line_ok l \<Longrightarrow> first_line (text_of [l]) = Some l"
  using split_inclusive_line [of l "[]"] line_stripped [of l]
  by (simp add: first_line_def text_of_def line_ok_def)

lemma text_utf8: "list_all line_ok ls \<Longrightarrow> utf8_valid (text_of ls)"
  by (induction ls) (auto simp: text_of_def line_ok_def intro!: utf8_valid_append)


lemma show_u32_chars:
  assumes "c \<in> set (show_u32 v)"
  shows "is_ascii_digit c"
  using assms dec_digits by (simp add: show_u32_def)

lemma show_u32_plain [simp]: "plain_field (show_u32 v)"
proof -
  have ascii: "list_all is_ascii_digit s \<Longrightarrow> utf8_valid s" for s
    by (induction s) (auto simp: is_ascii_digit_def)
  have "list_all is_ascii_digit (show_u32 v)" using show_u32_chars by (simp add: list_all_iff)
  moreover from this have "c \<notin> set (show_u32 v)" if "\<not> is_ascii_digit c" for c using that by (auto simp: list_all_iff)
  ultimately show ?thesis using ascii by (simp add: plain_field_def is_ascii_digit_def)
qed

lemma parse_show_u32 [simp]: "parse_u32 (show_u32 v) = Some v"
  by (simp add: show_u32_def parse_u32_dec)

lemma fields_join: "fs \<noteq> [] \<Longrightarrow> list_all plain_field fs \<Longrightarrow> colon_fields (join_with '':'' fs) = fs"
  by (rule split_join) (auto simp: list_all_iff plain_field_def)

lemma join_line_ok: "list_all plain_field fs \<Longrightarrow> line_ok (join_with '':'' fs)"
proof (induction fs)
  case (Cons f fs)
  then show ?case by (cases fs) (auto simp: plain_field_def line_ok_def intro!: utf8_valid_append)
qed (simp add: line_ok_def)

lemma join_members_plain: "list_all plain_member ms \<Longrightarrow> plain_field (join_with '','' ms)"
proof (induction ms)
  case (Cons m ms)
  then show ?case by (cases ms) (auto simp: plain_field_def plain_member_def intro!: utf8_valid_append)
qed (simp add: plain_field_def)

lemma member_names_join:
  assumes "list_all plain_member ms"
  shows "member_names (join_with '','' ms) = ms"
proof (cases "ms = []")
  case True
  have "trim [] = []" by code_simp
  with True show ?thesis by (simp add: member_names_def)
next
  case False
  with assms have "split_on (CHR '','') (join_with '','' ms) = ms"
    by (intro split_join) (auto simp: list_all_iff plain_member_def)
  moreover have "map trim ms = ms" "filter (\<lambda>m. m \<noteq> []) ms = ms"
    using assms by (auto simp: list_all_iff plain_member_def intro: map_idI)
  ultimately show ?thesis by (simp add: member_names_def)
qed

lemma plain_x [simp]: "plain_field ''x''"
  by (simp add: plain_field_def)

lemma passwd_line_back:
  assumes "plain_passwd e"
  shows "colon_fields (passwd_line e) =
      [pe_name e, ''x'', show_u32 (pe_uid e), show_u32 (pe_gid e), pe_gecos e, pe_home e, pe_shell e]"
    and "line_ok (passwd_line e)"
    and "parse_passwd_line (passwd_line e) = Some (pe_name e, pe_uid e, pe_home e, pe_shell e)"
proof -
  show f: "colon_fields (passwd_line e) =
      [pe_name e, ''x'', show_u32 (pe_uid e), show_u32 (pe_gid e), pe_gecos e, pe_home e, pe_shell e]"
    unfolding passwd_line_def by (rule fields_join) (use assms in \<open>simp_all add: plain_passwd_def\<close>)
  show "line_ok (passwd_line e)"
    unfolding passwd_line_def by (rule join_line_ok) (use assms in \<open>simp add: plain_passwd_def\<close>)
  show "parse_passwd_line (passwd_line e) = Some (pe_name e, pe_uid e, pe_home e, pe_shell e)"
    by (simp add: parse_passwd_line_def f)
qed

lemma group_line_back:
  assumes "plain_group e"
  shows "colon_fields (group_line e) = [ge_name e, ''x'', show_u32 (ge_gid e), join_with '','' (ge_members e)]"
    and "line_ok (group_line e)"
    and "parse_group_line (group_line e) = Some (ge_name e, ge_gid e)"
proof -
  have p: "list_all plain_field [ge_name e, ''x'', show_u32 (ge_gid e), join_with '','' (ge_members e)]"
    using assms join_members_plain by (simp add: plain_group_def)
  show f: "colon_fields (group_line e) = [ge_name e, ''x'', show_u32 (ge_gid e), join_with '','' (ge_members e)]"
    unfolding group_line_def by (rule fields_join [OF _ p]) simp
  show "line_ok (group_line e)" unfolding group_line_def by (rule join_line_ok [OF p])
  show "parse_group_line (group_line e) = Some (ge_name e, ge_gid e)" by (simp add: parse_group_line_def f)
qed

lemma shadow_row_back:
  assumes "plain_shadow e"
  shows "colon_fields (shadow_row e) = sh_name e # sh_hash e # colon_fields (sh_rest e)"
    and "line_ok (shadow_row e)"
  using assms
  by (auto simp: shadow_row_def plain_shadow_def plain_field_def line_ok_def split_on_append_sep intro!: utf8_valid_append)


subsection \<open>The inspector over a database\<close>

definition db_account :: "account_db \<Rightarrow> string \<Rightarrow> account_facts option" where
  "db_account db nm =
     map_option (\<lambda>e. \<lparr>af_uid = pe_uid e, af_shell = pe_shell e, af_home = pe_home e,
         af_groups = map ge_name (filter (\<lambda>g. nm \<in> set (ge_members g)) (db_group db))\<rparr>)
       (find (\<lambda>e. pe_name e = nm) (db_passwd db))"

definition db_group_of :: "account_db \<Rightarrow> string \<Rightarrow> group_entry option" where
  "db_group_of db nm = find (\<lambda>e. ge_name e = nm) (db_group db)"

definition db_locked :: "account_db \<Rightarrow> string \<Rightarrow> bool option" where
  "db_locked db nm = map_of (map (\<lambda>e. (sh_name e, hash_locked (sh_hash e))) (rev (db_shadow db))) nm"

definition db_marked :: "passwd_entry \<Rightarrow> bool" where
  "db_marked e \<longleftrightarrow>
     list_ex (\<lambda>t. starts_with t GECOS_MARKER_PREFIX) (split_any [CHR '' '', CHR 0x09, CHR '',''] (pe_gecos e))"

definition db_rescue :: "live_host \<Rightarrow> account_db \<Rightarrow> passwd_entry \<Rightarrow> bool" where
  "db_rescue h db e \<longleftrightarrow> is_login_shell (pe_shell e)
     \<and> (db_locked db (pe_name e) = Some False \<or> live_has_authorized_keys h (pe_name e) (pe_home e))"

lemma getent_listed:
  assumes "getent_serves h db" and "wf_db db"
  shows "getent h ''passwd'' None = Some (text_of (map passwd_line (db_passwd db)))"
    and "getent h ''group'' None = Some (text_of (map group_line (db_group db)))"
    and "getent h ''shadow'' None = Some (text_of (map shadow_row (db_shadow db)))"
proof -
  have "list_all line_ok (map passwd_line (db_passwd db))" "list_all line_ok (map group_line (db_group db))"
    "list_all line_ok (map shadow_row (db_shadow db))"
    using assms(2) by (auto simp: wf_db_def list_all_iff passwd_line_back group_line_back shadow_row_back)
  then show "getent h ''passwd'' None = Some (text_of (map passwd_line (db_passwd db)))"
    and "getent h ''group'' None = Some (text_of (map group_line (db_group db)))"
    and "getent h ''shadow'' None = Some (text_of (map shadow_row (db_shadow db)))"
    using assms(1)
    by (simp_all add: getent_def utf8_stdout_def getent_serves_def getent_run_def reply_def text_utf8)
qed

lemma reply_line:
  assumes "lh_run h ''getent'' [d, k] = Ok (reply (map f es))" and "list_all line_ok (map f es)" and "length es \<le> 1"
  shows "Option.bind (getent h d (Some k)) first_line = (case es of [] \<Rightarrow> None | e # _ \<Rightarrow> Some (f e))"
proof (cases es)
  case Nil
  then show ?thesis using assms(1) by (simp add: getent_def utf8_stdout_def reply_def)
next
  case (Cons e es')
  then have "es = [e]" using assms(3) by simp
  then show ?thesis
    using assms(1,2) text_utf8 [of "[f e]"] first_line_text [of "f e"]
    by (simp add: getent_def utf8_stdout_def reply_def)
qed

lemma lookup_rows_length: "length (lookup_rows nm ident k es) \<le> 1"
  by (simp add: lookup_rows_def split: option.split)

lemma lookup_rows_mem: "e \<in> set (lookup_rows nm ident k es) \<Longrightarrow> e \<in> set es"
  by (cases "find (\<lambda>e. if numeric k then parse_u32 k = Some (ident e) else nm e = k) es")
    (auto simp: lookup_rows_def dest: find_SomeD)

lemma passwd_keyed:
  assumes "getent_serves h db" and "wf_db db"
  shows "Option.bind (getent h ''passwd'' (Some k)) first_line =
    (case lookup_rows pe_name pe_uid k (db_passwd db) of [] \<Rightarrow> None | e # _ \<Rightarrow> Some (passwd_line e))"
proof (rule reply_line)
  show "lh_run h ''getent'' [''passwd'', k] = Ok (reply (map passwd_line (lookup_rows pe_name pe_uid k (db_passwd db))))"
    using assms(1) by (simp add: getent_serves_def getent_run_def)
  show "list_all line_ok (map passwd_line (lookup_rows pe_name pe_uid k (db_passwd db)))"
    using assms(2) by (auto simp: wf_db_def list_all_iff passwd_line_back dest!: lookup_rows_mem)
qed (rule lookup_rows_length)

lemma group_keyed:
  assumes "getent_serves h db" and "wf_db db"
  shows "Option.bind (getent h ''group'' (Some k)) first_line =
    (case lookup_rows ge_name ge_gid k (db_group db) of [] \<Rightarrow> None | e # _ \<Rightarrow> Some (group_line e))"
proof (rule reply_line)
  show "lh_run h ''getent'' [''group'', k] = Ok (reply (map group_line (lookup_rows ge_name ge_gid k (db_group db))))"
    using assms(1) by (simp add: getent_serves_def getent_run_def)
  show "list_all line_ok (map group_line (lookup_rows ge_name ge_gid k (db_group db)))"
    using assms(2) by (auto simp: wf_db_def list_all_iff group_line_back dest!: lookup_rows_mem)
qed (rule lookup_rows_length)

lemma lookup_by_name: "\<not> numeric k \<Longrightarrow> lookup_rows nm ident k es = (case find (\<lambda>e. nm e = k) es of None \<Rightarrow> [] | Some e \<Rightarrow> [e])"
  by (simp add: lookup_rows_def)

lemma lookup_by_id:
  "lookup_rows nm ident (show_u32 v) es = (case find (\<lambda>e. ident e = v) es of None \<Rightarrow> [] | Some e \<Rightarrow> [e])"
proof -
  have "numeric (show_u32 v)" using show_u32_chars by (simp add: numeric_def list_all_iff)
  then show ?thesis by (simp add: lookup_rows_def eq_commute)
qed

lemma groups_for_db:
  assumes "getent_serves h db" and "wf_db db"
  shows "groups_for h nm = map ge_name (filter (\<lambda>g. nm \<in> set (ge_members g)) (db_group db))"
proof -
  have ok: "list_all line_ok (map group_line (db_group db))"
    using assms(2) by (auto simp: wf_db_def list_all_iff group_line_back)
  have "concat (map (\<lambda>g. groups_for_line nm (group_line g)) (db_group db)) =
      map ge_name (filter (\<lambda>g. nm \<in> set (ge_members g)) (db_group db))"
    by (rule concat_map_filter)
      (use assms(2) in \<open>auto simp: wf_db_def list_all_iff groups_for_line_def group_line_back member_names_join plain_group_def\<close>)
  then show ?thesis
    by (simp add: groups_for_def getent_listed(2) [OF assms] str_lines_text [OF ok] comp_def)
qed


lemma live_account_db:
  assumes "getent_serves h db" and "wf_db db" and "\<not> numeric nm"
  shows "live_account h nm = db_account db nm"
proof (cases "find (\<lambda>e. pe_name e = nm) (db_passwd db)")
  case (Some e)
  then have "plain_passwd e" using assms(2) by (auto simp: wf_db_def list_all_iff dest: find_SomeD)
  then show ?thesis
    using Some
    by (simp add: live_account_def db_account_def passwd_keyed [OF assms(1,2)] lookup_by_name [OF assms(3)]
        passwd_line_back groups_for_db [OF assms(1,2)])
qed (simp add: live_account_def db_account_def passwd_keyed [OF assms(1,2)] lookup_by_name [OF assms(3)])

lemma live_group_db:
  assumes "getent_serves h db" and "wf_db db" and "\<not> numeric nm"
  shows "live_group h nm = map_option (\<lambda>e. \<lparr>gf_gid = ge_gid e\<rparr>) (db_group_of db nm)"
    and "live_group_members h nm = (case db_group_of db nm of None \<Rightarrow> [] | Some e \<Rightarrow> ge_members e)"
proof -
  have "plain_group e" if "find (\<lambda>e. ge_name e = nm) (db_group db) = Some e" for e
    using that assms(2) by (auto simp: wf_db_def list_all_iff dest: find_SomeD)
  then show "live_group h nm = map_option (\<lambda>e. \<lparr>gf_gid = ge_gid e\<rparr>) (db_group_of db nm)"
    and "live_group_members h nm = (case db_group_of db nm of None \<Rightarrow> [] | Some e \<Rightarrow> ge_members e)"
    by (auto simp: live_group_def live_group_members_def db_group_of_def group_keyed [OF assms(1,2)]
        lookup_by_name [OF assms(3)] group_line_back member_names_join plain_group_def split: option.splits)
qed

lemma live_group_name_db:
  assumes "getent_serves h db" and "wf_db db"
  shows "live_group_name_by_gid h gid = map_option ge_name (find (\<lambda>e. ge_gid e = gid) (db_group db))"
proof (cases "find (\<lambda>e. ge_gid e = gid) (db_group db)")
  case (Some e)
  then have "plain_group e" using assms(2) by (auto simp: wf_db_def list_all_iff dest: find_SomeD)
  then show ?thesis
    using Some by (simp add: live_group_name_by_gid_def group_keyed [OF assms] lookup_by_id group_line_back)
qed (simp add: live_group_name_by_gid_def group_keyed [OF assms] lookup_by_id)

lemma shadow_fold:
  assumes "list_all plain_shadow es" and "bt_inv m"
  shows "bt_get (fold shadow_line (map shadow_row es) m) nm =
      (case map_of (map (\<lambda>e. (sh_name e, hash_locked (sh_hash e))) (rev es)) nm of Some b \<Rightarrow> Some b | None \<Rightarrow> bt_get m nm)"
  using assms
proof (induction es arbitrary: m)
  case (Cons e es)
  then have s: "shadow_line (shadow_row e) m = bt_insert (sh_name e) (hash_locked (sh_hash e)) m"
    by (simp add: shadow_line_def shadow_row_back) (simp add: plain_shadow_def)
  have "bt_inv (bt_insert (sh_name e) (hash_locked (sh_hash e)) m)" using Cons.prems(2) by (rule bt_insert_inv)
  with Cons.IH Cons.prems show ?case
    by (auto simp: s bt_insert_get map_add_def split: option.splits)
qed simp

lemma live_shadow_db:
  assumes "getent_serves h db" and "wf_db db"
  shows "\<exists>m. live_shadow_locks h = Some m \<and> (\<forall>nm. bt_get m nm = db_locked db nm)"
proof -
  have "list_all line_ok (map shadow_row (db_shadow db))"
    using assms(2) by (auto simp: wf_db_def list_all_iff shadow_row_back)
  then have "live_shadow_locks h = Some (fold shadow_line (map shadow_row (db_shadow db)) [])"
    by (simp add: live_shadow_locks_def getent_listed(3) [OF assms] str_lines_text)
  moreover have "bt_get (fold shadow_line (map shadow_row (db_shadow db)) []) nm = db_locked db nm" for nm
    using shadow_fold [of "db_shadow db" "[]" nm] assms(2)
    by (simp add: wf_db_def db_locked_def bt_get_def bt_inv_def split: option.split)
  ultimately show ?thesis by blast
qed

lemma live_marked_db:
  assumes "getent_serves h db" and "wf_db db"
  shows "live_census_marked_accounts h = map pe_name (filter db_marked (db_passwd db))"
proof -
  have ok: "list_all line_ok (map passwd_line (db_passwd db))"
    using assms(2) by (auto simp: wf_db_def list_all_iff passwd_line_back)
  have "concat (map (\<lambda>e. marked_line (passwd_line e)) (db_passwd db)) = map pe_name (filter db_marked (db_passwd db))"
    by (rule concat_map_filter)
      (use assms(2) in \<open>auto simp: wf_db_def list_all_iff marked_line_def passwd_line_back db_marked_def\<close>)
  then show ?thesis
    by (simp add: live_census_marked_accounts_def getent_listed(1) [OF assms] str_lines_text [OF ok] comp_def)
qed

lemma live_rescue_db:
  assumes "getent_serves h db" and "wf_db db"
  shows "live_login_capable_non_managed h managed =
    map pe_name (filter (\<lambda>e. pe_name e \<notin> set managed \<and> db_rescue h db e) (db_passwd db))"
proof -
  obtain m where m: "live_shadow_locks h = Some m" "\<And>nm. bt_get m nm = db_locked db nm"
    using live_shadow_db [OF assms] by auto
  have ok: "list_all line_ok (map passwd_line (db_passwd db))"
    using assms(2) by (auto simp: wf_db_def list_all_iff passwd_line_back)
  have "concat (map (\<lambda>e. rescue_line h (Some m) managed (passwd_line e)) (db_passwd db)) =
      map pe_name (filter (\<lambda>e. pe_name e \<notin> set managed \<and> db_rescue h db e) (db_passwd db))"
    by (rule concat_map_filter)
      (use assms(2) in \<open>auto simp: wf_db_def list_all_iff rescue_line_def passwd_line_back m(2) db_rescue_def is_rescue_eligible_def\<close>)
  then show ?thesis
    by (simp add: live_login_capable_non_managed_def getent_listed(1) [OF assms] str_lines_text [OF ok] m(1) comp_def)
qed


subsection \<open>Properties\<close>

text \<open>
  C21: over an account database that \<^verbatim>\<open>getent\<close> prints, the live inspector refines the database
  itself: accounts with their supplementary groups, groups with their members, the owner of a
  GID, the lock state of every password, the accounts that carry a Census marker, and the
  accounts outside the managed set that can log in are exactly the database's.
\<close>

theorem inspector_reads_database:
  assumes "getent_serves h db" and "wf_db db" and "\<not> numeric nm"
  shows "si_account (live_inspector h) nm = db_account db nm
    \<and> si_group (live_inspector h) nm = map_option (\<lambda>e. \<lparr>gf_gid = ge_gid e\<rparr>) (db_group_of db nm)
    \<and> si_group_members (live_inspector h) nm = (case db_group_of db nm of None \<Rightarrow> [] | Some e \<Rightarrow> ge_members e)
    \<and> si_group_name_by_gid (live_inspector h) gid = map_option ge_name (find (\<lambda>e. ge_gid e = gid) (db_group db))
    \<and> (\<exists>m. si_shadow_locks (live_inspector h) = Some m \<and> bt_get m nm = db_locked db nm)
    \<and> si_census_marked_accounts (live_inspector h) = map pe_name (filter db_marked (db_passwd db))
    \<and> si_login_capable_non_managed (live_inspector h) managed =
        map pe_name (filter (\<lambda>e. pe_name e \<notin> set managed \<and> db_rescue h db e) (db_passwd db))"
  using live_account_db [OF assms] live_group_db [OF assms] live_group_name_db [OF assms(1,2)] live_shadow_db [OF assms(1,2)]
    live_marked_db [OF assms(1,2)] live_rescue_db [OF assms(1,2)]
  by (auto simp: live_inspector_def)

definition sample_db :: account_db where
  "sample_db =
     \<lparr>db_passwd = [\<lparr>pe_name = ''root'', pe_uid = 0, pe_gid = 0, pe_gecos = ''root'', pe_home = ''/root'', pe_shell = ''/bin/bash''\<rparr>,
        \<lparr>pe_name = ''oper'', pe_uid = 9001, pe_gid = 9001, pe_gecos = ''census-role-oper'', pe_home = ''/home/oper'',
         pe_shell = ''/usr/sbin/nologin''\<rparr>],
      db_group = [\<lparr>ge_name = ''adm'', ge_gid = 4, ge_members = [''syslog'', ''oper'']\<rparr>],
      db_shadow = [\<lparr>sh_name = ''root'', sh_hash = ''$6$x'', sh_rest = ''19000:0:99999:7:::''\<rparr>,
        \<lparr>sh_name = ''oper'', sh_hash = ''!'', sh_rest = ''19000:0:99999:7:::''\<rparr>]\<rparr>"

definition db_host :: "account_db \<Rightarrow> live_host" where
  "db_host db =
     \<lparr>lh_run = (\<lambda>p args. if p = ''getent'' then Ok (getent_run db args) else Err IoNotFound),
      lh_exists = (\<lambda>_. False), lh_stat_ok = (\<lambda>_. True)\<rparr>"

lemma db_host_serves: "getent_serves (db_host db) db"
  by (simp add: getent_serves_def db_host_def)

lemma sample_db_wf: "wf_db sample_db"
  by code_simp

theorem inspector_reads_database_witness:
  "si_account (live_inspector (db_host sample_db)) ''oper'' =
     Some \<lparr>af_uid = 9001, af_shell = ''/usr/sbin/nologin'', af_home = ''/home/oper'', af_groups = [''adm'']\<rparr>
   \<and> si_census_marked_accounts (live_inspector (db_host sample_db)) = [''oper'']
   \<and> si_login_capable_non_managed (live_inspector (db_host sample_db)) [''oper''] = [''root'']"
proof -
  have n: "\<not> numeric ''oper''" by code_simp
  note t = inspector_reads_database [OF db_host_serves sample_db_wf n, of 4 "[''oper'']"]
  have "db_account sample_db ''oper'' =
     Some \<lparr>af_uid = 9001, af_shell = ''/usr/sbin/nologin'', af_home = ''/home/oper'', af_groups = [''adm'']\<rparr>"
    and "map pe_name (filter db_marked (db_passwd sample_db)) = [''oper'']"
    and "map pe_name (filter (\<lambda>e. pe_name e \<notin> set [''oper''] \<and> db_rescue (db_host sample_db) sample_db e) (db_passwd sample_db))
       = [''root'']"
    by code_simp+
  with t show ?thesis by simp
qed

end
