(* ===== verification/Localization.thy ===== *)
theory Localization
  imports Catalog
begin

text \<open>
  \<^verbatim>\<open>l10n.rs\<close>: the texts of permissions and controls, read from \<^verbatim>\<open><root>/l10n/<locale>/*.toml\<close> of several
  roots and overlaid field by field, the choice of the language, and the lint of a translation.  The
  TOML parser is the argument \<open>toml\<close>; it gives the entries of a file.

  The lemmas show that every field of a text is the one stated last in the order of the roots and of
  the file names, whatever other files are unreadable.
\<close>

subsection \<open>Descriptions\<close>

record description =
  ds_title :: "string option"
  ds_summary :: "string option"
  ds_risk_note :: "string option"

definition default_description :: description where
  "default_description = \<lparr>ds_title = None, ds_summary = None, ds_risk_note = None\<rparr>"

definition desc_is_empty :: "description \<Rightarrow> bool" where
  "desc_is_empty d \<longleftrightarrow> ds_title d = None \<and> ds_summary d = None \<and> ds_risk_note d = None"

definition overlay :: "description \<Rightarrow> description \<Rightarrow> description" where
  "overlay self other =
     \<lparr>ds_title = (if ds_title other \<noteq> None then ds_title other else ds_title self),
      ds_summary = (if ds_summary other \<noteq> None then ds_summary other else ds_summary self),
      ds_risk_note = (if ds_risk_note other \<noteq> None then ds_risk_note other else ds_risk_note self)\<rparr>"

text \<open>The reason of a warning is the error of the read or the text of the parser's.\<close>

record l10n_warning =
  lw_path :: path
  lw_reason :: "io_error + string"

datatype l10n_error = InvalidLocale string

type_synonym loaded_locale = "(string, description) btree \<times> l10n_warning list"

record l10n_source =
  ls_load_locale :: "string \<Rightarrow> l10n_error + loaded_locale"
  ls_available_locales :: "string list"

definition is_safe_locale :: "string \<Rightarrow> bool" where
  "is_safe_locale nm \<longleftrightarrow>
     nm \<noteq> [] \<and> nm \<noteq> ''.'' \<and> nm \<noteq> ''..''
     \<and> list_all (\<lambda>c. is_ascii_lowercase c \<or> is_ascii_digit c \<or> c = CHR ''_'' \<or> c = CHR ''-'') nm"

text \<open>\<open>merged.entry(id).or_default().overlay(desc)\<close>\<close>

definition merge_desc :: "string \<times> description \<Rightarrow> (string, description) btree \<Rightarrow> (string, description) btree" where
  "merge_desc e m =
     (case e of (i, d) \<Rightarrow>
        bt_insert i (overlay (case bt_get m i of Some d0 \<Rightarrow> d0 | None \<Rightarrow> default_description) d) m)"

subsection \<open>The source on disk\<close>

type_synonym l10n_toml = "string \<Rightarrow> string + (string \<times> description) list"

definition parse_file :: "l10n_toml \<Rightarrow> string \<Rightarrow> string + (string, description) btree" where
  "parse_file toml text = try_bind (toml text) (\<lambda>es. Ok (bt_collect es))"

text \<open>\<open>entries.flatten()\<close>: the entries that could be read.\<close>

definition readable :: "('e + 'a) list \<Rightarrow> 'a list" where
  "readable es = List.map_filter (\<lambda>e. case e of Ok x \<Rightarrow> Some x | Err _ \<Rightarrow> None) es"

definition toml_file :: "catalog_fs \<Rightarrow> path \<Rightarrow> string \<Rightarrow> bool" where
  "toml_file fs dir nm \<longleftrightarrow>
     (let p = path_join dir nm in \<not> cf_is_symlink fs p \<and> cf_is_file fs p \<and> has_extension nm ''toml'')"

text \<open>The paths differ in their last component only, so they are sorted by it.\<close>

definition locale_files :: "catalog_fs \<Rightarrow> path \<Rightarrow> (io_error + string) list \<Rightarrow> path list" where
  "locale_files fs dir entries = map (path_join dir) (sort (filter (toml_file fs dir) (readable entries)))"

definition load_file :: "catalog_fs \<Rightarrow> l10n_toml \<Rightarrow> path \<Rightarrow> loaded_locale \<Rightarrow> loaded_locale" where
  "load_file fs toml p st =
     (case st of (acc, warnings) \<Rightarrow>
        (case read_capped (cf_open fs p) MAX_INPUT_FILE_BYTES of
           Err e \<Rightarrow> (acc, warnings @ [\<lparr>lw_path = p, lw_reason = Inl e\<rparr>])
         | Ok text \<Rightarrow>
             (case parse_file toml text of
                Err e \<Rightarrow> (acc, warnings @ [\<lparr>lw_path = p, lw_reason = Inr e\<rparr>])
              | Ok m \<Rightarrow> (fold merge_desc m acc, warnings))))"

definition locale_dir :: "string \<Rightarrow> path \<Rightarrow> path" where
  "locale_dir loc root = path_join (path_join root ''l10n'') loc"

definition load_root :: "catalog_fs \<Rightarrow> l10n_toml \<Rightarrow> string \<Rightarrow> path \<Rightarrow> loaded_locale \<Rightarrow> loaded_locale" where
  "load_root fs toml loc root st =
     (let dir = locale_dir loc root in
      if \<not> cf_is_dir fs dir then st
      else case cf_read_dir fs dir of
             Err e \<Rightarrow> (fst st, snd st @ [\<lparr>lw_path = dir, lw_reason = Inl e\<rparr>])
           | Ok entries \<Rightarrow> fold (load_file fs toml) (locale_files fs dir entries) st)"

definition load_locale :: "catalog_fs \<Rightarrow> l10n_toml \<Rightarrow> path list \<Rightarrow> string \<Rightarrow> l10n_error + loaded_locale" where
  "load_locale fs toml roots loc =
     (if \<not> is_safe_locale loc then Err (InvalidLocale loc)
      else Ok (fold (load_root fs toml loc) roots ([], [])))"

definition push_locale :: "catalog_fs \<Rightarrow> path \<Rightarrow> string \<Rightarrow> string list \<Rightarrow> string list" where
  "push_locale fs dir nm out =
     (let p = path_join dir nm in
      if cf_is_symlink fs p \<or> \<not> cf_is_dir fs p then out
      else if utf8_valid nm \<and> is_safe_locale nm then push_unique nm out
      else out)"

definition available_locales :: "catalog_fs \<Rightarrow> path list \<Rightarrow> string list" where
  "available_locales fs roots =
     fold (\<lambda>root out.
       let dir = path_join root ''l10n'' in
       case cf_read_dir fs dir of
         Err _ \<Rightarrow> out
       | Ok entries \<Rightarrow> fold (push_locale fs dir) (readable entries) out) roots []"

definition live_l10n :: "catalog_fs \<Rightarrow> l10n_toml \<Rightarrow> path list \<Rightarrow> l10n_source" where
  "live_l10n fs toml roots =
     \<lparr>ls_load_locale = load_locale fs toml roots, ls_available_locales = available_locales fs roots\<rparr>"

subsection \<open>The source in memory\<close>

type_synonym fake_entries = "(string \<times> string \<times> description) list"

fun fake_with :: "string \<Rightarrow> string \<Rightarrow> description \<Rightarrow> fake_entries \<Rightarrow> fake_entries" where
  "fake_with loc i d [] = [(loc, i, d)]"
| "fake_with loc i d ((l, j, d0) # es) =
     (if l = loc \<and> j = i then (l, j, overlay d0 d) # es else (l, j, d0) # fake_with loc i d es)"

definition fake_load_locale :: "fake_entries \<Rightarrow> string \<Rightarrow> l10n_error + loaded_locale" where
  "fake_load_locale es loc = Ok (fold merge_desc (map snd (filter (\<lambda>(l, _, _). l = loc) es)) [], [])"

definition fake_available_locales :: "fake_entries \<Rightarrow> string list" where
  "fake_available_locales es = extend_unique (map fst es) []"

definition fake_l10n :: "fake_entries \<Rightarrow> l10n_source" where
  "fake_l10n es = \<lparr>ls_load_locale = fake_load_locale es, ls_available_locales = fake_available_locales es\<rparr>"

subsection \<open>Texts\<close>

definition DEFAULT_LOCALE :: string where
  "DEFAULT_LOCALE = ''en''"

record resolved_text =
  rt_title :: string
  rt_summary :: "string option"
  rt_risk_note :: "string option"
  rt_locale_used :: "string option"

text \<open>One lookup: a locale that does not load and a description without any text count as none.\<close>

definition lookup_desc :: "l10n_source \<Rightarrow> string \<Rightarrow> string \<Rightarrow> description option" where
  "lookup_desc src loc i =
     (case ls_load_locale src loc of
        Err _ \<Rightarrow> None
      | Ok (m, _) \<Rightarrow> (case bt_get m i of Some d \<Rightarrow> if desc_is_empty d then None else Some d | None \<Rightarrow> None))"

definition pick :: "description option \<Rightarrow> description option \<Rightarrow> (description \<Rightarrow> string option) \<Rightarrow> string option" where
  "pick requested english f =
     (case Option.bind requested f of Some t \<Rightarrow> Some t | None \<Rightarrow> Option.bind english f)"

definition resolve_text :: "l10n_source \<Rightarrow> string \<Rightarrow> string \<Rightarrow> resolved_text" where
  "resolve_text src requested_locale i =
     (let requested = lookup_desc src requested_locale i;
          english = (if requested_locale = DEFAULT_LOCALE then requested else lookup_desc src DEFAULT_LOCALE i);
          (title, locale_used) =
            (case Option.bind requested ds_title of
               Some t \<Rightarrow> (t, Some requested_locale)
             | None \<Rightarrow>
                 (case Option.bind english ds_title of
                    Some t \<Rightarrow> (t, Some DEFAULT_LOCALE)
                  | None \<Rightarrow> (i, None)))
      in \<lparr>rt_title = title, rt_summary = pick requested english ds_summary,
          rt_risk_note = pick requested english ds_risk_note, rt_locale_used = locale_used\<rparr>)"

definition base_locale :: "string \<Rightarrow> string" where
  "base_locale raw = takeWhile (\<lambda>c. c \<notin> set ''_.@'') (trim raw)"

fun first_base :: "string option list \<Rightarrow> string" where
  "first_base [] = DEFAULT_LOCALE"
| "first_base (None # rs) = first_base rs"
| "first_base (Some raw # rs) = (if base_locale raw \<noteq> [] then base_locale raw else first_base rs)"

definition lang_from_env :: "string option \<Rightarrow> string option \<Rightarrow> string option \<Rightarrow> string" where
  "lang_from_env explicit lc_messages lang =
     (case explicit of
        Some e \<Rightarrow> if trim e \<noteq> [] then trim e else first_base [lc_messages, lang]
      | None \<Rightarrow> first_base [lc_messages, lang])"

subsection \<open>Lint\<close>

record missing_text =
  mt_id :: string
  mt_locale :: string

record orphan_text =
  ot_id :: string
  ot_locale :: string

definition locale_map :: "l10n_source \<Rightarrow> string \<Rightarrow> (string, description) btree" where
  "locale_map src loc = (case ls_load_locale src loc of Ok (m, _) \<Rightarrow> m | Err _ \<Rightarrow> [])"

definition has_title :: "l10n_source \<Rightarrow> string \<Rightarrow> string \<Rightarrow> bool" where
  "has_title src loc i \<longleftrightarrow> Option.bind (bt_get (locale_map src loc) i) ds_title \<noteq> None"

definition missing_translations :: "l10n_source \<Rightarrow> string list \<Rightarrow> string list \<Rightarrow> missing_text list" where
  "missing_translations src locales ids =
     concat (map (\<lambda>loc. map (\<lambda>i. \<lparr>mt_id = i, mt_locale = loc\<rparr>) (filter (\<lambda>i. \<not> has_title src loc i) ids)) locales)"

definition orphan_translations :: "l10n_source \<Rightarrow> string list \<Rightarrow> string list \<Rightarrow> orphan_text list" where
  "orphan_translations src locales ids =
     concat (map (\<lambda>loc. map (\<lambda>i. \<lparr>ot_id = i, ot_locale = loc\<rparr>)
       (filter (\<lambda>i. i \<notin> set ids) (bt_keys (locale_map src loc)))) locales)"


subsection \<open>What a text is\<close>

text \<open>
  A source gives an ordered map for a locale.  The lint reads nothing else of it, so what it reports
  holds for every source.
\<close>

locale text_source =
  fixes src :: l10n_source
  assumes load_ordered: "ls_load_locale src loc = Ok (m, ws) \<Longrightarrow> bt_inv m"
begin

lemma locale_map_ordered: "bt_inv (locale_map src loc)"
  by (auto simp: locale_map_def bt.invar_empty split: sum.splits dest: load_ordered)

lemma translated_id: "i \<in> set (bt_keys (locale_map src loc)) \<longleftrightarrow> bt_get (locale_map src loc) i \<noteq> None"
  using bt_has_iff [of "locale_map src loc" i] by (simp add: bt_has_def)

lemma orphans_exact:
  "\<lparr>ot_id = i, ot_locale = loc\<rparr> \<in> set (orphan_translations src locales ids) \<longleftrightarrow>
     loc \<in> set locales \<and> i \<notin> set ids \<and> bt_get (locale_map src loc) i \<noteq> None"
  using translated_id [of i loc] by (auto simp: orphan_translations_def)

lemma orphans_once: "distinct locales \<Longrightarrow> distinct (orphan_translations src locales ids)"
proof (induction locales)
  case (Cons loc locales)
  have "distinct (bt_keys (locale_map src loc))"
    using bt_inv_distinct [OF locale_map_ordered] by (simp add: bt_keys_def)
  then show ?case using Cons by (auto simp: orphan_translations_def distinct_map inj_on_def)
qed (simp add: orphan_translations_def)

end

lemma merge_desc_inv: "bt_inv m \<Longrightarrow> bt_inv (merge_desc e m)"
  by (simp add: merge_desc_def bt_insert_inv split: prod.splits)

lemma fold_merge_inv: "bt_inv m \<Longrightarrow> bt_inv (fold merge_desc es m)"
  by (induction es arbitrary: m) (simp_all add: merge_desc_inv)

text \<open>The entries of a file, of a root and of all roots, in the order in which they are overlaid.\<close>

definition file_entries :: "catalog_fs \<Rightarrow> l10n_toml \<Rightarrow> path \<Rightarrow> (string \<times> description) list" where
  "file_entries fs toml p =
     (case try_bind (map_err Inl (read_capped (cf_open fs p) MAX_INPUT_FILE_BYTES)) (\<lambda>text. map_err Inr (parse_file toml text)) of
        Ok m \<Rightarrow> m | Err _ \<Rightarrow> [])"

definition root_entries :: "catalog_fs \<Rightarrow> l10n_toml \<Rightarrow> string \<Rightarrow> path \<Rightarrow> (string \<times> description) list" where
  "root_entries fs toml loc root =
     (let dir = locale_dir loc root in
      if \<not> cf_is_dir fs dir then []
      else case cf_read_dir fs dir of
             Ok entries \<Rightarrow> concat (map (file_entries fs toml) (locale_files fs dir entries)) | Err _ \<Rightarrow> [])"

lemma load_file_map: "fst (load_file fs toml p st) = fold merge_desc (file_entries fs toml p) (fst st)"
  by (auto simp: load_file_def file_entries_def split: prod.splits sum.splits)

lemma load_files_map:
  "fst (fold (load_file fs toml) ps st) = fold merge_desc (concat (map (file_entries fs toml) ps)) (fst st)"
  by (induction ps arbitrary: st) (simp_all add: load_file_map)

lemma load_root_map: "fst (load_root fs toml loc root st) = fold merge_desc (root_entries fs toml loc root) (fst st)"
  by (auto simp: load_root_def root_entries_def Let_def load_files_map split: sum.splits)

lemma load_roots_map:
  "fst (fold (load_root fs toml loc) roots st) = fold merge_desc (concat (map (root_entries fs toml loc) roots)) (fst st)"
  by (induction roots arbitrary: st) (simp_all add: load_root_map)

interpretation live_texts: text_source "live_l10n fs toml roots" for fs toml roots
proof
  fix loc m ws
  assume "ls_load_locale (live_l10n fs toml roots) loc = Ok (m, ws)"
  then have "m = fst (fold (load_root fs toml loc) roots ([], []))"
    by (auto simp: live_l10n_def load_locale_def dest: sym split: if_splits)
  then show "bt_inv m" by (simp add: load_roots_map fold_merge_inv bt.invar_empty)
qed

interpretation fake_texts: text_source "fake_l10n es" for es
  by unfold_locales (auto simp: fake_l10n_def fake_load_locale_def fold_merge_inv bt.invar_empty)

text \<open>A field of a description, and the last text that a list of entries states in it for an id.\<close>

abbreviation field :: "(description \<Rightarrow> string option) \<Rightarrow> bool" where
  "field f \<equiv> f \<in> {ds_title, ds_summary, ds_risk_note}"

definition said :: "(description \<Rightarrow> string option) \<Rightarrow> string \<Rightarrow> (string \<times> description) list \<Rightarrow> string option" where
  "said f i es = last_some f (map snd (filter (\<lambda>(j, _). j = i) es))"

lemma overlay_field: "field f \<Longrightarrow> f (overlay a b) = or_prior (f b) (f a)"
  by (auto simp: overlay_def or_prior_def)

lemma default_field: "field f \<Longrightarrow> f default_description = None"
  by (auto simp: default_description_def)

lemma merge_desc_field:
  assumes "field f" and "bt_inv m"
  shows "Option.bind (bt_get (merge_desc (j, d) m) i) f =
    (if i = j then or_prior (f d) (Option.bind (bt_get m i) f) else Option.bind (bt_get m i) f)"
  using assms(2) overlay_field [OF assms(1)] default_field [OF assms(1)]
  by (auto simp: merge_desc_def bt_insert_get split: option.splits)

lemma merged_field:
  assumes "field f"
  shows "Option.bind (bt_get (fold merge_desc es []) i) f = said f i es"
proof (induction es rule: rev_induct)
  case (snoc e es)
  then show ?case using merge_desc_field [OF assms, of "fold merge_desc es []"] fold_merge_inv [of "[]" es]
    by (cases e) (auto simp: said_def last_some_snoc bt.invar_empty)
qed (simp add: said_def bt_get_def)

lemma lookup_field:
  assumes "field f"
  shows "Option.bind (lookup_desc (live_l10n fs toml roots) loc i) f =
    (if is_safe_locale loc then said f i (concat (map (root_entries fs toml loc) roots)) else None)"
proof (cases "is_safe_locale loc")
  case True
  let ?r = "fold (load_root fs toml loc) roots ([], [])"
  have m: "fst ?r = fold merge_desc (concat (map (root_entries fs toml loc) roots)) []" by (simp add: load_roots_map)
  have "Option.bind (lookup_desc (live_l10n fs toml roots) loc i) f = Option.bind (bt_get (fst ?r) i) f"
    using True assms
    by (auto simp: lookup_desc_def live_l10n_def load_locale_def desc_is_empty_def split: option.splits prod.splits)
  then show ?thesis using True m merged_field [OF assms] by simp
qed (simp add: lookup_desc_def live_l10n_def load_locale_def)

text \<open>
  A text is the last one stated.  Each field of a resolved text is the one that the last file
  states for the id, in the order of the roots and of the names within a root, among the files of
  the requested language that can be read; where none states it, the same of English; and the title
  is the id where neither does.  A file or a directory that cannot be read takes no text away, and a
  language name that could leave the tree reads nothing.
\<close>

theorem text_precedence:
  "let text = (\<lambda>f loc. if is_safe_locale loc then said f i (concat (map (root_entries fs toml loc) roots)) else None);
       r = resolve_text (live_l10n fs toml roots) loc i
   in rt_title r = (case or_prior (text ds_title loc) (text ds_title ''en'') of Some t \<Rightarrow> t | None \<Rightarrow> i)
    \<and> rt_summary r = or_prior (text ds_summary loc) (text ds_summary ''en'')
    \<and> rt_risk_note r = or_prior (text ds_risk_note loc) (text ds_risk_note ''en'')
    \<and> (rt_locale_used r = None \<longleftrightarrow> text ds_title loc = None \<and> text ds_title ''en'' = None)"
proof -
  let ?l = "\<lambda>loc f. Option.bind (lookup_desc (live_l10n fs toml roots) loc i) f"
  let ?r = "resolve_text (live_l10n fs toml roots) loc i"
  have "rt_title ?r = (case or_prior (?l loc ds_title) (?l ''en'' ds_title) of Some t \<Rightarrow> t | None \<Rightarrow> i)
    \<and> rt_summary ?r = or_prior (?l loc ds_summary) (?l ''en'' ds_summary)
    \<and> rt_risk_note ?r = or_prior (?l loc ds_risk_note) (?l ''en'' ds_risk_note)
    \<and> (rt_locale_used ?r = None \<longleftrightarrow> ?l loc ds_title = None \<and> ?l ''en'' ds_title = None)"
    by (auto simp: resolve_text_def pick_def or_prior_def Let_def DEFAULT_LOCALE_def split: option.splits)
  then show ?thesis by (simp only: Let_def lookup_field insert_iff simp_thms)
qed

text \<open>A language is always chosen, and it names no hidden part of a locale string of the environment.\<close>

lemma lang_from_env_total: "lang_from_env e l g \<noteq> []"
proof -
  have "first_base rs \<noteq> []" for rs
    by (induction rs rule: first_base.induct) (simp_all add: DEFAULT_LOCALE_def)
  then show ?thesis by (auto simp: lang_from_env_def split: option.splits)
qed

text \<open>The lint reports exactly the ids without a title and the translated ids that no record has.\<close>

theorem translations_linted:
  "(\<lparr>mt_id = i, mt_locale = loc\<rparr> \<in> set (missing_translations (live_l10n fs toml roots) locales ids) \<longleftrightarrow>
      loc \<in> set locales \<and> i \<in> set ids \<and> \<not> has_title (live_l10n fs toml roots) loc i)
   \<and> (\<lparr>ot_id = i, ot_locale = loc\<rparr> \<in> set (orphan_translations (live_l10n fs toml roots) locales ids) \<longleftrightarrow>
      loc \<in> set locales \<and> i \<notin> set ids \<and> bt_get (locale_map (live_l10n fs toml roots) loc) i \<noteq> None)"
  using live_texts.orphans_exact [of i loc fs toml roots locales ids] by (auto simp: missing_translations_def)

end
