(* ===== verification/Framework.thy ===== *)
theory Framework
  imports Localization
begin

text \<open>
  \<^verbatim>\<open>framework.rs\<close>: the cross-reference from permissions to the controls of compliance frameworks.  The
  loader reads a manifest, the mapping files and the control definitions of every framework below
  the roots, merges the mappings into a forward index, inverts it, and the lint checks what was
  loaded.  The disk is the one of the catalog reader; the three TOML formats are the parsers of
  \<open>framework_toml\<close>.  A message is the constructor of its format string.

  The lemmas show that the two indices are exactly the union of the mapping files, and what a clean
  lint means in terms of these files.
\<close>

subsection \<open>Data\<close>

datatype dimension = Flat | OsLayered

definition dimension_parse :: "string \<Rightarrow> dimension option" where
  "dimension_parse s = (if s = ''flat'' then Some Flat else if s = ''os-layered'' then Some OsLayered else None)"

definition KNOWN_PROVIDES :: "string list" where
  "KNOWN_PROVIDES = [''crossref'', ''controls'']"

record framework_manifest =
  fm_id :: string
  fm_version :: string
  fm_title :: string
  fm_dimension :: string
  fm_provides :: "string list"

record mapping_entry =
  me_satisfies :: "string list"
  me_risk :: "string list"
  me_related :: "string list"

datatype polarity = Satisfies | Risk | Related

instantiation polarity :: linorder
begin

fun polarity_rank :: "polarity \<Rightarrow> nat" where
  "polarity_rank Satisfies = 0"
| "polarity_rank Risk = 1"
| "polarity_rank Related = 2"

definition less_eq_polarity :: "polarity \<Rightarrow> polarity \<Rightarrow> bool" where
  "less_eq_polarity a b \<longleftrightarrow> polarity_rank a \<le> polarity_rank b"

definition less_polarity :: "polarity \<Rightarrow> polarity \<Rightarrow> bool" where
  "less_polarity a b \<longleftrightarrow> polarity_rank a < polarity_rank b"

instance
proof
  fix x y z :: polarity
  show "x < y \<longleftrightarrow> x \<le> y \<and> \<not> y \<le> x" by (auto simp: less_eq_polarity_def less_polarity_def)
  show "x \<le> x" by (simp add: less_eq_polarity_def)
  show "x \<le> y \<Longrightarrow> y \<le> z \<Longrightarrow> x \<le> z" by (simp add: less_eq_polarity_def)
  show "x \<le> y \<Longrightarrow> y \<le> x \<Longrightarrow> x = y" by (cases x; cases y) (simp_all add: less_eq_polarity_def)
  show "x \<le> y \<or> y \<le> x" by (auto simp: less_eq_polarity_def)
qed

end

record polar_controls =
  pc_satisfies :: "string list"
  pc_risk :: "string list"
  pc_related :: "string list"

definition default_polar :: polar_controls where
  "default_polar = \<lparr>pc_satisfies = [], pc_risk = [], pc_related = []\<rparr>"

definition polar_is_empty :: "polar_controls \<Rightarrow> bool" where
  "polar_is_empty pc \<longleftrightarrow> pc_satisfies pc = [] \<and> pc_risk pc = [] \<and> pc_related pc = []"

fun for_polarity :: "polar_controls \<Rightarrow> polarity \<Rightarrow> string list" where
  "for_polarity pc Satisfies = pc_satisfies pc"
| "for_polarity pc Risk = pc_risk pc"
| "for_polarity pc Related = pc_related pc"

definition merge_entry :: "string \<times> mapping_entry \<Rightarrow> (string, polar_controls) btree \<Rightarrow> (string, polar_controls) btree" where
  "merge_entry pe m =
     (case pe of (perm, e) \<Rightarrow>
        let acc = (case bt_get m perm of Some pc \<Rightarrow> pc | None \<Rightarrow> default_polar) in
        bt_insert perm
          \<lparr>pc_satisfies = extend_unique (me_satisfies e) (pc_satisfies acc),
           pc_risk = extend_unique (me_risk e) (pc_risk acc),
           pc_related = extend_unique (me_related e) (pc_related acc)\<rparr> m)"

definition merge_mappings ::
    "(string, mapping_entry) btree \<Rightarrow> (string, polar_controls) btree \<Rightarrow> (string, polar_controls) btree" where
  "merge_mappings file_map m = fold merge_entry file_map m"

record control_def =
  cd_owned :: bool
  cd_domain :: "string option"

datatype framework_error =
  FwIo path io_error
| FwTomlParse path string
| FwIdCollision string

record mapping_provenance =
  mpv_framework_id :: string
  mpv_layer :: "string option"
  mpv_path :: path

record loaded_mapping =
  lm_framework_id :: string
  lm_permission_id :: string
  lm_satisfies :: "string list"
  lm_risk :: "string list"
  lm_related :: "string list"
  lm_provenance :: mapping_provenance

datatype framework_warning =
  SkippedUnknownDimension string path string
| SkippedUnknownProvides string path string

type_synonym forward_index = "(string, (string, polar_controls) btree) btree"
type_synonym reverse_index = "(polarity, (string, (string, string list) btree) btree) btree"

record loaded_frameworks =
  lfw_frameworks :: "(string, framework_manifest) btree"
  lfw_forward :: forward_index
  lfw_reverse :: reverse_index
  lfw_controls :: "(string, (string, control_def) btree) btree"
  lfw_dirs :: "(string, path) btree"
  lfw_mappings :: "loaded_mapping list"
  lfw_warnings :: "framework_warning list"

definition default_frameworks :: loaded_frameworks where
  "default_frameworks =
     \<lparr>lfw_frameworks = [], lfw_forward = [], lfw_reverse = [], lfw_controls = [], lfw_dirs = [],
      lfw_mappings = [], lfw_warnings = []\<rparr>"

text \<open>\<open>map.get(k).unwrap_or_default()\<close> on a map of maps or of vectors.\<close>

definition bt_sub :: "('k, 'v list) btree \<Rightarrow> 'k \<Rightarrow> 'v list" where
  "bt_sub m k = (case bt_get m k of Some s \<Rightarrow> s | None \<Rightarrow> [])"

definition controls_for :: "loaded_frameworks \<Rightarrow> string \<Rightarrow> string \<Rightarrow> polar_controls" where
  "controls_for lf perm fw =
     (case bt_get (bt_sub (lfw_forward lf) perm) fw of Some pc \<Rightarrow> pc | None \<Rightarrow> default_polar)"

definition satisfied_controls :: "loaded_frameworks \<Rightarrow> string \<Rightarrow> string list" where
  "satisfied_controls lf fw = bt_keys (bt_sub (bt_sub (lfw_reverse lf) Satisfies) fw)"

definition risk_controls :: "loaded_frameworks \<Rightarrow> string \<Rightarrow> (string \<times> string list) list" where
  "risk_controls lf fw = bt_sub (bt_sub (lfw_reverse lf) Risk) fw"

definition resolve_control_title ::
    "catalog_fs \<Rightarrow> l10n_toml \<Rightarrow> loaded_frameworks \<Rightarrow> string \<Rightarrow> string \<Rightarrow> string \<Rightarrow> string" where
  "resolve_control_title fs toml lf fw i loc =
     (case bt_get (lfw_dirs lf) fw of
        Some dir \<Rightarrow> rt_title (resolve_text (live_l10n fs toml [dir]) loc i)
      | None \<Rightarrow> i)"

subsection \<open>Loading\<close>

record framework_toml =
  ft_manifest :: "string \<Rightarrow> string + framework_manifest"
  ft_mapping :: "string \<Rightarrow> string + (string \<times> mapping_entry) list"
  ft_controls :: "string \<Rightarrow> string + (string \<times> control_def) list"

definition default_framework_roots :: "path list" where
  "default_framework_roots = [''/usr/share/census/frameworks'', ''/etc/census/frameworks.d'']"

text \<open>The names of a directory that pass a test; the first entry that cannot be read is an error.\<close>

definition list_names :: "catalog_fs \<Rightarrow> (string \<Rightarrow> bool) \<Rightarrow> path \<Rightarrow> framework_error + string list" where
  "list_names fs keep dir =
     try_bind (map_err (FwIo dir) (cf_read_dir fs dir)) (\<lambda>entries.
       try_fold (\<lambda>entry out. try_bind (map_err (FwIo dir) entry) (\<lambda>nm. Ok (if keep nm then out @ [nm] else out))) entries [])"

definition read_toml_files :: "catalog_fs \<Rightarrow> path \<Rightarrow> framework_error + (path \<times> string) list" where
  "read_toml_files fs dir =
     (if \<not> cf_is_dir fs dir then Ok []
      else try_bind (list_names fs (toml_file fs dir) dir) (\<lambda>names.
        try_fold (\<lambda>p out. try_bind (map_err (FwIo p) (read_capped (cf_open fs p) MAX_INPUT_FILE_BYTES)) (\<lambda>text.
          Ok (out @ [(p, text)]))) (map (path_join dir) (sort names)) []))"

definition parse_mapping_file ::
    "framework_toml \<Rightarrow> path \<Rightarrow> string \<Rightarrow> framework_error + (string, mapping_entry) btree" where
  "parse_mapping_file ps p text = try_bind (map_err (FwTomlParse p) (ft_mapping ps text)) (\<lambda>es. Ok (bt_collect es))"

definition parse_controls :: "framework_toml \<Rightarrow> string \<Rightarrow> string + (string, control_def) btree" where
  "parse_controls ps text = try_bind (ft_controls ps text) (\<lambda>es. Ok (bt_collect es))"

definition mapping_dirs :: "path \<Rightarrow> dimension \<Rightarrow> os_target \<Rightarrow> (string option \<times> path) list" where
  "mapping_dirs fw_dir dim os =
     (let mappings_root = path_join fw_dir ''mappings'' in
      case dim of
        Flat \<Rightarrow> [(None, mappings_root)]
      | OsLayered \<Rightarrow> map (\<lambda>layer. (Some layer, path_join mappings_root layer)) (layer_names os))"

type_synonym mapping_state = "loaded_mapping list \<times> (string, polar_controls) btree"

definition mapping_of :: "string \<Rightarrow> string option \<Rightarrow> path \<Rightarrow> string \<times> mapping_entry \<Rightarrow> loaded_mapping" where
  "mapping_of fw_id layer p pe =
     (case pe of (perm, e) \<Rightarrow>
        \<lparr>lm_framework_id = fw_id, lm_permission_id = perm, lm_satisfies = me_satisfies e, lm_risk = me_risk e,
         lm_related = me_related e, lm_provenance = \<lparr>mpv_framework_id = fw_id, mpv_layer = layer, mpv_path = p\<rparr>\<rparr>)"

definition load_mapping_file ::
    "framework_toml \<Rightarrow> string \<Rightarrow> string option \<Rightarrow> path \<times> string \<Rightarrow> mapping_state \<Rightarrow> framework_error + mapping_state" where
  "load_mapping_file ps fw_id layer f st =
     (case (f, st) of ((p, text), (mappings, acc)) \<Rightarrow>
        try_bind (parse_mapping_file ps p text) (\<lambda>file_map.
          Ok (mappings @ map (mapping_of fw_id layer p) file_map, merge_mappings file_map acc)))"

definition load_mapping_dir ::
    "catalog_fs \<Rightarrow> framework_toml \<Rightarrow> string \<Rightarrow> string option \<times> path \<Rightarrow> mapping_state \<Rightarrow> framework_error + mapping_state" where
  "load_mapping_dir fs ps fw_id d st =
     (case d of (layer, dir) \<Rightarrow>
        try_bind (read_toml_files fs dir) (\<lambda>files. try_fold (load_mapping_file ps fw_id layer) files st))"

definition insert_forward :: "string \<Rightarrow> string \<times> polar_controls \<Rightarrow> forward_index \<Rightarrow> forward_index" where
  "insert_forward fw_id pp fwd = (case pp of (perm, polar) \<Rightarrow> bt_insert perm (bt_insert fw_id polar (bt_sub fwd perm)) fwd)"

definition load_controls ::
    "catalog_fs \<Rightarrow> framework_toml \<Rightarrow> path \<Rightarrow> framework_error + (string, control_def) btree option" where
  "load_controls fs ps fw_dir =
     (let p = path_join fw_dir ''controls.toml'' in
      if \<not> cf_is_symlink fs p \<and> cf_is_file fs p
      then try_bind (map_err (FwIo p) (read_capped (cf_open fs p) MAX_INPUT_FILE_BYTES)) (\<lambda>text.
           try_bind (map_err (FwTomlParse p) (parse_controls ps text)) (\<lambda>defs. Ok (Some defs)))
      else Ok None)"

definition admit_framework ::
    "catalog_fs \<Rightarrow> framework_toml \<Rightarrow> os_target \<Rightarrow> path \<Rightarrow> dimension \<Rightarrow> framework_manifest \<Rightarrow> loaded_frameworks
     \<Rightarrow> framework_error + loaded_frameworks" where
  "admit_framework fs ps os fw_dir dim manifest out =
     (let fw_id = fm_id manifest in
      if bt_has (lfw_frameworks out) fw_id then Err (FwIdCollision fw_id)
      else
        try_bind (try_fold (load_mapping_dir fs ps fw_id) (mapping_dirs fw_dir dim os) (lfw_mappings out, [])) (\<lambda>st.
        try_bind (load_controls fs ps fw_dir) (\<lambda>defs.
          Ok (out\<lparr>lfw_mappings := fst st,
                  lfw_forward := fold (insert_forward fw_id) (snd st) (lfw_forward out),
                  lfw_controls := (case defs of Some ds \<Rightarrow> bt_insert fw_id ds (lfw_controls out) | None \<Rightarrow> lfw_controls out),
                  lfw_dirs := bt_insert fw_id fw_dir (lfw_dirs out),
                  lfw_frameworks := bt_insert fw_id manifest (lfw_frameworks out)\<rparr>))))"

definition load_one_framework ::
    "catalog_fs \<Rightarrow> framework_toml \<Rightarrow> os_target \<Rightarrow> path \<Rightarrow> loaded_frameworks \<Rightarrow> framework_error + loaded_frameworks" where
  "load_one_framework fs ps os fw_dir out =
     (let manifest_path = path_join fw_dir ''framework.toml'' in
      if cf_is_symlink fs manifest_path \<or> \<not> cf_is_file fs manifest_path then Ok out
      else
        try_bind (map_err (FwIo manifest_path) (read_capped (cf_open fs manifest_path) MAX_INPUT_FILE_BYTES)) (\<lambda>text.
        try_bind (map_err (FwTomlParse manifest_path) (ft_manifest ps text)) (\<lambda>manifest.
        case dimension_parse (fm_dimension manifest) of
          None \<Rightarrow> Ok (out\<lparr>lfw_warnings := lfw_warnings out
                        @ [SkippedUnknownDimension (fm_id manifest) manifest_path (fm_dimension manifest)]\<rparr>)
        | Some dim \<Rightarrow>
            (case find (\<lambda>tag. tag \<notin> set KNOWN_PROVIDES) (fm_provides manifest) of
               Some unknown \<Rightarrow> Ok (out\<lparr>lfw_warnings := lfw_warnings out
                               @ [SkippedUnknownProvides (fm_id manifest) manifest_path unknown]\<rparr>)
             | None \<Rightarrow> admit_framework fs ps os fw_dir dim manifest out))))"

definition push_reverse :: "string \<Rightarrow> string \<Rightarrow> polarity \<Rightarrow> string \<Rightarrow> reverse_index \<Rightarrow> reverse_index" where
  "push_reverse perm fw pol control rev_index =
     (let by_fw = bt_sub rev_index pol; by_control = bt_sub by_fw fw; perms = bt_sub by_control control in
      bt_insert pol (bt_insert fw (bt_insert control (push_unique perm perms) by_control) by_fw) rev_index)"

definition invert_polar :: "string \<Rightarrow> string \<times> polar_controls \<Rightarrow> reverse_index \<Rightarrow> reverse_index" where
  "invert_polar perm fp rev_index =
     (case fp of (fw, polar) \<Rightarrow>
        fold (\<lambda>(pol, controls). fold (push_reverse perm fw pol) controls)
          [(Satisfies, pc_satisfies polar), (Risk, pc_risk polar), (Related, pc_related polar)] rev_index)"

definition invert_forward :: "forward_index \<Rightarrow> reverse_index" where
  "invert_forward forward = fold (\<lambda>(perm, by_fw). fold (invert_polar perm) by_fw) forward []"

definition framework_subdir :: "catalog_fs \<Rightarrow> path \<Rightarrow> string \<Rightarrow> bool" where
  "framework_subdir fs root nm \<longleftrightarrow> (let p = path_join root nm in \<not> cf_is_symlink fs p \<and> cf_is_dir fs p)"

definition load_framework_root ::
    "catalog_fs \<Rightarrow> framework_toml \<Rightarrow> os_target \<Rightarrow> path \<Rightarrow> loaded_frameworks \<Rightarrow> framework_error + loaded_frameworks" where
  "load_framework_root fs ps os root out =
     (if \<not> cf_is_dir fs root then Ok out
      else try_bind (list_names fs (framework_subdir fs root) root) (\<lambda>names.
        try_fold (load_one_framework fs ps os) (map (path_join root) (sort names)) out))"

definition load_frameworks ::
    "catalog_fs \<Rightarrow> framework_toml \<Rightarrow> path list \<Rightarrow> os_target \<Rightarrow> framework_error + loaded_frameworks" where
  "load_frameworks fs ps roots os =
     try_bind (try_fold (load_framework_root fs ps os) roots default_frameworks) (\<lambda>out.
       Ok (out\<lparr>lfw_reverse := invert_forward (lfw_forward out)\<rparr>))"

subsection \<open>Lint\<close>

datatype framework_lint_severity = LintWarning | LintError

datatype framework_message =
  LintOrphaned string string
| LintNoControls string
| LintUnadvertised string
| LintUnknownControl string string
| LintConflict string string string
| LintRemoved string
| LintAdded string

record framework_lint =
  fl_code :: string
  fl_severity :: framework_lint_severity
  fl_message :: framework_message

definition lint_warning :: "string \<Rightarrow> framework_message \<Rightarrow> framework_lint" where
  "lint_warning code msg = \<lparr>fl_code = code, fl_severity = LintWarning, fl_message = msg\<rparr>"

definition lint_orphans :: "string set \<Rightarrow> forward_index \<Rightarrow> framework_lint list" where
  "lint_orphans known forward =
     concat (map (\<lambda>(perm, by_fw).
       if perm \<in> known then [] else map (\<lambda>fw. lint_warning ''orphaned-mapping'' (LintOrphaned perm fw)) (bt_keys by_fw)) forward)"

definition lint_provides :: "loaded_frameworks \<Rightarrow> string \<times> framework_manifest \<Rightarrow> framework_lint list" where
  "lint_provides lf fm =
     (case fm of (i, manifest) \<Rightarrow>
        (let has_controls = (bt_sub (lfw_controls lf) i \<noteq> []);
             advertises = (''controls'' \<in> set (fm_provides manifest))
         in (if advertises \<and> \<not> has_controls then [lint_warning ''provides-desync'' (LintNoControls i)] else [])
            @ (if has_controls \<and> \<not> advertises then [lint_warning ''provides-desync'' (LintUnadvertised i)] else [])))"

text \<open>The control ids that some mapping of the framework names, in order, each once.\<close>

definition referenced_controls :: "loaded_frameworks \<Rightarrow> string \<Rightarrow> string list" where
  "referenced_controls lf i = bt_keys (bt_collect (map (\<lambda>c. (c, ()))
     (concat (map (\<lambda>(_, by_fw). bt_keys (bt_sub by_fw i)) (lfw_reverse lf)))))"

definition lint_unknown_controls :: "loaded_frameworks \<Rightarrow> string \<Rightarrow> framework_lint list" where
  "lint_unknown_controls lf i =
     (let defined = bt_sub (lfw_controls lf) i in
      if defined = [] then []
      else map (\<lambda>c. lint_warning ''mapping-unknown-control'' (LintUnknownControl i c))
             (filter (\<lambda>c. \<not> bt_has defined c) (referenced_controls lf i)))"

definition lint_conflicts :: "forward_index \<Rightarrow> framework_lint list" where
  "lint_conflicts forward =
     concat (map (\<lambda>(perm, by_fw). concat (map (\<lambda>(fw, polar).
       map (\<lambda>c. \<lparr>fl_code = ''satisfies-risk-conflict'', fl_severity = LintError, fl_message = LintConflict fw perm c\<rparr>)
         (filter (\<lambda>c. c \<in> set (pc_risk polar)) (pc_satisfies polar))) by_fw)) forward)"

definition lint_loaded :: "loaded_frameworks \<Rightarrow> string set \<Rightarrow> framework_lint list" where
  "lint_loaded lf known =
     lint_orphans known (lfw_forward lf)
     @ concat (map (lint_provides lf) (lfw_frameworks lf))
     @ concat (map (lint_unknown_controls lf) (bt_keys (lfw_frameworks lf)))
     @ lint_conflicts (lfw_forward lf)"

definition controls_membership_delta ::
    "(string, control_def) btree \<Rightarrow> (string, control_def) btree \<Rightarrow> framework_lint list" where
  "controls_membership_delta old new =
     map (\<lambda>i. lint_warning ''controls-membership-delta'' (LintRemoved i)) (filter (\<lambda>i. \<not> bt_has new i) (bt_keys old))
     @ map (\<lambda>i. lint_warning ''controls-membership-delta'' (LintAdded i)) (filter (\<lambda>i. \<not> bt_has old i) (bt_keys new))"

definition controls_missing_title :: "string list \<Rightarrow> l10n_source \<Rightarrow> string list \<Rightarrow> string list" where
  "controls_missing_title control_ids src locales =
     (let missing = missing_translations src locales control_ids in
      filter (\<lambda>i. length (filter (\<lambda>m. mt_id m = i) missing) = length locales) control_ids)"


subsection \<open>The indices are the union of the files\<close>

fun listed :: "loaded_mapping \<Rightarrow> polarity \<Rightarrow> string list" where
  "listed m Satisfies = lm_satisfies m"
| "listed m Risk = lm_risk m"
| "listed m Related = lm_related m"

text \<open>The contributions of a framework to a permission, and the controls they name.\<close>

definition contributions :: "loaded_mapping list \<Rightarrow> string \<Rightarrow> string \<Rightarrow> loaded_mapping set" where
  "contributions ms fw p = {m \<in> set ms. lm_framework_id m = fw \<and> lm_permission_id m = p}"

definition mapped :: "loaded_mapping list \<Rightarrow> string \<Rightarrow> string \<Rightarrow> polarity \<Rightarrow> string set" where
  "mapped ms fw p pol = (\<Union>m \<in> contributions ms fw p. set (listed m pol))"

lemma contributions_append: "contributions (ms @ ns) fw p = contributions ms fw p \<union> contributions ns fw p"
  by (auto simp: contributions_def)

lemma mapped_append: "mapped (ms @ ns) fw p pol = mapped ms fw p pol \<union> mapped ns fw p pol"
  by (auto simp: mapped_def contributions_append)

lemma contributions_one:
  "contributions [mapping_of fw layer pth (q, e)] fw' p =
     (if fw' = fw \<and> p = q then {mapping_of fw layer pth (q, e)} else {})"
  by (auto simp: contributions_def mapping_of_def)

text \<open>A merged list of controls agrees with the contributions it was merged from.\<close>

definition agrees :: "loaded_mapping list \<Rightarrow> string \<Rightarrow> string \<Rightarrow> polar_controls option \<Rightarrow> bool" where
  "agrees ms fw p pc \<longleftrightarrow>
     (pc \<noteq> None \<longleftrightarrow> contributions ms fw p \<noteq> {})
     \<and> (\<forall>pol. let cs = for_polarity (case pc of Some x \<Rightarrow> x | None \<Rightarrow> default_polar) pol in
          distinct cs \<and> set cs = mapped ms fw p pol)"

lemma agreesD:
  assumes "agrees ms fw p pc"
  shows "pc \<noteq> None \<longleftrightarrow> contributions ms fw p \<noteq> {}"
    and "distinct (for_polarity (case pc of Some x \<Rightarrow> x | None \<Rightarrow> default_polar) pol)"
    and "set (for_polarity (case pc of Some x \<Rightarrow> x | None \<Rightarrow> default_polar) pol) = mapped ms fw p pol"
  using assms unfolding agrees_def Let_def by auto

lemma agrees_cong:
  assumes "contributions ms fw p = contributions ns fw p"
  shows "agrees ms fw p pc \<longleftrightarrow> agrees ns fw p pc"
  using assms by (simp add: agrees_def mapped_def)

lemma agrees_none: "agrees ms fw p None \<longleftrightarrow> contributions ms fw p = {}"
proof -
  have "for_polarity default_polar pol = []" for pol by (cases pol) (simp_all add: default_polar_def)
  then show ?thesis by (auto simp: agrees_def Let_def mapped_def)
qed

definition merge_right :: "string \<Rightarrow> mapping_state \<Rightarrow> bool" where
  "merge_right fw st \<longleftrightarrow> (case st of (ms, acc) \<Rightarrow> bt_inv acc \<and> (\<forall>p. agrees ms fw p (bt_get acc p)))"

lemma merge_entry_right:
  assumes "merge_right fw (ms, acc)"
  shows "merge_right fw (ms @ [mapping_of fw layer pth pe], merge_entry pe acc)"
proof -
  obtain q e where pe: "pe = (q, e)" by (cases pe)
  have inv: "bt_inv acc" and ag: "agrees ms fw p (bt_get acc p)" for p
    using assms by (auto simp: merge_right_def)
  let ?old = "case bt_get acc q of Some x \<Rightarrow> x | None \<Rightarrow> default_polar"
  let ?new = "\<lparr>pc_satisfies = extend_unique (me_satisfies e) (pc_satisfies ?old),
      pc_risk = extend_unique (me_risk e) (pc_risk ?old), pc_related = extend_unique (me_related e) (pc_related ?old)\<rparr>"
  let ?ms = "ms @ [mapping_of fw layer pth pe]"
  have pol: "for_polarity ?new pol = extend_unique (listed (mapping_of fw layer pth pe) pol) (for_polarity ?old pol)" for pol
    by (cases pol) (simp_all add: pe mapping_of_def)
  have one: "contributions [mapping_of fw layer pth pe] fw q = {mapping_of fw layer pth pe}"
    using contributions_one [of fw layer pth q e fw q] by (simp add: pe)
  have "mapped ?ms fw q pol = set (listed (mapping_of fw layer pth pe) pol) \<union> mapped ms fw q pol" for pol
    by (auto simp: mapped_def contributions_append one)
  moreover have "contributions ?ms fw q \<noteq> {}" by (simp add: contributions_append one)
  ultimately have new: "agrees ?ms fw q (Some ?new)"
    unfolding agrees_def Let_def option.case(2) pol using agreesD(2, 3) [OF ag [of q]] by simp
  have "agrees ?ms fw p (bt_get (merge_entry pe acc) p)" for p
  proof (cases "p = q")
    case True
    then show ?thesis using new inv by (simp add: merge_entry_def pe bt_insert_get Let_def)
  next
    case False
    then have c: "contributions ?ms fw p = contributions ms fw p"
      using contributions_one [of fw layer pth q e fw p] by (simp add: contributions_append pe)
    have "bt_get (merge_entry pe acc) p = bt_get acc p" using False inv by (simp add: merge_entry_def pe bt_insert_get Let_def)
    then show ?thesis using agrees_cong [OF c] ag [of p] by simp
  qed
  moreover have "bt_inv (merge_entry pe acc)" using inv by (simp add: merge_entry_def pe bt_insert_inv Let_def)
  ultimately show ?thesis by (simp add: merge_right_def)
qed

lemma merge_mappings_right:
  "merge_right fw (ms, acc) \<Longrightarrow> merge_right fw (ms @ map (mapping_of fw layer pth) es, merge_mappings es acc)"
proof (induction es arbitrary: ms acc)
  case (Cons pe es)
  from Cons.IH [OF merge_entry_right [OF Cons.prems, of layer pth pe]] show ?case by (simp add: merge_mappings_def)
qed (simp add: merge_mappings_def)

text \<open>What a framework adds while its files are merged: mappings of its own id, and nothing else.\<close>

definition adds_own :: "string \<Rightarrow> loaded_mapping list \<Rightarrow> loaded_mapping list \<Rightarrow> bool" where
  "adds_own fw ms ms' \<longleftrightarrow> (\<exists>ns. ms' = ms @ ns \<and> list_all (\<lambda>m. lm_framework_id m = fw) ns)"

lemma adds_own_append: "adds_own fw ms ms' \<Longrightarrow> list_all (\<lambda>m. lm_framework_id m = fw) ns \<Longrightarrow> adds_own fw ms (ms' @ ns)"
  by (auto simp: adds_own_def)

definition merging :: "string \<Rightarrow> loaded_mapping list \<Rightarrow> mapping_state \<Rightarrow> bool" where
  "merging fw ms st \<longleftrightarrow> merge_right fw st \<and> adds_own fw ms (fst st)"

lemma load_mapping_file_right:
  assumes "merging fw ms0 st" and "load_mapping_file ps fw layer f st = Ok st'"
  shows "merging fw ms0 st'"
proof -
  obtain p body where f: "f = (p, body)" by (cases f)
  obtain ms acc where st: "st = (ms, acc)" by (cases st)
  from assms(2) obtain file_map where
    "st' = (ms @ map (mapping_of fw layer p) file_map, merge_mappings file_map acc)"
    by (auto simp: load_mapping_file_def f st try_bind_Ok_iff)
  moreover have "list_all (\<lambda>m. lm_framework_id m = fw) (map (mapping_of fw layer p) file_map)"
    by (auto simp: list_all_iff mapping_of_def)
  ultimately show ?thesis using assms(1) merge_mappings_right [of fw ms acc layer p file_map]
    by (simp add: merging_def st adds_own_append)
qed

lemma load_mapping_dir_right:
  assumes "merging fw ms0 st" and "load_mapping_dir fs ps fw d st = Ok st'"
  shows "merging fw ms0 st'"
proof -
  from assms(2) obtain layer files where "try_fold (load_mapping_file ps fw layer) files st = Ok st'"
    by (cases d) (auto simp: load_mapping_dir_def try_bind_Ok_iff)
  then show ?thesis using assms(1) by (rule try_fold_inv) (rule load_mapping_file_right)
qed

text \<open>The state of the loader between two frameworks.\<close>

definition crossref :: "loaded_frameworks \<Rightarrow> bool" where
  "crossref lf \<longleftrightarrow>
     bt_inv (lfw_frameworks lf) \<and> bt_inv (lfw_forward lf) \<and> (\<forall>p. bt_inv (bt_sub (lfw_forward lf) p))
     \<and> (\<forall>p fw. agrees (lfw_mappings lf) fw p (bt_get (bt_sub (lfw_forward lf) p) fw))
     \<and> list_all (\<lambda>m. bt_has (lfw_frameworks lf) (lm_framework_id m)) (lfw_mappings lf)"

lemma bt_sub_insert: "bt_inv m \<Longrightarrow> bt_sub (bt_insert k s m) j = (if j = k then s else bt_sub m j)"
  by (simp add: bt_sub_def bt_insert_get)

lemma insert_forward_at:
  assumes "bt_inv fwd" and "\<forall>p. bt_inv (bt_sub fwd p)"
  shows "bt_inv (insert_forward fw (q, pc) fwd)" and "\<forall>p. bt_inv (bt_sub (insert_forward fw (q, pc) fwd) p)"
    and "bt_get (bt_sub (insert_forward fw (q, pc) fwd) p) fw' =
      (if fw' = fw \<and> p = q then Some pc else bt_get (bt_sub fwd p) fw')"
  using assms by (auto simp: insert_forward_def bt_sub_insert bt_insert_inv bt_insert_get)

lemma insert_forward_fold:
  assumes "bt_inv fwd" and "\<forall>p. bt_inv (bt_sub fwd p)" and "distinct (map fst xs)"
  shows "bt_inv (fold (insert_forward fw) xs fwd) \<and> (\<forall>p. bt_inv (bt_sub (fold (insert_forward fw) xs fwd) p))
    \<and> (\<forall>p fw'. bt_get (bt_sub (fold (insert_forward fw) xs fwd) p) fw' =
        (if fw' = fw \<and> p \<in> fst ` set xs then map_of xs p else bt_get (bt_sub fwd p) fw'))"
  using assms
proof (induction xs arbitrary: fwd)
  case (Cons x xs)
  obtain q pc where x: "x = (q, pc)" by (cases x)
  note at = insert_forward_at [OF Cons.prems(1, 2), where fw = fw and q = q and pc = pc]
  have "distinct (map fst xs)" "q \<notin> fst ` set xs" using Cons.prems(3) by (auto simp: x)
  then show ?case using Cons.IH [OF at(1, 2)] at(3) by (auto simp: x)
qed simp


lemma no_contributions_yet:
  assumes "crossref lf" and "\<not> bt_has (lfw_frameworks lf) fw"
  shows "contributions (lfw_mappings lf) fw p = {}"
  using assms by (auto simp: crossref_def contributions_def list_all_iff)

lemma admit_framework_crossref:
  assumes "crossref out" and "admit_framework fs ps os fw_dir dim manifest out = Ok out'"
  shows "crossref out'"
proof -
  from assms(2) obtain ms acc where
    fresh: "\<not> bt_has (lfw_frameworks out) (fm_id manifest)"
    and maps: "try_fold (load_mapping_dir fs ps (fm_id manifest)) (mapping_dirs fw_dir dim os) (lfw_mappings out, []) = Ok (ms, acc)"
    and out': "lfw_mappings out' = ms" "lfw_forward out' = fold (insert_forward (fm_id manifest)) acc (lfw_forward out)"
      "lfw_frameworks out' = bt_insert (fm_id manifest) manifest (lfw_frameworks out)"
    by (auto simp: admit_framework_def Let_def try_bind_Ok_iff split: if_split_asm)
  let ?fw = "fm_id manifest"
  have inv: "bt_inv (lfw_frameworks out)" "bt_inv (lfw_forward out)" "\<forall>p. bt_inv (bt_sub (lfw_forward out) p)"
    and ag: "agrees (lfw_mappings out) fw p (bt_get (bt_sub (lfw_forward out) p) fw)"
    and known: "list_all (\<lambda>m. bt_has (lfw_frameworks out) (lm_framework_id m)) (lfw_mappings out)" for p fw
    using assms(1) by (simp_all add: crossref_def)
  have "merging ?fw (lfw_mappings out) (lfw_mappings out, [])"
    using no_contributions_yet [OF assms(1) fresh] agrees_none
    by (simp add: merging_def merge_right_def adds_own_def bt.invar_empty bt_get_def)
  from try_fold_inv [OF maps, of "merging ?fw (lfw_mappings out)", OF this load_mapping_dir_right]
  have right: "bt_inv acc" "\<And>p. agrees ms ?fw p (bt_get acc p)" and own: "adds_own ?fw (lfw_mappings out) ms"
    by (auto simp: merging_def merge_right_def)
  from own obtain ns where ns: "ms = lfw_mappings out @ ns" "list_all (\<lambda>m. lm_framework_id m = ?fw) ns"
    by (auto simp: adds_own_def)
  note fwd = insert_forward_fold [OF inv(2, 3) bt_inv_distinct [OF right(1)], of ?fw]
  have "agrees ms fw p (bt_get (bt_sub (lfw_forward out') p) fw)" for p fw
  proof (cases "fw = ?fw")
    case True
    have "bt_get (bt_sub (lfw_forward out') p) ?fw = bt_get acc p"
    proof (cases "p \<in> fst ` set acc")
      case False
      then have "bt_get acc p = None" by (simp add: bt_get_def map_of_eq_None_iff)
      moreover have "bt_get (bt_sub (lfw_forward out) p) ?fw = None"
        using agreesD(1) [OF ag [where p = p and fw = ?fw]] no_contributions_yet [OF assms(1) fresh] by simp
      ultimately show ?thesis using fwd False by (simp add: out')
    qed (use fwd in \<open>simp add: out' bt_get_def\<close>)
    then show ?thesis using right(2) True by simp
  next
    case False
    then have c: "contributions ms fw p = contributions (lfw_mappings out) fw p"
      using ns by (auto simp: contributions_def list_all_iff)
    have "bt_get (bt_sub (lfw_forward out') p) fw = bt_get (bt_sub (lfw_forward out) p) fw" using fwd False by (simp add: out')
    then show ?thesis using agrees_cong [OF c] ag [where p = p and fw = fw] by simp
  qed
  moreover have "list_all (\<lambda>m. bt_has (lfw_frameworks out') (lm_framework_id m)) ms"
    using known ns inv(1) by (auto simp: out' list_all_iff bt_has_def bt_insert_get)
  ultimately show ?thesis using fwd inv(1) by (simp add: crossref_def out' bt_insert_inv)
qed

lemma load_one_framework_cases:
  assumes "load_one_framework fs ps os fw_dir out = Ok out'"
  obtains (skipped) ws where "out' = out\<lparr>lfw_warnings := ws\<rparr>"
  | (admitted) dim manifest where "admit_framework fs ps os fw_dir dim manifest out = Ok out'"
proof (cases "out' = out")
  case True
  then have "out' = out\<lparr>lfw_warnings := lfw_warnings out\<rparr>" by simp
  then show ?thesis by (rule skipped)
next
  case False
  with assms obtain manifest where m:
    "(case dimension_parse (fm_dimension manifest) of
        None \<Rightarrow> Ok (out\<lparr>lfw_warnings := lfw_warnings out @ [SkippedUnknownDimension (fm_id manifest)
          (path_join fw_dir ''framework.toml'') (fm_dimension manifest)]\<rparr>)
      | Some dim \<Rightarrow> (case find (\<lambda>tag. tag \<notin> set KNOWN_PROVIDES) (fm_provides manifest) of
          Some unknown \<Rightarrow> Ok (out\<lparr>lfw_warnings := lfw_warnings out @ [SkippedUnknownProvides (fm_id manifest)
            (path_join fw_dir ''framework.toml'') unknown]\<rparr>)
        | None \<Rightarrow> admit_framework fs ps os fw_dir dim manifest out)) = Ok out'"
    unfolding load_one_framework_def Let_def try_bind_Ok_iff if_distrib [of "\<lambda>x. x = Ok out'"] by (metis sum.inject(2))
  show ?thesis
  proof (cases "dimension_parse (fm_dimension manifest)")
    case None
    then have "out\<lparr>lfw_warnings := lfw_warnings out @ [SkippedUnknownDimension (fm_id manifest)
        (path_join fw_dir ''framework.toml'') (fm_dimension manifest)]\<rparr> = out'" using m by simp
    then show ?thesis using skipped by blast
  next
    case (Some dim)
    show ?thesis
    proof (cases "find (\<lambda>tag. tag \<notin> set KNOWN_PROVIDES) (fm_provides manifest)")
      case None
      then show ?thesis using m Some admitted by simp
    next
      case (Some unknown)
      then have "out\<lparr>lfw_warnings := lfw_warnings out @ [SkippedUnknownProvides (fm_id manifest)
          (path_join fw_dir ''framework.toml'') unknown]\<rparr> = out'"
        using m \<open>dimension_parse (fm_dimension manifest) = Some dim\<close> by simp
      then show ?thesis using skipped by blast
    qed
  qed
qed

lemma load_one_framework_crossref:
  assumes "crossref out" and "load_one_framework fs ps os fw_dir out = Ok out'"
  shows "crossref out'"
  using assms(2)
proof (cases rule: load_one_framework_cases)
  case (skipped ws)
  then show ?thesis using assms(1) by (simp add: crossref_def)
next
  case (admitted dim manifest)
  then show ?thesis by (rule admit_framework_crossref [OF assms(1)])
qed

lemma load_framework_root_crossref:
  assumes "crossref out" and "load_framework_root fs ps os root out = Ok out'"
  shows "crossref out'"
proof (cases "cf_is_dir fs root")
  case True
  with assms(2) obtain dirs where "try_fold (load_one_framework fs ps os) dirs out = Ok out'"
    by (auto simp: load_framework_root_def try_bind_Ok_iff)
  then show ?thesis using assms(1) by (rule try_fold_inv) (rule load_one_framework_crossref)
qed (use assms in \<open>simp add: load_framework_root_def\<close>)

lemma load_frameworks_crossref:
  assumes "load_frameworks fs ps roots os = Ok lf"
  shows "crossref lf" and "lfw_reverse lf = invert_forward (lfw_forward lf)"
proof -
  from assms obtain out where out: "try_fold (load_framework_root fs ps os) roots default_frameworks = Ok out"
    "lf = out\<lparr>lfw_reverse := invert_forward (lfw_forward out)\<rparr>"
    by (auto simp: load_frameworks_def try_bind_Ok_iff)
  have "crossref default_frameworks"
    by (simp add: crossref_def default_frameworks_def bt.invar_empty bt_sub_def bt_get_def agrees_none contributions_def)
  from try_fold_inv [OF out(1), of crossref, OF this load_framework_root_crossref]
  show "crossref lf" by (auto simp: out(2) crossref_def)
  show "lfw_reverse lf = invert_forward (lfw_forward lf)" by (simp add: out(2))
qed


subsection \<open>The reverse index\<close>

definition permissions_for :: "reverse_index \<Rightarrow> polarity \<Rightarrow> string \<Rightarrow> string \<Rightarrow> string list" where
  "permissions_for rv pol fw c = bt_sub (bt_sub (bt_sub rv pol) fw) c"

text \<open>The links of the index, and that it is made of ordered maps to lists without duplicates, none empty.\<close>

definition links :: "reverse_index \<Rightarrow> (string \<times> string \<times> polarity \<times> string) set" where
  "links rv = {(p, fw, pol, c). p \<in> set (permissions_for rv pol fw c)}"

definition reverse_inv :: "reverse_index \<Rightarrow> bool" where
  "reverse_inv rv \<longleftrightarrow>
     bt_inv rv \<and> (\<forall>pol. bt_inv (bt_sub rv pol)) \<and> (\<forall>pol fw. bt_inv (bt_sub (bt_sub rv pol) fw))
     \<and> (\<forall>pol fw c. distinct (permissions_for rv pol fw c) \<and> bt_get (bt_sub (bt_sub rv pol) fw) c \<noteq> Some [])"

lemma push_unique_nonempty [simp]: "push_unique x xs \<noteq> []"
  by (auto simp: push_unique_def)

lemma push_reverse_adds:
  assumes "reverse_inv rv"
  shows "reverse_inv (push_reverse p fw pol c rv)" and "links (push_reverse p fw pol c rv) = insert (p, fw, pol, c) (links rv)"
proof -
  have i: "bt_inv rv" "\<And>pol. bt_inv (bt_sub rv pol)" "\<And>pol fw. bt_inv (bt_sub (bt_sub rv pol) fw)"
    "\<And>pol fw c. distinct (permissions_for rv pol fw c)" "\<And>pol fw c. bt_get (bt_sub (bt_sub rv pol) fw) c \<noteq> Some []"
    using assms by (auto simp: reverse_inv_def)
  have at: "permissions_for (push_reverse p fw pol c rv) pol' fw' c' =
      (if pol' = pol \<and> fw' = fw \<and> c' = c then push_unique p (permissions_for rv pol fw c) else permissions_for rv pol' fw' c')"
    for pol' fw' c'
    by (simp add: push_reverse_def permissions_for_def Let_def bt_sub_insert i bt_insert_inv)
  show "links (push_reverse p fw pol c rv) = insert (p, fw, pol, c) (links rv)"
    by (auto simp: links_def at split: if_splits)
  have "bt_inv (push_reverse p fw pol c rv)" "bt_inv (bt_sub (push_reverse p fw pol c rv) pol')"
    "bt_inv (bt_sub (bt_sub (push_reverse p fw pol c rv) pol') fw')"
    "bt_get (bt_sub (bt_sub (push_reverse p fw pol c rv) pol') fw') c' \<noteq> Some []" for pol' fw' c'
    using i by (simp_all add: push_reverse_def Let_def bt_sub_insert bt_insert_inv bt_insert_get)
  then show "reverse_inv (push_reverse p fw pol c rv)" using i(4) by (auto simp: reverse_inv_def at)
qed

text \<open>A loop that adds the links of each element, whatever they are, adds all of them.\<close>

lemma fold_adds_links:
  assumes "\<And>x rv. x \<in> set xs \<Longrightarrow> reverse_inv rv \<Longrightarrow> reverse_inv (f x rv) \<and> links (f x rv) = g x \<union> links rv"
    and "reverse_inv rv"
  shows "reverse_inv (fold f xs rv) \<and> links (fold f xs rv) = (\<Union>x \<in> set xs. g x) \<union> links rv"
  using assms
proof (induction xs arbitrary: rv)
  case (Cons x xs)
  have "reverse_inv (f x rv)" "links (f x rv) = g x \<union> links rv" using Cons.prems(1) [of x rv] Cons.prems(2) by simp_all
  with Cons.IH [of "f x rv"] Cons.prems(1) show ?case by auto
qed simp

lemma invert_polar_adds:
  assumes "reverse_inv rv"
  shows "reverse_inv (invert_polar p (fw, pc) rv)
    \<and> links (invert_polar p (fw, pc) rv) = {(p, fw, pol, c) | pol c. c \<in> set (for_polarity pc pol)} \<union> links rv"
proof -
  have one: "reverse_inv (fold (push_reverse p fw pol) cs rv)
      \<and> links (fold (push_reverse p fw pol) cs rv) = (\<Union>c \<in> set cs. {(p, fw, pol, c)}) \<union> links rv"
    if "reverse_inv rv" for pol cs rv
    by (rule fold_adds_links [OF _ that]) (simp add: push_reverse_adds)
  let ?ls = "[(Satisfies, pc_satisfies pc), (Risk, pc_risk pc), (Related, pc_related pc)]"
  have "reverse_inv (fold (\<lambda>(pol, controls). fold (push_reverse p fw pol) controls) ?ls rv)
      \<and> links (fold (\<lambda>(pol, controls). fold (push_reverse p fw pol) controls) ?ls rv)
        = (\<Union>x \<in> set ?ls. {(p, fw, fst x, c) | c. c \<in> set (snd x)}) \<union> links rv"
  proof (rule fold_adds_links [OF _ assms])
    fix x rv
    assume "x \<in> set ?ls" "reverse_inv rv"
    with one [of rv "fst x" "snd x"]
    show "reverse_inv ((case x of (pol, controls) \<Rightarrow> fold (push_reverse p fw pol) controls) rv)
      \<and> links ((case x of (pol, controls) \<Rightarrow> fold (push_reverse p fw pol) controls) rv)
        = {(p, fw, fst x, c) | c. c \<in> set (snd x)} \<union> links rv" by (auto split: prod.splits)
  qed
  moreover have "(\<Union>x \<in> set ?ls. {(p, fw, fst x, c) | c. c \<in> set (snd x)}) = {(p, fw, pol, c) | pol c. c \<in> set (for_polarity pc pol)}"
  proof -
    have "(\<exists>x \<in> set ?ls. fst x = pol \<and> c \<in> set (snd x)) \<longleftrightarrow> c \<in> set (for_polarity pc pol)" for pol c by (cases pol) auto
    then show ?thesis by fastforce
  qed
  ultimately show ?thesis by (simp add: invert_polar_def)
qed

lemma invert_forward_links:
  assumes "bt_inv fwd" and "\<forall>p. bt_inv (bt_sub fwd p)"
  shows "reverse_inv (invert_forward fwd)"
    and "(p, fw, pol, c) \<in> links (invert_forward fwd) \<longleftrightarrow>
      (\<exists>pc. bt_get (bt_sub fwd p) fw = Some pc \<and> c \<in> set (for_polarity pc pol))"
proof -
  let ?g = "\<lambda>p fp. {(p, fst fp, pol, c) | pol c. c \<in> set (for_polarity (snd fp) pol)}"
  have by_fw: "reverse_inv (fold (invert_polar p) m rv) \<and> links (fold (invert_polar p) m rv) = (\<Union>fp \<in> set m. ?g p fp) \<union> links rv"
    if "reverse_inv rv" for p m rv
  proof (rule fold_adds_links [OF _ that])
    fix fp rv
    assume "reverse_inv rv"
    from invert_polar_adds [OF this, of p "fst fp" "snd fp"]
    show "reverse_inv (invert_polar p fp rv) \<and> links (invert_polar p fp rv) = ?g p fp \<union> links rv" by simp
  qed
  have empty: "reverse_inv []" "links [] = {}"
    by (simp_all add: reverse_inv_def links_def permissions_for_def bt_sub_def bt_get_def bt.invar_empty)
  have "reverse_inv (invert_forward fwd) \<and> links (invert_forward fwd) = (\<Union>e \<in> set fwd. \<Union>fp \<in> set (snd e). ?g (fst e) fp) \<union> links []"
    unfolding invert_forward_def
  proof (rule fold_adds_links [OF _ empty(1)])
    fix e rv
    assume "reverse_inv rv"
    from by_fw [OF this, of "fst e" "snd e"]
    show "reverse_inv ((case e of (perm, m) \<Rightarrow> fold (invert_polar perm) m) rv)
      \<and> links ((case e of (perm, m) \<Rightarrow> fold (invert_polar perm) m) rv) = (\<Union>fp \<in> set (snd e). ?g (fst e) fp) \<union> links rv"
      by (simp add: split_beta)
  qed
  then show "reverse_inv (invert_forward fwd)"
    and "(p, fw, pol, c) \<in> links (invert_forward fwd) \<longleftrightarrow>
      (\<exists>pc. bt_get (bt_sub fwd p) fw = Some pc \<and> c \<in> set (for_polarity pc pol))"
  proof -
    assume a: "reverse_inv (invert_forward fwd) \<and> links (invert_forward fwd) = (\<Union>e \<in> set fwd. \<Union>fp \<in> set (snd e). ?g (fst e) fp) \<union> links []"
    then show "reverse_inv (invert_forward fwd)" by simp
    have sub: "(fw, pc) \<in> set (bt_sub fwd p) \<longleftrightarrow> (\<exists>m. (p, m) \<in> set fwd \<and> (fw, pc) \<in> set m)" for pc
      using bt.iter_get [OF assms(1)] by (cases "bt_get fwd p") (auto simp: bt_sub_def)
    have "(p, fw, pol, c) \<in> links (invert_forward fwd) \<longleftrightarrow>
        (\<exists>pc. (\<exists>m. (p, m) \<in> set fwd \<and> (fw, pc) \<in> set m) \<and> c \<in> set (for_polarity pc pol))"
      using a empty(2) by fastforce
    also have "\<dots> \<longleftrightarrow> (\<exists>pc. bt_get (bt_sub fwd p) fw = Some pc \<and> c \<in> set (for_polarity pc pol))"
      using sub bt.iter_get assms(2) by metis
    finally show "(p, fw, pol, c) \<in> links (invert_forward fwd) \<longleftrightarrow>
        (\<exists>pc. bt_get (bt_sub fwd p) fw = Some pc \<and> c \<in> set (for_polarity pc pol))" .
  qed
qed


lemma load_frameworks_reverse:
  assumes "load_frameworks fs ps roots os = Ok lf"
  shows "reverse_inv (lfw_reverse lf)"
    and "p \<in> set (permissions_for (lfw_reverse lf) pol fw c) \<longleftrightarrow> c \<in> mapped (lfw_mappings lf) fw p pol"
proof -
  note c = load_frameworks_crossref [OF assms]
  have i: "bt_inv (lfw_forward lf)" "\<forall>p. bt_inv (bt_sub (lfw_forward lf) p)"
    and ag: "agrees (lfw_mappings lf) fw p (bt_get (bt_sub (lfw_forward lf) p) fw)"
    using c(1) by (auto simp: crossref_def)
  show "reverse_inv (lfw_reverse lf)" using invert_forward_links(1) [OF i] by (simp add: c(2))
  have "for_polarity default_polar pol = []" by (cases pol) (simp_all add: default_polar_def)
  then show "p \<in> set (permissions_for (lfw_reverse lf) pol fw c) \<longleftrightarrow> c \<in> mapped (lfw_mappings lf) fw p pol"
    using invert_forward_links(2) [OF i, of p fw pol c] agreesD(3) [OF ag, of pol]
    by (auto simp: c(2) links_def split: option.splits)
qed

lemma controls_for_mapped:
  assumes "load_frameworks fs ps roots os = Ok lf"
  shows "distinct (for_polarity (controls_for lf p fw) pol)"
    and "set (for_polarity (controls_for lf p fw) pol) = mapped (lfw_mappings lf) fw p pol"
proof -
  have ag: "agrees (lfw_mappings lf) fw p (bt_get (bt_sub (lfw_forward lf) p) fw)"
    using load_frameworks_crossref(1) [OF assms] by (simp add: crossref_def)
  show "distinct (for_polarity (controls_for lf p fw) pol)"
    and "set (for_polarity (controls_for lf p fw) pol) = mapped (lfw_mappings lf) fw p pol"
    using agreesD(2, 3) [OF ag, of pol] by (simp_all add: controls_for_def)
qed

text \<open>
  C39: Both indices are the union of the mapping files.  After a load, a permission has a control of
  a framework under a polarity exactly when some mapping file that was read for this framework
  lists it there, whatever the number of files and layers; the reverse index holds exactly the same
  links, read from the control; neither holds a duplicate, and every mapping belongs to a loaded
  framework.
\<close>

theorem crossref_exact:
  assumes "load_frameworks fs ps roots os = Ok lf"
  shows "set (for_polarity (controls_for lf p fw) pol) = mapped (lfw_mappings lf) fw p pol
    \<and> set (permissions_for (lfw_reverse lf) pol fw c) = {p. c \<in> mapped (lfw_mappings lf) fw p pol}
    \<and> distinct (for_polarity (controls_for lf p fw) pol) \<and> distinct (permissions_for (lfw_reverse lf) pol fw c)
    \<and> list_all (\<lambda>m. bt_has (lfw_frameworks lf) (lm_framework_id m)) (lfw_mappings lf)"
  using controls_for_mapped [OF assms, of p fw pol] load_frameworks_reverse(1) [OF assms]
    load_frameworks_reverse(2) [OF assms, of _ pol fw c] load_frameworks_crossref(1) [OF assms]
  by (auto simp: reverse_inv_def crossref_def)

subsection \<open>What a clean lint means\<close>

lemma concat_map_Nil: "concat (map f xs) = [] \<longleftrightarrow> list_all (\<lambda>x. f x = []) xs"
  by (induction xs) simp_all

lemma lint_orphans_clean:
  assumes "crossref lf"
  shows "lint_orphans known (lfw_forward lf) = [] \<longleftrightarrow> list_all (\<lambda>m. lm_permission_id m \<in> known) (lfw_mappings lf)"
proof -
  have i: "bt_inv (lfw_forward lf)" "\<And>p. bt_inv (bt_sub (lfw_forward lf) p)"
    and ag: "\<And>p fw. bt_get (bt_sub (lfw_forward lf) p) fw \<noteq> None \<longleftrightarrow> contributions (lfw_mappings lf) fw p \<noteq> {}"
    using assms unfolding crossref_def agrees_def by simp_all
  have e: "(p, m) \<in> set (lfw_forward lf) \<longleftrightarrow> bt_get (lfw_forward lf) p = Some m" for p m
    by (rule bt.iter_get [OF i(1)])
  have empty: "bt_sub (lfw_forward lf) p = [] \<longleftrightarrow> (\<forall>fw. contributions (lfw_mappings lf) fw p = {})" for p
  proof -
    have "bt_sub (lfw_forward lf) p = [] \<longleftrightarrow> (\<forall>fw. bt_get (bt_sub (lfw_forward lf) p) fw = None)"
      using bt.iter_get [OF i(2) [of p]] by (metis bt.get_empty list.set_intros(1) neq_Nil_conv old.prod.exhaust option.distinct(1))
    then show ?thesis using ag [of p] by blast
  qed
  have "lint_orphans known (lfw_forward lf) = [] \<longleftrightarrow> (\<forall>(p, m) \<in> set (lfw_forward lf). p \<in> known \<or> m = [])"
    by (auto simp: lint_orphans_def concat_map_Nil list_all_iff bt_keys_def split_beta split: if_splits)
  also have "\<dots> \<longleftrightarrow> (\<forall>p. p \<notin> known \<longrightarrow> bt_sub (lfw_forward lf) p = [])"
    by (force simp: e bt_sub_def split: option.splits)
  also have "\<dots> \<longleftrightarrow> list_all (\<lambda>m. lm_permission_id m \<in> known) (lfw_mappings lf)"
    unfolding empty by (auto simp: contributions_def list_all_iff)
  finally show ?thesis .
qed


lemma lint_provides_clean:
  "concat (map (lint_provides lf) xs) = [] \<longleftrightarrow>
   list_all (\<lambda>(i, manifest). ''controls'' \<in> set (fm_provides manifest) \<longleftrightarrow> bt_sub (lfw_controls lf) i \<noteq> []) xs"
proof -
  have "lint_provides lf x = [] \<longleftrightarrow>
      (case x of (i, manifest) \<Rightarrow> ''controls'' \<in> set (fm_provides manifest) \<longleftrightarrow> bt_sub (lfw_controls lf) i \<noteq> [])" for x
    by (cases x; cases "bt_sub (lfw_controls lf) (fst x) = []"; cases "''controls'' \<in> set (fm_provides (snd x))")
      (simp_all add: lint_provides_def Let_def)
  then show ?thesis unfolding concat_map_Nil by simp
qed

lemma referenced_controls_mapped:
  assumes "load_frameworks fs ps roots os = Ok lf"
  shows "set (referenced_controls lf i) = (\<Union>m \<in> {m \<in> set (lfw_mappings lf). lm_framework_id m = i}. \<Union>pol. set (listed m pol))"
proof -
  let ?rv = "lfw_reverse lf"
  have r: "bt_inv ?rv" "\<And>pol. bt_inv (bt_sub ?rv pol)" "\<And>pol fw. bt_inv (bt_sub (bt_sub ?rv pol) fw)"
    "\<And>pol fw c. bt_get (bt_sub (bt_sub ?rv pol) fw) c \<noteq> Some []"
    using load_frameworks_reverse(1) [OF assms] by (auto simp: reverse_inv_def)
  have keys: "c \<in> set (bt_keys (bt_sub (bt_sub ?rv pol) i)) \<longleftrightarrow> permissions_for ?rv pol i c \<noteq> []" for pol c
    using bt_has_iff [of "bt_sub (bt_sub ?rv pol) i" c] r(4) [of pol i c]
    by (auto simp: permissions_for_def bt_sub_def bt_has_def bt_get_def split: option.splits)
  have collect: "set (bt_keys (bt_collect (map (\<lambda>c. (c, ())) cs))) = set cs" for cs :: "string list"
  proof (induction cs rule: rev_induct)
    case (snoc c cs)
    then show ?case using bt_insert_keys [of c "()" "bt_collect (map (\<lambda>c. (c, ())) cs)"]
      by (simp add: bt_collect_def bt_keys_def)
  qed (simp add: bt_collect_def bt_keys_def)
  have by_pol: "(\<exists>e \<in> set ?rv. c \<in> set (bt_keys (bt_sub (snd e) i))) \<longleftrightarrow> (\<exists>pol. c \<in> set (bt_keys (bt_sub (bt_sub ?rv pol) i)))" for c
  proof
    assume "\<exists>e \<in> set ?rv. c \<in> set (bt_keys (bt_sub (snd e) i))"
    then obtain pol m where "(pol, m) \<in> set ?rv" "c \<in> set (bt_keys (bt_sub m i))" by auto
    then have "c \<in> set (bt_keys (bt_sub (bt_sub ?rv pol) i))"
      using bt.iter_get [OF r(1), of pol m] by (simp add: bt_sub_def [of ?rv])
    then show "\<exists>pol. c \<in> set (bt_keys (bt_sub (bt_sub ?rv pol) i))" ..
  next
    assume "\<exists>pol. c \<in> set (bt_keys (bt_sub (bt_sub ?rv pol) i))"
    then obtain pol m where "bt_get ?rv pol = Some m" "c \<in> set (bt_keys (bt_sub m i))"
      by (auto simp: bt_sub_def [of ?rv] bt_sub_def [of "[]"] bt_get_def [of "[]"] bt_keys_def split: option.splits)
    then show "\<exists>e \<in> set ?rv. c \<in> set (bt_keys (bt_sub (snd e) i))" using bt.iter_get [OF r(1), of pol m] by force
  qed
  have "c \<in> set (referenced_controls lf i) \<longleftrightarrow> (\<exists>pol. permissions_for ?rv pol i c \<noteq> [])" for c
    unfolding referenced_controls_def collect using by_pol [of c] by (simp add: keys split_beta)
  also have "\<dots> c \<longleftrightarrow> (\<exists>pol p. c \<in> mapped (lfw_mappings lf) i p pol)" for c
    using load_frameworks_reverse(2) [OF assms, of _ _ i c] by (metis list.set_intros(1) neq_Nil_conv empty_iff list.set(1))
  finally have m: "c \<in> set (referenced_controls lf i) \<longleftrightarrow> (\<exists>pol p. c \<in> mapped (lfw_mappings lf) i p pol)" for c .
  show ?thesis by (rule set_eqI) (unfold m, auto simp: mapped_def contributions_def)
qed

lemma lint_conflicts_clean:
  assumes "load_frameworks fs ps roots os = Ok lf"
  shows "lint_conflicts (lfw_forward lf) = [] \<longleftrightarrow>
    (\<forall>fw p. mapped (lfw_mappings lf) fw p Satisfies \<inter> mapped (lfw_mappings lf) fw p Risk = {})"
proof -
  have i: "bt_inv (lfw_forward lf)" "\<And>p. bt_inv (bt_sub (lfw_forward lf) p)"
    using load_frameworks_crossref(1) [OF assms] by (simp_all add: crossref_def)
  have e: "(\<exists>m. (p, m) \<in> set (lfw_forward lf) \<and> (fw, pc) \<in> set m) \<longleftrightarrow> bt_get (bt_sub (lfw_forward lf) p) fw = Some pc" for p fw pc
    using bt.iter_get [OF i(1), of p] bt.iter_get [OF i(2) [of p], of fw pc]
    by (cases "bt_get (lfw_forward lf) p") (auto simp: bt_sub_def)
  have "lint_conflicts (lfw_forward lf) = [] \<longleftrightarrow>
      (\<forall>p m fw pc. (p, m) \<in> set (lfw_forward lf) \<and> (fw, pc) \<in> set m \<longrightarrow> set (pc_satisfies pc) \<inter> set (pc_risk pc) = {})"
    unfolding lint_conflicts_def concat_map_Nil list_all_iff split_beta map_is_Nil_conv filter_empty_conv
    by (simp add: disjoint_iff Ball_def split_paired_All) blast
  also have "\<dots> \<longleftrightarrow> (\<forall>p fw pc. bt_get (bt_sub (lfw_forward lf) p) fw = Some pc \<longrightarrow> set (pc_satisfies pc) \<inter> set (pc_risk pc) = {})"
    unfolding e [symmetric] by blast
  also have "\<dots> \<longleftrightarrow> (\<forall>p fw. set (pc_satisfies (controls_for lf p fw)) \<inter> set (pc_risk (controls_for lf p fw)) = {})"
    by (auto simp: controls_for_def default_polar_def split: option.splits)
  also have "\<dots> \<longleftrightarrow> (\<forall>p fw. mapped (lfw_mappings lf) fw p Satisfies \<inter> mapped (lfw_mappings lf) fw p Risk = {})"
    by (simp only: controls_for_mapped(2) [OF assms, symmetric] for_polarity.simps)
  finally show ?thesis by blast
qed

text \<open>
  C40: A clean lint means a consistent set of files.  The lint of a load is empty exactly when every
  mapping file names known permissions only, every framework ships control definitions exactly when
  its manifest advertises them, every mapping of a framework with definitions names defined controls
  only, and no two files of a framework say that a permission both satisfies and undermines a
  control.
\<close>

theorem framework_lint_exact:
  assumes "load_frameworks fs ps roots os = Ok lf"
  shows "lint_loaded lf known = [] \<longleftrightarrow>
    list_all (\<lambda>m. lm_permission_id m \<in> known) (lfw_mappings lf)
    \<and> list_all (\<lambda>(i, manifest). ''controls'' \<in> set (fm_provides manifest) \<longleftrightarrow> bt_sub (lfw_controls lf) i \<noteq> []) (lfw_frameworks lf)
    \<and> list_all (\<lambda>m. bt_sub (lfw_controls lf) (lm_framework_id m) = []
        \<or> (\<Union>pol. set (listed m pol)) \<subseteq> set (bt_keys (bt_sub (lfw_controls lf) (lm_framework_id m)))) (lfw_mappings lf)
    \<and> (\<forall>fw p. mapped (lfw_mappings lf) fw p Satisfies \<inter> mapped (lfw_mappings lf) fw p Risk = {})"
proof -
  have known: "list_all (\<lambda>m. lm_framework_id m \<in> set (bt_keys (lfw_frameworks lf))) (lfw_mappings lf)"
    using load_frameworks_crossref(1) [OF assms] by (simp add: crossref_def bt_has_iff)
  have one: "lint_unknown_controls lf i = [] \<longleftrightarrow>
      bt_sub (lfw_controls lf) i = [] \<or> set (referenced_controls lf i) \<subseteq> set (bt_keys (bt_sub (lfw_controls lf) i))" for i
    by (auto simp: lint_unknown_controls_def Let_def filter_empty_conv bt_has_iff)
  have "concat (map (lint_unknown_controls lf) (bt_keys (lfw_frameworks lf))) = [] \<longleftrightarrow>
      list_all (\<lambda>m. bt_sub (lfw_controls lf) (lm_framework_id m) = []
        \<or> (\<Union>pol. set (listed m pol)) \<subseteq> set (bt_keys (bt_sub (lfw_controls lf) (lm_framework_id m)))) (lfw_mappings lf)"
    using known unfolding concat_map_Nil one referenced_controls_mapped [OF assms] list_all_iff UN_subset_iff by blast
  then show ?thesis
    using lint_orphans_clean [OF load_frameworks_crossref(1) [OF assms], of known] lint_conflicts_clean [OF assms]
    unfolding lint_loaded_def append_is_Nil_conv lint_provides_clean by (simp only:)
qed


subsection \<open>A framework on disk\<close>

text \<open>A framework with two mapping files that both name a control, one of them also as a risk.\<close>

definition sample_framework_fs :: catalog_fs where
  "sample_framework_fs =
     \<lparr>cf_is_dir = (\<lambda>p. p = ''/f'' \<or> p = ''/f/pci'' \<or> p = ''/f/pci/mappings''),
      cf_is_file = (\<lambda>p. p = ''/f/pci/framework.toml'' \<or> p = ''/f/pci/mappings/a.toml'' \<or> p = ''/f/pci/mappings/b.toml''),
      cf_is_symlink = (\<lambda>_. False),
      cf_read_dir = (\<lambda>p. if p = ''/f'' then Ok [Ok ''pci''] else Ok [Ok ''b.toml'', Ok ''a.toml'']),
      cf_open = (\<lambda>p. Ok \<lparr>fv_reported = 9, fv_bytes = p\<rparr>),
      cf_toml = (\<lambda>_. Err [])\<rparr>"

definition sample_framework_toml :: framework_toml where
  "sample_framework_toml =
     \<lparr>ft_manifest = (\<lambda>_. Ok \<lparr>fm_id = ''pci'', fm_version = ''4'', fm_title = [], fm_dimension = ''flat'',
        fm_provides = [''crossref'']\<rparr>),
      ft_mapping = (\<lambda>t. if t = ''/f/pci/mappings/a.toml''
        then Ok [(''logs'', \<lparr>me_satisfies = [''10.1'', ''10.2''], me_risk = [], me_related = []\<rparr>)]
        else Ok [(''logs'', \<lparr>me_satisfies = [''10.2'', ''10.3''], me_risk = [''10.1''], me_related = []\<rparr>)]),
      ft_controls = (\<lambda>_. Err [])\<rparr>"

definition sample_frameworks :: "framework_error + loaded_frameworks" where
  "sample_frameworks = load_frameworks sample_framework_fs sample_framework_toml [''/none'', ''/f''] sample_os"

definition loaded_links :: "framework_error + loaded_frameworks \<Rightarrow> string list \<times> string list" where
  "loaded_links x =
     (case x of
        Ok lf \<Rightarrow> (pc_satisfies (controls_for lf ''logs'' ''pci''), permissions_for (lfw_reverse lf) Risk ''pci'' ''10.1'')
      | Err _ \<Rightarrow> ([], []))"

lemma sample_frameworks_loaded:
  obtains lf where "sample_frameworks = Ok lf" "pc_satisfies (controls_for lf ''logs'' ''pci'') = [''10.1'', ''10.2'', ''10.3'']"
    "permissions_for (lfw_reverse lf) Risk ''pci'' ''10.1'' = [''logs'']"
proof -
  have "loaded_links sample_frameworks = ([''10.1'', ''10.2'', ''10.3''], [''logs''])" by code_simp
  then show ?thesis using that by (auto simp: loaded_links_def split: sum.splits)
qed

theorem crossref_exact_witness:
  "\<exists>lf. sample_frameworks = Ok lf \<and> mapped (lfw_mappings lf) ''pci'' ''logs'' Satisfies = {''10.1'', ''10.2'', ''10.3''}
     \<and> ''10.1'' \<in> mapped (lfw_mappings lf) ''pci'' ''logs'' Risk"
proof -
  obtain lf where lf: "sample_frameworks = Ok lf" "pc_satisfies (controls_for lf ''logs'' ''pci'') = [''10.1'', ''10.2'', ''10.3'']"
    "permissions_for (lfw_reverse lf) Risk ''pci'' ''10.1'' = [''logs'']"
    by (rule sample_frameworks_loaded)
  note x = crossref_exact [OF lf(1) [unfolded sample_frameworks_def]]
  have "mapped (lfw_mappings lf) ''pci'' ''logs'' Satisfies = {''10.1'', ''10.2'', ''10.3''}"
    using x [of "''logs''" "''pci''" Satisfies] lf(2) by simp
  moreover have "''logs'' \<in> {p. ''10.1'' \<in> mapped (lfw_mappings lf) ''pci'' p Risk}"
    using x [where pol = Risk and fw = "''pci''" and c = "''10.1''" and p = "''logs''"] lf(3) by (metis list.set_intros(1))
  ultimately show ?thesis using lf(1) by auto
qed

theorem framework_lint_exact_witness:
  "\<exists>lf. sample_frameworks = Ok lf \<and> lint_loaded lf {''logs''} \<noteq> []"
proof -
  obtain lf where lf: "sample_frameworks = Ok lf" "pc_satisfies (controls_for lf ''logs'' ''pci'') = [''10.1'', ''10.2'', ''10.3'']"
    "permissions_for (lfw_reverse lf) Risk ''pci'' ''10.1'' = [''logs'']"
    by (rule sample_frameworks_loaded)
  note l = lf(1) [unfolded sample_frameworks_def]
  have "''10.1'' \<in> mapped (lfw_mappings lf) ''pci'' ''logs'' Satisfies \<inter> mapped (lfw_mappings lf) ''pci'' ''logs'' Risk"
    using controls_for_mapped(2) [OF l, of "''logs''" "''pci''" Satisfies]
      load_frameworks_reverse(2) [OF l, of "''logs''" Risk "''pci''" "''10.1''"] lf(2, 3) by auto
  then show ?thesis using framework_lint_exact [OF l, of "{''logs''}"] lf(1) by blast
qed

end
