(* ===== verification/Doctor.thy ===== *)
theory Doctor
  imports Inspect Framework
begin

text \<open>
  The read-only diagnosis (\<^verbatim>\<open>src/doctor.rs\<close>): the managed registry against the live system.  A
  message is the constructor of its format string with the values the string shows.  Errors
  are shown to be reported exactly when an invariant of the managed host is broken.
\<close>

subsection \<open>Findings\<close>

datatype severity = SevError | SevWarn

definition severity_tag :: "severity \<Rightarrow> string" where
  "severity_tag s = (case s of SevError \<Rightarrow> ''ERROR'' | SevWarn \<Rightarrow> ''WARN'')"

datatype account_difference =
  UidDiffers u32 u32
| ShellDiffers string string
| GroupsDiffer "string list" "string list"

datatype doctor_message =
  MsgVanished
| MsgDiffers "account_difference list"
| MsgSpoofedMarker
| MsgGroupVanished
| MsgGidDrift u32 u32
| MsgAdoptedGidDrift u32 u32
| MsgFragmentGone string
| MsgMemberGone string string
| MsgAclGone path
| MsgGroupAclGone path
| MsgShadowUnreadableManaged
| MsgShadowUnreadableRescue
| MsgAccountMissing
| MsgPasswordUnlocked
| MsgShadowAbsent
| MsgAuthorizedKeys
| MsgNoRescue
| MsgDrift nat nat nat
| MsgFramework string framework_message
| MsgFrameworkLoad string

record finding =
  fi_severity :: severity
  fi_check :: string
  fi_target :: string
  fi_message :: doctor_message

definition finding_of :: "severity \<Rightarrow> string \<Rightarrow> string \<Rightarrow> doctor_message \<Rightarrow> finding" where
  "finding_of sev check target message = \<lparr>fi_severity = sev, fi_check = check, fi_target = target, fi_message = message\<rparr>"

record doctor_report = dr_findings :: "finding list"

definition has_errors :: "doctor_report \<Rightarrow> bool" where
  "has_errors r \<longleftrightarrow> list_ex (\<lambda>f. fi_severity f = SevError) (dr_findings r)"

definition CHECK_REGISTRY :: string where "CHECK_REGISTRY = ''registry-integrity''"
definition CHECK_GROUP_REGISTRY :: string where "CHECK_GROUP_REGISTRY = ''group-registry-integrity''"
definition CHECK_UNREACHABLE :: string where "CHECK_UNREACHABLE = ''unreachability''"
definition CHECK_ANTILOCKOUT :: string where "CHECK_ANTILOCKOUT = ''anti-lockout''"
definition CHECK_SHADOW_UNREADABLE :: string where "CHECK_SHADOW_UNREADABLE = ''shadow-unreadable''"
definition CHECK_DRIFT :: string where "CHECK_DRIFT = ''drift''"
definition CHECK_FILE_ACCESS_DRIFT :: string where "CHECK_FILE_ACCESS_DRIFT = ''file-access-drift''"
definition CHECK_ADOPTED_GROUP_DRIFT :: string where "CHECK_ADOPTED_GROUP_DRIFT = ''adopted-group-drift''"
definition CHECK_FRAMEWORK_INTEGRITY :: string where "CHECK_FRAMEWORK_INTEGRITY = ''framework-integrity''"

lemmas check_ids =
  CHECK_REGISTRY_def CHECK_GROUP_REGISTRY_def CHECK_UNREACHABLE_def CHECK_ANTILOCKOUT_def CHECK_SHADOW_UNREADABLE_def
  CHECK_DRIFT_def CHECK_FILE_ACCESS_DRIFT_def CHECK_ADOPTED_GROUP_DRIFT_def CHECK_FRAMEWORK_INTEGRITY_def

subsection \<open>The checks\<close>

definition account_differences :: "account_facts \<Rightarrow> managed_account \<Rightarrow> account_difference list" where
  "account_differences facts rec =
     (if af_uid facts \<noteq> ma_uid rec then [UidDiffers (af_uid facts) (ma_uid rec)] else [])
     @ (if af_shell facts \<noteq> ma_shell rec then [ShellDiffers (af_shell facts) (ma_shell rec)] else [])
     @ (if length (af_groups facts) \<noteq> length (ma_groups rec) \<or> \<not> sorted_equal (af_groups facts) (ma_groups rec)
        then [GroupsDiffer (af_groups facts) (ma_groups rec)] else [])"

definition check_account :: "account_facts option \<Rightarrow> string \<Rightarrow> managed_account \<Rightarrow> finding list" where
  "check_account live nm rec =
     (case live of
        None \<Rightarrow> [finding_of SevError CHECK_REGISTRY nm MsgVanished]
      | Some facts \<Rightarrow>
          (let diffs = account_differences facts rec in
           if diffs \<noteq> [] then [finding_of SevError CHECK_REGISTRY nm (MsgDiffers diffs)] else []))"

definition check_marked :: "string list \<Rightarrow> string \<Rightarrow> finding list" where
  "check_marked managed_names marked =
     (if marked \<notin> set managed_names then [finding_of SevError CHECK_REGISTRY marked MsgSpoofedMarker] else [])"

definition check_group :: "full_inspector \<Rightarrow> string \<Rightarrow> managed_group \<Rightarrow> finding list" where
  "check_group insp nm rec =
     (case si_group insp nm of
        None \<Rightarrow> [finding_of SevError CHECK_GROUP_REGISTRY nm MsgGroupVanished]
      | Some facts \<Rightarrow>
          (case mg_gid rec of
             None \<Rightarrow> []
           | Some recorded \<Rightarrow>
               if gf_gid facts \<noteq> recorded \<and> mg_provenance rec = Created
               then [finding_of SevError CHECK_GROUP_REGISTRY nm (MsgGidDrift (gf_gid facts) recorded)] else []))"

definition check_adopted :: "full_inspector \<Rightarrow> string \<Rightarrow> managed_group \<Rightarrow> finding list" where
  "check_adopted insp nm rec =
     (if mg_provenance rec \<noteq> Adopted then []
      else (case mg_adopt_baseline rec of
          None \<Rightarrow> []
        | Some baseline \<Rightarrow>
            (case (si_group insp nm, gb_gid baseline) of
               (Some facts, Some gid) \<Rightarrow>
                 if gf_gid facts \<noteq> gid
                 then [finding_of SevWarn CHECK_ADOPTED_GROUP_DRIFT nm (MsgAdoptedGidDrift (gf_gid facts) gid)] else []
             | _ \<Rightarrow> [])
            @ (if mg_sudo_commands rec \<noteq> [] \<and> si_group_sudoers_fragment_present insp nm = Some False
               then [finding_of SevWarn CHECK_ADOPTED_GROUP_DRIFT nm (MsgFragmentGone nm)] else [])
            @ (let live = si_group_members insp nm in
               if live = [] then []
               else map (\<lambda>added. finding_of SevWarn CHECK_ADOPTED_GROUP_DRIFT nm (MsgMemberGone added nm))
                      (filter (\<lambda>added. added \<notin> set live) (mg_members_added rec)))))"

definition check_file_access :: "full_inspector \<Rightarrow> string \<Rightarrow> managed_account \<Rightarrow> finding list" where
  "check_file_access insp nm rec =
     map (\<lambda>g. finding_of SevWarn CHECK_FILE_ACCESS_DRIFT nm (MsgAclGone (mfg_path g)))
       (filter (\<lambda>g. si_file_access_present insp (mfg_path g) nm = Some False) (ma_file_grants rec))"

definition check_group_file_access :: "full_inspector \<Rightarrow> string \<Rightarrow> managed_group \<Rightarrow> finding list" where
  "check_group_file_access insp nm rec =
     map (\<lambda>g. finding_of SevWarn CHECK_FILE_ACCESS_DRIFT nm (MsgGroupAclGone (mfg_path g)))
       (filter (\<lambda>g. si_group_file_access_present insp (mfg_path g) nm = Some False) (mg_file_grants rec))"

definition check_reachable :: "full_inspector \<Rightarrow> account_facts option \<Rightarrow> string \<Rightarrow> finding list" where
  "check_reachable insp live nm =
     (case live of
        None \<Rightarrow> [finding_of SevError CHECK_UNREACHABLE nm MsgAccountMissing]
      | Some facts \<Rightarrow>
          (case si_shadow_locks insp of
             None \<Rightarrow> []
           | Some locks \<Rightarrow>
               (case bt_get locks nm of
                  Some True \<Rightarrow> []
                | Some False \<Rightarrow> [finding_of SevError CHECK_UNREACHABLE nm MsgPasswordUnlocked]
                | None \<Rightarrow> [finding_of SevError CHECK_UNREACHABLE nm MsgShadowAbsent]))
          @ (if si_has_authorized_keys insp nm (af_home facts)
             then [finding_of SevError CHECK_UNREACHABLE nm MsgAuthorizedKeys] else []))"

definition check_rescue :: "full_inspector \<Rightarrow> string list \<Rightarrow> finding list" where
  "check_rescue insp managed_names =
     (if si_shadow_locks insp = None
      then (if managed_names = [] then [finding_of SevWarn CHECK_SHADOW_UNREADABLE ''<system>'' MsgShadowUnreadableRescue] else [])
      else if si_login_capable_non_managed insp managed_names = []
      then [finding_of SevWarn CHECK_ANTILOCKOUT ''<system>'' MsgNoRescue] else [])"

definition check_drift :: "resolved_account list option \<Rightarrow> (string, managed_account) btree \<Rightarrow> finding list" where
  "check_drift targets managed =
     (case targets of
        None \<Rightarrow> []
      | Some ts \<Rightarrow>
          (let acts = pl_actions (diff ts managed) in
           if plan_is_empty (diff ts managed) then []
           else [finding_of SevWarn CHECK_DRIFT ''<declaration>''
                  (MsgDrift (length (filter (\<lambda>a. case a of ActCreate _ \<Rightarrow> True | _ \<Rightarrow> False) acts))
                     (length (filter (\<lambda>a. case a of ActUpdate _ _ \<Rightarrow> True | _ \<Rightarrow> False) acts))
                     (length (filter (\<lambda>a. case a of ActDelete _ \<Rightarrow> True | _ \<Rightarrow> False) acts)))]))"

definition run_doctor :: "registry_state \<Rightarrow> full_inspector \<Rightarrow> resolved_account list option \<Rightarrow> doctor_report" where
  "run_doctor managed insp targets =
     (let registry = rs_accounts managed; groups = rs_groups managed;
          managed_names = bt_keys registry;
          account_facts = fold (bt_memo (si_account insp)) managed_names [] in
      \<lparr>dr_findings =
         concat (map (\<lambda>(nm, rec). check_account (bt_get account_facts nm) nm rec) registry)
         @ concat (map (check_marked managed_names) (si_census_marked_accounts insp))
         @ concat (map (\<lambda>(nm, rec). check_group insp nm rec) groups)
         @ concat (map (\<lambda>(nm, rec). check_adopted insp nm rec) groups)
         @ concat (map (\<lambda>(nm, rec). check_file_access insp nm rec) registry)
         @ concat (map (\<lambda>(nm, rec). check_group_file_access insp nm rec) groups)
         @ (if si_shadow_locks insp = None \<and> registry \<noteq> []
            then [finding_of SevWarn CHECK_SHADOW_UNREADABLE ''<system>'' MsgShadowUnreadableManaged] else [])
         @ concat (map (\<lambda>(nm, _). check_reachable insp (bt_get account_facts nm) nm) registry)
         @ check_rescue insp managed_names
         @ check_drift targets registry\<rparr>)"

definition framework_findings :: "framework_lint list \<Rightarrow> finding list" where
  "framework_findings lints =
     map (\<lambda>l. finding_of SevWarn CHECK_FRAMEWORK_INTEGRITY ''<framework>'' (MsgFramework (fl_code l) (fl_message l))) lints"

definition framework_load_warning :: "string \<Rightarrow> finding" where
  "framework_load_warning message = finding_of SevWarn CHECK_FRAMEWORK_INTEGRITY ''<framework>'' (MsgFrameworkLoad message)"


subsection \<open>What the errors mean\<close>

text \<open>The invariant of a managed account on the live host, and of a managed group.\<close>

definition account_intact :: "full_inspector \<Rightarrow> string \<Rightarrow> managed_account \<Rightarrow> bool" where
  "account_intact insp nm rec \<longleftrightarrow>
     (case si_account insp nm of
        None \<Rightarrow> False
      | Some f \<Rightarrow>
          af_uid f = ma_uid rec \<and> af_shell f = ma_shell rec \<and> mset (af_groups f) = mset (ma_groups rec)
          \<and> (case si_shadow_locks insp of None \<Rightarrow> True | Some locks \<Rightarrow> bt_get locks nm = Some True)
          \<and> \<not> si_has_authorized_keys insp nm (af_home f))"

definition group_intact :: "full_inspector \<Rightarrow> string \<Rightarrow> managed_group \<Rightarrow> bool" where
  "group_intact insp nm rec \<longleftrightarrow>
     (case si_group insp nm of
        None \<Rightarrow> False
      | Some f \<Rightarrow> mg_provenance rec = Created \<longrightarrow> mg_gid rec = None \<or> mg_gid rec = Some (gf_gid f))"

definition host_intact :: "registry_state \<Rightarrow> full_inspector \<Rightarrow> bool" where
  "host_intact managed insp \<longleftrightarrow>
     (\<forall>(nm, rec)\<in>set (rs_accounts managed). account_intact insp nm rec)
     \<and> (\<forall>(nm, rec)\<in>set (rs_groups managed). group_intact insp nm rec)
     \<and> set (si_census_marked_accounts insp) \<subseteq> set (bt_keys (rs_accounts managed))"

definition erroneous :: "finding list \<Rightarrow> bool" where
  "erroneous fs \<longleftrightarrow> list_ex (\<lambda>f. fi_severity f = SevError) fs"

lemma erroneous_simps [simp]:
  "\<not> erroneous []" "erroneous (finding_of s c t m # fs) \<longleftrightarrow> s = SevError \<or> erroneous fs"
  "erroneous (fs @ gs) \<longleftrightarrow> erroneous fs \<or> erroneous gs"
  by (simp_all add: erroneous_def finding_of_def)

lemma erroneous_concat: "erroneous (concat (map f xs)) \<longleftrightarrow> (\<exists>x\<in>set xs. erroneous (f x))"
  by (induction xs) auto

lemma warnings_only [simp]: "\<not> erroneous (map (\<lambda>x. finding_of SevWarn c t (m x)) xs)"
  by (induction xs) simp_all

lemma account_differences_Nil:
  "account_differences f rec = [] \<longleftrightarrow>
     af_uid f = ma_uid rec \<and> af_shell f = ma_shell rec \<and> mset (af_groups f) = mset (ma_groups rec)"
proof -
  have "(length (af_groups f) \<noteq> length (ma_groups rec) \<or> \<not> sorted_equal (af_groups f) (ma_groups rec))
      \<longleftrightarrow> mset (af_groups f) \<noteq> mset (ma_groups rec)"
    using mset_eq_length [of "af_groups f" "ma_groups rec"] by (simp add: sorted_equal_mset) blast
  then show ?thesis unfolding account_differences_def by simp
qed

lemma account_errors:
  "erroneous (check_account (si_account insp nm) nm rec) \<or> erroneous (check_reachable insp (si_account insp nm) nm)
    \<longleftrightarrow> \<not> account_intact insp nm rec"
proof (cases "si_account insp nm")
  case (Some f)
  have "erroneous (check_account (Some f) nm rec) \<longleftrightarrow> account_differences f rec \<noteq> []"
    by (simp add: check_account_def Let_def)
  moreover have "erroneous (check_reachable insp (Some f) nm) \<longleftrightarrow>
      \<not> (case si_shadow_locks insp of None \<Rightarrow> True | Some locks \<Rightarrow> bt_get locks nm = Some True)
      \<or> si_has_authorized_keys insp nm (af_home f)"
    by (simp add: check_reachable_def split: option.split bool.split)
  ultimately show ?thesis by (simp add: Some account_intact_def account_differences_Nil) blast
qed (simp add: check_account_def check_reachable_def account_intact_def)

lemma group_errors: "erroneous (check_group insp nm rec) \<longleftrightarrow> \<not> group_intact insp nm rec"
  by (auto simp: check_group_def group_intact_def split: option.splits)

lemma advisory_checks:
  "\<not> erroneous (check_adopted insp nm g)" "\<not> erroneous (check_file_access insp nm a)"
  "\<not> erroneous (check_group_file_access insp nm g)" "\<not> erroneous (check_rescue insp ns)"
  "\<not> erroneous (check_drift targets m)"
  by (auto simp: check_adopted_def check_file_access_def check_group_file_access_def check_rescue_def check_drift_def Let_def
      split: option.splits)

lemma marked_errors: "erroneous (check_marked ns m) \<longleftrightarrow> m \<notin> set ns"
  by (simp add: check_marked_def)

lemma facts_memo:
  "nm \<in> set ns \<Longrightarrow> bt_get (fold (bt_memo f) ns []) nm = f nm"
  by (simp add: fold_bt_memo_empty)

subsection \<open>Properties\<close>

lemma doctor_errors: "has_errors (run_doctor managed insp targets) \<longleftrightarrow> \<not> host_intact managed insp"
proof -
  let ?A = "rs_accounts managed" and ?facts = "fold (bt_memo (si_account insp)) (bt_keys (rs_accounts managed)) []"
  have facts: "bt_get ?facts (fst x) = si_account insp (fst x)" if "x \<in> set ?A" for x
    using that by (intro facts_memo) (simp add: bt_keys_def)
  have acc: "(\<exists>x\<in>set ?A. erroneous (case x of (nm, rec) \<Rightarrow> check_account (bt_get ?facts nm) nm rec))
      \<or> (\<exists>x\<in>set ?A. erroneous (case x of (nm, rec) \<Rightarrow> check_reachable insp (bt_get ?facts nm) nm))
      \<longleftrightarrow> \<not> (\<forall>(nm, rec)\<in>set ?A. account_intact insp nm rec)"
    (is "?l \<longleftrightarrow> ?r")
  proof -
    have "?l \<longleftrightarrow> (\<exists>x\<in>set ?A. erroneous (check_account (si_account insp (fst x)) (fst x) (snd x))
        \<or> erroneous (check_reachable insp (si_account insp (fst x)) (fst x)))"
      using facts unfolding case_prod_unfold bex_disj_distrib by (simp cong: bex_cong)
    then show ?thesis by (simp add: account_errors case_prod_unfold)
  qed
  have grp: "(\<exists>x\<in>set (rs_groups managed). erroneous (case x of (nm, rec) \<Rightarrow> check_group insp nm rec))
      \<longleftrightarrow> \<not> (\<forall>(nm, rec)\<in>set (rs_groups managed). group_intact insp nm rec)"
    by (simp add: case_prod_unfold group_errors)
  have quiet: "\<not> (\<exists>x\<in>set xs. erroneous (case x of (nm, rec) \<Rightarrow> check_adopted insp nm rec))"
    "\<not> (\<exists>x\<in>set ys. erroneous (case x of (nm, rec) \<Rightarrow> check_file_access insp nm rec))"
    "\<not> (\<exists>x\<in>set xs. erroneous (case x of (nm, rec) \<Rightarrow> check_group_file_access insp nm rec))" for xs ys
    by (auto simp: advisory_checks)
  have "has_errors (run_doctor managed insp targets) = erroneous (dr_findings (run_doctor managed insp targets))"
    by (simp add: has_errors_def erroneous_def)
  also have "\<dots> \<longleftrightarrow> \<not> host_intact managed insp"
    unfolding run_doctor_def Let_def host_intact_def
    using acc grp
    by (simp add: erroneous_concat quiet advisory_checks marked_errors subset_iff) blast
  finally show ?thesis .
qed


text \<open>The same invariants, read off the account database.\<close>

definition db_account_intact :: "live_host \<Rightarrow> account_db \<Rightarrow> string \<Rightarrow> managed_account \<Rightarrow> bool" where
  "db_account_intact h db nm rec \<longleftrightarrow>
     (case find (\<lambda>e. pe_name e = nm) (db_passwd db) of
        None \<Rightarrow> False
      | Some e \<Rightarrow>
          pe_uid e = ma_uid rec \<and> pe_shell e = ma_shell rec
          \<and> mset (map ge_name (filter (\<lambda>g. nm \<in> set (ge_members g)) (db_group db))) = mset (ma_groups rec)
          \<and> db_locked db nm = Some True \<and> \<not> live_has_authorized_keys h nm (pe_home e))"

definition db_group_intact :: "account_db \<Rightarrow> string \<Rightarrow> managed_group \<Rightarrow> bool" where
  "db_group_intact db nm rec \<longleftrightarrow>
     (case db_group_of db nm of
        None \<Rightarrow> False
      | Some e \<Rightarrow> mg_provenance rec = Created \<longrightarrow> mg_gid rec = None \<or> mg_gid rec = Some (ge_gid e))"

definition db_intact :: "live_host \<Rightarrow> account_db \<Rightarrow> registry_state \<Rightarrow> bool" where
  "db_intact h db managed \<longleftrightarrow>
     list_all (\<lambda>(nm, rec). db_account_intact h db nm rec) (rs_accounts managed)
     \<and> list_all (\<lambda>(nm, rec). db_group_intact db nm rec) (rs_groups managed)
     \<and> list_all (\<lambda>e. db_marked e \<longrightarrow> pe_name e \<in> set (bt_keys (rs_accounts managed))) (db_passwd db)"

lemma account_intact_db:
  assumes "getent_serves h db" and "wf_db db" and "\<not> numeric nm"
  shows "account_intact (live_inspector h) nm rec = db_account_intact h db nm rec"
proof -
  obtain m where "live_shadow_locks h = Some m" "\<And>nm. bt_get m nm = db_locked db nm"
    using live_shadow_db [OF assms(1,2)] by auto
  then show ?thesis
    by (simp add: account_intact_def db_account_intact_def live_inspector_def live_account_db [OF assms] db_account_def
        split: option.split)
qed

lemma group_intact_db:
  assumes "getent_serves h db" and "wf_db db" and "\<not> numeric nm"
  shows "group_intact (live_inspector h) nm rec = db_group_intact db nm rec"
  by (simp add: group_intact_def db_group_intact_def live_inspector_def live_group_db [OF assms] split: option.split)

text \<open>
  C22: the doctor on a live host reports an error exactly when the host's account database
  breaks the registry's invariants: every recorded account exists with its UID, shell and group
  set, has a locked password and no authorized keys; every recorded group exists, with its GID
  if Census assigned it; and no account outside the registry carries a Census marker.
\<close>

theorem doctor_audits_host:
  assumes "getent_serves h db" and "wf_db db"
    and "list_all (\<lambda>nm. \<not> numeric nm) (bt_keys (rs_accounts managed) @ bt_keys (rs_groups managed))"
  shows "has_errors (run_doctor managed (live_inspector h) targets) \<longleftrightarrow> \<not> db_intact h db managed"
proof -
  have n: "\<not> numeric (fst x)" if "x \<in> set (rs_accounts managed)" for x
    using that assms(3) by (auto simp: list_all_iff bt_keys_def)
  have g: "\<not> numeric (fst x)" if "x \<in> set (rs_groups managed)" for x
    using that assms(3) by (auto simp: list_all_iff bt_keys_def)
  have "si_census_marked_accounts (live_inspector h) = map pe_name (filter db_marked (db_passwd db))"
    by (simp add: live_inspector_def live_marked_db [OF assms(1,2)])
  then show ?thesis
    unfolding doctor_errors host_intact_def db_intact_def
    using n g
    by (auto simp: case_prod_unfold list_all_iff account_intact_db [OF assms(1,2)] group_intact_db [OF assms(1,2)])
qed

definition sample_registry :: registry_state where
  "sample_registry =
     \<lparr>rs_accounts = [(''oper'', \<lparr>ma_name = ''oper'', ma_uid = 9001, ma_shell = ''/usr/sbin/nologin'', ma_groups = [''adm''],
        ma_sudo_role = None, ma_sudo_commands = [], ma_file_grants = [], ma_provenance = Created, ma_from_version = 1\<rparr>)],
      rs_groups = []\<rparr>"

theorem doctor_audits_host_witness:
  "\<not> has_errors (run_doctor sample_registry (live_inspector (db_host sample_db)) None)
   \<and> has_errors (run_doctor default_empty (live_inspector (db_host sample_db)) None)"
proof -
  have "list_all (\<lambda>nm. \<not> numeric nm) (bt_keys (rs_accounts sample_registry) @ bt_keys (rs_groups sample_registry))"
    and "list_all (\<lambda>nm. \<not> numeric nm) (bt_keys (rs_accounts default_empty) @ bt_keys (rs_groups default_empty))"
    by code_simp+
  moreover have "db_intact (db_host sample_db) sample_db sample_registry" by code_simp
  moreover have "\<not> db_intact (db_host sample_db) sample_db default_empty" by code_simp
  ultimately show ?thesis
    using doctor_audits_host [OF db_host_serves sample_db_wf] by simp
qed

text \<open>Which check a finding belongs to.\<close>

lemma finding_of_check [simp]: "fi_check (finding_of s c t m) = c" "fi_message (finding_of s c t m) = m"
  by (simp_all add: finding_of_def)

lemma check_tags:
  "f \<in> set (check_account live nm a) \<Longrightarrow> fi_check f = CHECK_REGISTRY"
  "f \<in> set (check_marked ns m) \<Longrightarrow> fi_check f = CHECK_REGISTRY"
  "f \<in> set (check_group insp nm g) \<Longrightarrow> fi_check f = CHECK_GROUP_REGISTRY"
  "f \<in> set (check_adopted insp nm g) \<Longrightarrow> fi_check f = CHECK_ADOPTED_GROUP_DRIFT"
  "f \<in> set (check_file_access insp nm a) \<Longrightarrow> fi_check f = CHECK_FILE_ACCESS_DRIFT"
  "f \<in> set (check_group_file_access insp nm g) \<Longrightarrow> fi_check f = CHECK_FILE_ACCESS_DRIFT"
  "f \<in> set (check_reachable insp live nm) \<Longrightarrow> fi_check f = CHECK_UNREACHABLE"
  "f \<in> set (check_drift targets registry) \<Longrightarrow> fi_check f = CHECK_DRIFT"
  by (auto simp: check_account_def check_marked_def check_group_def check_adopted_def check_file_access_def
      check_group_file_access_def check_reachable_def check_drift_def Let_def split: option.splits if_splits bool.splits)

text \<open>Everything but the two lines about a missing shadow database and the rescue check.\<close>

definition other_findings :: "registry_state \<Rightarrow> full_inspector \<Rightarrow> resolved_account list option \<Rightarrow> finding list \<times> finding list" where
  "other_findings managed insp targets =
     (let registry = rs_accounts managed; groups = rs_groups managed;
          account_facts = fold (bt_memo (si_account insp)) (bt_keys registry) [] in
      (concat (map (\<lambda>(nm, rec). check_account (bt_get account_facts nm) nm rec) registry)
         @ concat (map (check_marked (bt_keys registry)) (si_census_marked_accounts insp))
         @ concat (map (\<lambda>(nm, rec). check_group insp nm rec) groups)
         @ concat (map (\<lambda>(nm, rec). check_adopted insp nm rec) groups)
         @ concat (map (\<lambda>(nm, rec). check_file_access insp nm rec) registry)
         @ concat (map (\<lambda>(nm, rec). check_group_file_access insp nm rec) groups),
       concat (map (\<lambda>(nm, _). check_reachable insp (bt_get account_facts nm) nm) registry)))"

lemma run_doctor_split:
  "dr_findings (run_doctor managed insp targets) =
     fst (other_findings managed insp targets)
     @ (if si_shadow_locks insp = None \<and> rs_accounts managed \<noteq> []
        then [finding_of SevWarn CHECK_SHADOW_UNREADABLE ''<system>'' MsgShadowUnreadableManaged] else [])
     @ snd (other_findings managed insp targets)
     @ check_rescue insp (bt_keys (rs_accounts managed)) @ check_drift targets (rs_accounts managed)"
  by (simp add: run_doctor_def other_findings_def Let_def)

lemma other_tags:
  "f \<in> set (fst (other_findings managed insp targets)) \<Longrightarrow>
     fi_check f \<in> {CHECK_REGISTRY, CHECK_GROUP_REGISTRY, CHECK_ADOPTED_GROUP_DRIFT, CHECK_FILE_ACCESS_DRIFT}"
  "f \<in> set (snd (other_findings managed insp targets)) \<Longrightarrow> fi_check f = CHECK_UNREACHABLE"
  by (auto simp: other_findings_def Let_def dest: check_tags)

lemma filter_tag_Nil: "(\<And>f. f \<in> set fs \<Longrightarrow> fi_check f \<noteq> c) \<Longrightarrow> filter (\<lambda>f. fi_check f = c) fs = []"
  by (auto simp: filter_empty_conv)

lemma no_password_claim:
  assumes "si_shadow_locks insp = None" and "f \<in> set (snd (other_findings managed insp targets))"
  shows "fi_message f = MsgAccountMissing \<or> fi_message f = MsgAuthorizedKeys"
  using assms by (auto simp: other_findings_def Let_def check_reachable_def split: option.splits if_splits)

text \<open>
  without access to the shadow database the doctor makes no claim about passwords: it says
  so exactly once, raises no lockout warning, and every unreachability finding is about a
  missing account or an authorized-keys file.
\<close>

theorem doctor_degrades:
  assumes "si_shadow_locks insp = None"
  shows "length (filter (\<lambda>f. fi_check f = CHECK_SHADOW_UNREADABLE) (dr_findings (run_doctor managed insp targets))) = 1
    \<and> filter (\<lambda>f. fi_check f = CHECK_ANTILOCKOUT) (dr_findings (run_doctor managed insp targets)) = []
    \<and> list_all (\<lambda>f. fi_check f = CHECK_UNREACHABLE \<longrightarrow> fi_message f = MsgAccountMissing \<or> fi_message f = MsgAuthorizedKeys)
        (dr_findings (run_doctor managed insp targets))"
proof -
  let ?A = "fst (other_findings managed insp targets)" and ?B = "snd (other_findings managed insp targets)"
    and ?D = "check_drift targets (rs_accounts managed)"
  have none: "filter (\<lambda>f. fi_check f = c) ?A = []" "filter (\<lambda>f. fi_check f = c) ?B = []" "filter (\<lambda>f. fi_check f = c) ?D = []"
    if "c \<in> {CHECK_SHADOW_UNREADABLE, CHECK_ANTILOCKOUT}" for c
    using that other_tags [of _ managed insp targets] check_tags(8) [of _ targets "rs_accounts managed"]
    by (intro filter_tag_Nil; fastforce simp: check_ids)+
  have a: "fi_check f \<noteq> CHECK_UNREACHABLE" if "f \<in> set ?A \<or> f \<in> set ?D" for f
    using that other_tags(1) [of f managed insp targets] check_tags(8) [of f targets "rs_accounts managed"]
    by (auto simp: check_ids)
  show ?thesis
    unfolding run_doctor_split check_rescue_def
    using none [of CHECK_SHADOW_UNREADABLE] none [of CHECK_ANTILOCKOUT] a no_password_claim [OF assms, of _ managed targets] assms
    by (auto simp: list_all_iff bt_keys_def check_ids)
qed

theorem doctor_degrades_witness:
  "\<exists>insp. si_shadow_locks insp = None
    \<and> filter (\<lambda>f. fi_check f = CHECK_ANTILOCKOUT) (dr_findings (run_doctor default_empty insp None)) = []
    \<and> length (filter (\<lambda>f. fi_check f = CHECK_SHADOW_UNREADABLE) (dr_findings (run_doctor default_empty insp None))) = 1"
proof -
  let ?insp = "live_inspector \<lparr>lh_run = (\<lambda>_ _. Err IoNotFound), lh_exists = (\<lambda>_. False), lh_stat_ok = (\<lambda>_. True)\<rparr>"
  have "si_shadow_locks ?insp = None" by code_simp
  from doctor_degrades [OF this, of default_empty None] this show ?thesis by blast
qed

end
