(* ===== verification/Status.thy ===== *)
theory Status
  imports Doctor Sudoers
begin

text \<open>
  \<^verbatim>\<open>status.rs\<close>: the summary of what is managed, the version floor and the drift against a declaration.
  The drift it counts is the one the doctor reports.
\<close>

definition status_line :: "string \<times> managed_account \<Rightarrow> string" where
  "status_line e = (case e of (nm, acct) \<Rightarrow> ''  '' @ nm @ '' (from_version '' @ show_u32 (ma_from_version acct) @ '')'' @ newline)"

text \<open>How many accounts a plan creates, updates and deletes.\<close>

fun count_action :: "action \<Rightarrow> nat \<times> nat \<times> nat \<Rightarrow> nat \<times> nat \<times> nat" where
  "count_action (ActCreate _) (c, u, d) = (Suc c, u, d)"
| "count_action (ActUpdate _ _) (c, u, d) = (c, Suc u, d)"
| "count_action (ActDelete _) (c, u, d) = (c, u, Suc d)"

definition drift_line :: "plan \<Rightarrow> string" where
  "drift_line p =
     (if plan_is_empty p then ''drift: in sync'' @ newline
      else case fold count_action (pl_actions p) (0, 0, 0) of
        (creates, updates, deletes) \<Rightarrow>
          ''drift: '' @ dec creates @ '' create(s), '' @ dec updates @ '' update(s), '' @ dec deletes @ '' delete(s)'' @ newline)"

definition render_status :: "registry_state \<Rightarrow> u32 option \<Rightarrow> plan option \<Rightarrow> string" where
  "render_status managed persisted_version drift =
     (let accounts = rs_accounts managed in
      ''managed accounts:'' @ newline
      @ (if accounts = [] then ''  (none)'' @ newline else concat (map status_line accounts))
      @ (case persisted_version of
           Some v \<Rightarrow> ''declaration version (persisted): '' @ show_u32 v @ newline
         | None \<Rightarrow> ''declaration version (persisted): none'' @ newline)
      @ (case drift of Some p \<Rightarrow> drift_line p | None \<Rightarrow> []))"

lemma count_actions:
  "fold count_action acts (c, u, d) =
     (c + length (filter (\<lambda>a. case a of ActCreate _ \<Rightarrow> True | _ \<Rightarrow> False) acts),
      u + length (filter (\<lambda>a. case a of ActUpdate _ _ \<Rightarrow> True | _ \<Rightarrow> False) acts),
      d + length (filter (\<lambda>a. case a of ActDelete _ \<Rightarrow> True | _ \<Rightarrow> False) acts))"
proof (induction acts arbitrary: c u d)
  case (Cons a acts)
  then show ?case by (cases a) simp_all
qed simp

text \<open>
  The status and the doctor agree on drift: for the same targets and registry, the status says in sync
  exactly when the doctor reports no drift, and otherwise both name the same numbers.
\<close>

theorem status_agrees_with_doctor:
  "(check_drift (Some ts) managed = [] \<and> drift_line (diff ts managed) = ''drift: in sync'' @ newline)
   \<or> (\<exists>c u d. check_drift (Some ts) managed = [finding_of SevWarn CHECK_DRIFT ''<declaration>'' (MsgDrift c u d)]
        \<and> drift_line (diff ts managed) =
          ''drift: '' @ dec c @ '' create(s), '' @ dec u @ '' update(s), '' @ dec d @ '' delete(s)'' @ newline)"
proof (cases "plan_is_empty (diff ts managed)")
  case True
  then show ?thesis by (simp add: check_drift_def drift_line_def Let_def)
next
  case False
  show ?thesis unfolding drift_line_def check_drift_def count_actions using False by (intro disjI2 exI) (simp add: Let_def)
qed

end
