(* ===== verification/Exposure_Access.thy ===== *)
theory Exposure_Access
  imports Inspect
begin

text \<open>
  \<^verbatim>\<open>exposure/acl.rs\<close> and \<^verbatim>\<open>exposure/access.rs\<close>: POSIX ACLs read from \<^verbatim>\<open>getfacl\<close>, principals, and the
  discretionary access check.  The check is proved equal to the algorithm of \<open>acl(5)\<close>, stated
  on the set of entries.
\<close>

subsection \<open>Permissions and ACL entries\<close>

record acl_perms =
  perm_read :: bool
  perm_write :: bool
  perm_execute :: bool

definition PERMS_ALL :: acl_perms where
  "PERMS_ALL = \<lparr>perm_read = True, perm_write = True, perm_execute = True\<rparr>"

definition PERMS_DEFAULT :: acl_perms where
  "PERMS_DEFAULT = \<lparr>perm_read = False, perm_write = False, perm_execute = False\<rparr>"

definition rwx :: "acl_perms \<Rightarrow> string" where
  "rwx p = [if perm_read p then CHR ''r'' else CHR ''-'', if perm_write p then CHR ''w'' else CHR ''-'',
            if perm_execute p then CHR ''x'' else CHR ''-'']"

definition masked :: "acl_perms \<Rightarrow> acl_perms \<Rightarrow> acl_perms" where
  "masked p m =
     \<lparr>perm_read = (perm_read p \<and> perm_read m), perm_write = (perm_write p \<and> perm_write m),
      perm_execute = (perm_execute p \<and> perm_execute m)\<rparr>"

definition perms_union :: "acl_perms \<Rightarrow> acl_perms \<Rightarrow> acl_perms" where
  "perms_union p q =
     \<lparr>perm_read = (perm_read p \<or> perm_read q), perm_write = (perm_write p \<or> perm_write q),
      perm_execute = (perm_execute p \<or> perm_execute q)\<rparr>"

definition perms_any :: "acl_perms \<Rightarrow> bool" where
  "perms_any p \<longleftrightarrow> perm_read p \<or> perm_write p \<or> perm_execute p"

datatype acl_tag = UserObj | UserTag string | GroupObj | GroupTag string | MaskTag | OtherTag

record acl_entry =
  ae_tag :: acl_tag
  ae_perms :: acl_perms

type_synonym acl_entries = "acl_entry list"

definition is_extended :: "acl_entries \<Rightarrow> bool" where
  "is_extended es =
     list_ex (\<lambda>e. case ae_tag e of UserTag _ \<Rightarrow> True | GroupTag _ \<Rightarrow> True | MaskTag \<Rightarrow> True | _ \<Rightarrow> False) es"

subsection \<open>Reading \<open>getfacl\<close>\<close>

definition perm_bit :: "char \<Rightarrow> char \<Rightarrow> bool option" where
  "perm_bit c st = (if c = st then Some True else if c = CHR ''-'' then Some False else None)"

text \<open>
  The source reads characters; the field is a triple exactly when it is three of these bytes, since
  a character of several bytes is none of the letters.
\<close>

definition parse_perms :: "string \<Rightarrow> acl_perms option" where
  "parse_perms fld =
     (case fld of
        [r, w, x] \<Rightarrow>
          (case (perm_bit r CHR ''r'', perm_bit w CHR ''w'', perm_bit x CHR ''x'') of
             (Some r', Some w', Some x') \<Rightarrow> Some \<lparr>perm_read = r', perm_write = w', perm_execute = x'\<rparr>
           | _ \<Rightarrow> None)
      | _ \<Rightarrow> None)"

definition acl_tag_of :: "string \<Rightarrow> string \<Rightarrow> acl_tag option" where
  "acl_tag_of tag_word qual =
     (if tag_word = ''user'' \<or> tag_word = ''u'' then
        Some (if qual = [] then UserObj else UserTag qual)
      else if tag_word = ''group'' \<or> tag_word = ''g'' then
        Some (if qual = [] then GroupObj else GroupTag qual)
      else if tag_word = ''mask'' \<or> tag_word = ''m'' then Some MaskTag
      else if tag_word = ''other'' \<or> tag_word = ''o'' then Some OtherTag
      else None)"

definition parse_acl_entry :: "string \<Rightarrow> acl_entry option" where
  "parse_acl_entry line =
     (let core = trim (hd (split_on CHR ''#'' line)) in
      if core = [] then None
      else if starts_with core ''default:'' then None
      else case splitn 3 CHR '':'' core of
             [tag_word, qual, perm_field] \<Rightarrow>
               (case parse_perms perm_field of
                  None \<Rightarrow> None
                | Some perms \<Rightarrow>
                    (case acl_tag_of tag_word qual of
                       None \<Rightarrow> None
                     | Some tag \<Rightarrow> Some \<lparr>ae_tag = tag, ae_perms = perms\<rparr>))
           | _ \<Rightarrow> None)"

type_synonym dump_state = "(string \<times> acl_entries) list \<times> (string \<times> acl_entries) option"

definition dump_line :: "dump_state \<Rightarrow> string \<Rightarrow> dump_state" where
  "dump_line st line =
     (case st of (out, current) \<Rightarrow>
        let trimmed = trim_end line in
        case strip_prefix trimmed ''# file:'' of
          Some rest \<Rightarrow>
            ((case current of Some done \<Rightarrow> out @ [done] | None \<Rightarrow> out), Some (trim rest, []))
        | None \<Rightarrow>
            if trimmed = [] then st
            else case current of
                   None \<Rightarrow> st
                 | Some (p, entries) \<Rightarrow>
                     (case parse_acl_entry trimmed of
                        Some e \<Rightarrow> (out, Some (p, entries @ [e]))
                      | None \<Rightarrow> st))"

definition parse_getfacl_dump :: "string \<Rightarrow> (string \<times> acl_entries) list" where
  "parse_getfacl_dump text =
     (case foldl dump_line ([], None) (str_lines text) of
        (out, Some done) \<Rightarrow> out @ [done]
      | (out, None) \<Rightarrow> out)"

definition GETFACL_PATH_CHUNK :: nat where "GETFACL_PATH_CHUNK = 256"

text \<open>\<open>slice::chunks\<close>.\<close>

function chunks :: "nat \<Rightarrow> 'a list \<Rightarrow> 'a list list" where
  "chunks n xs = (if n = 0 \<or> xs = [] then [] else take n xs # chunks n (drop n xs))"
  by pat_completeness auto
termination by (relation "measure (\<lambda>(n, xs). length xs)") auto

declare chunks.simps [simp del]

text \<open>
  A \<open>ScanRunner\<close> gives the output of a program whatever its exit status, and may change its own
  state.
\<close>

type_synonym 'w scan_runner = "string \<Rightarrow> string list \<Rightarrow> 'w \<Rightarrow> string \<times> 'w"

record 'w getfacl_reader =
  gr_runner :: "'w scan_runner"
  gr_bin :: string

definition read_chunk ::
    "'w getfacl_reader \<Rightarrow> string list \<Rightarrow> (path \<times> acl_entries) list \<times> 'w \<Rightarrow> (path \<times> acl_entries) list \<times> 'w" where
  "read_chunk gr chunk st =
     (case st of (out, w) \<Rightarrow>
        case gr_runner gr (gr_bin gr) (''--absolute-names'' # chunk) w of
          (stdout, w') \<Rightarrow> (out @ parse_getfacl_dump (utf8_lossy stdout), w'))"

definition read_acls :: "'w getfacl_reader \<Rightarrow> string list \<Rightarrow> 'w \<Rightarrow> (path \<times> acl_entries) list \<times> 'w" where
  "read_acls gr ps w = fold (read_chunk gr) (chunks GETFACL_PATH_CHUNK ps) ([], w)"

subsection \<open>Objects and principals\<close>

datatype object_class =
  ClsCron | ClsSystemdUnit | ClsPathBinary | ClsSudoers | ClsConfig | ClsSecret | ClsSetuidBinary | ClsGeneric

definition class_as_str :: "object_class \<Rightarrow> string" where
  "class_as_str c =
     (case c of
        ClsCron \<Rightarrow> ''cron'' | ClsSystemdUnit \<Rightarrow> ''systemd-unit'' | ClsPathBinary \<Rightarrow> ''path-binary''
      | ClsSudoers \<Rightarrow> ''sudoers'' | ClsConfig \<Rightarrow> ''config'' | ClsSecret \<Rightarrow> ''secret''
      | ClsSetuidBinary \<Rightarrow> ''setuid-binary'' | ClsGeneric \<Rightarrow> ''generic'')"

record inode_record =
  ir_path :: string
  ir_uid :: u32
  ir_gid :: u32
  ir_mode :: u32
  ir_acl :: "acl_entries option"
  ir_class :: object_class

record principal_group =
  rg_name :: string
  rg_gid :: u32

record audit_principal =
  pr_name :: string
  pr_uid :: u32
  pr_groups :: "principal_group list"
  pr_home :: "path option"

definition group_name_for_gid :: "audit_principal \<Rightarrow> u32 \<Rightarrow> string option" where
  "group_name_for_gid p gid = map_option rg_name (find (\<lambda>g. rg_gid g = gid) (pr_groups p))"

definition in_named_group :: "audit_principal \<Rightarrow> string \<Rightarrow> bool" where
  "in_named_group p nm = list_ex (\<lambda>g. rg_name g = nm) (pr_groups p)"

datatype access_via = ViaOwner | ViaAclUser string | ViaAclGroup string | ViaGroup string | ViaOtherBits

definition via_label :: "access_via \<Rightarrow> string" where
  "via_label v =
     (case v of
        ViaOwner \<Rightarrow> ''owner''
      | ViaAclUser u \<Rightarrow> ''acl_user:'' @ u
      | ViaAclGroup g \<Rightarrow> ''acl_group:'' @ g
      | ViaGroup g \<Rightarrow> ''group:'' @ g
      | ViaOtherBits \<Rightarrow> ''other_bits'')"

record effective =
  eff_access :: acl_perms
  eff_via :: access_via

subsection \<open>The access check\<close>

unbundle bit_operations_syntax

definition mode_triple :: "u32 \<Rightarrow> nat \<Rightarrow> acl_perms" where
  "mode_triple mode shift =
     (let bits = drop_bit shift mode AND 7 in
      \<lparr>perm_read = bits AND 4 \<noteq> 0, perm_write = bits AND 2 \<noteq> 0, perm_execute = bits AND 1 \<noteq> 0\<rparr>)"

definition find_perms :: "acl_entries \<Rightarrow> (acl_tag \<Rightarrow> bool) \<Rightarrow> acl_perms option" where
  "find_perms acl P = map_option ae_perms (find (\<lambda>e. P (ae_tag e)) acl)"

definition acl_mask :: "acl_entries \<Rightarrow> acl_perms" where
  "acl_mask acl = (case find_perms acl (\<lambda>t. t = MaskTag) of Some p \<Rightarrow> p | None \<Rightarrow> PERMS_ALL)"

definition acl_user_obj :: "acl_entries \<Rightarrow> acl_perms option" where
  "acl_user_obj acl = find_perms acl (\<lambda>t. t = UserObj)"

definition acl_group_obj :: "acl_entries \<Rightarrow> acl_perms option" where
  "acl_group_obj acl = find_perms acl (\<lambda>t. t = GroupObj)"

definition acl_other :: "acl_entries \<Rightarrow> acl_perms option" where
  "acl_other acl = find_perms acl (\<lambda>t. t = OtherTag)"

definition acl_named_user :: "acl_entries \<Rightarrow> string \<Rightarrow> acl_perms option" where
  "acl_named_user acl nm = map_option ae_perms (find (\<lambda>e. ae_tag e = UserTag nm) acl)"

definition effective_mode :: "inode_record \<Rightarrow> audit_principal \<Rightarrow> effective" where
  "effective_mode r p =
     (if pr_uid p = ir_uid r then \<lparr>eff_access = mode_triple (ir_mode r) 6, eff_via = ViaOwner\<rparr>
      else case group_name_for_gid p (ir_gid r) of
             Some nm \<Rightarrow> \<lparr>eff_access = mode_triple (ir_mode r) 3, eff_via = ViaGroup nm\<rparr>
           | None \<Rightarrow> \<lparr>eff_access = mode_triple (ir_mode r) 0, eff_via = ViaOtherBits\<rparr>)"

definition named_group_entry :: "audit_principal \<Rightarrow> acl_entry \<Rightarrow> (access_via \<times> acl_perms) list" where
  "named_group_entry p e =
     (case ae_tag e of
        GroupTag nm \<Rightarrow> if in_named_group p nm then [(ViaAclGroup nm, ae_perms e)] else []
      | _ \<Rightarrow> [])"

definition applying_entries :: "inode_record \<Rightarrow> acl_entries \<Rightarrow> audit_principal \<Rightarrow> (access_via \<times> acl_perms) list" where
  "applying_entries r acl p =
     (case group_name_for_gid p (ir_gid r) of
        Some nm \<Rightarrow> (case acl_group_obj acl of Some perms \<Rightarrow> [(ViaGroup nm, perms)] | None \<Rightarrow> [])
      | None \<Rightarrow> [])
     @ concat (map (named_group_entry p) acl)"

text \<open>One turn of the loop over the applying entries: access, attribution, whether it is settled.\<close>

definition union_step ::
    "acl_perms \<Rightarrow> access_via \<times> acl_perms \<Rightarrow> acl_perms \<times> access_via \<times> bool \<Rightarrow> acl_perms \<times> access_via \<times> bool" where
  "union_step mk vp st =
     (case (vp, st) of ((via, perms), (access, chosen_via, granting_chosen)) \<Rightarrow>
        let m = masked perms mk in
        (perms_union access m,
         if perms_any m \<and> \<not> granting_chosen then (via, True) else (chosen_via, granting_chosen)))"

definition effective_acl :: "inode_record \<Rightarrow> acl_entries \<Rightarrow> audit_principal \<Rightarrow> effective" where
  "effective_acl r acl p =
     (let mk = acl_mask acl in
      if pr_uid p = ir_uid r then
        \<lparr>eff_access = (case acl_user_obj acl of Some a \<Rightarrow> a | None \<Rightarrow> mode_triple (ir_mode r) 6), eff_via = ViaOwner\<rparr>
      else case acl_named_user acl (pr_name p) of
             Some perms \<Rightarrow> \<lparr>eff_access = masked perms mk, eff_via = ViaAclUser (pr_name p)\<rparr>
           | None \<Rightarrow>
               (case applying_entries r acl p of
                  (first_via, x) # rest \<Rightarrow>
                    (case fold (union_step mk) ((first_via, x) # rest) (PERMS_DEFAULT, first_via, False) of
                       (access, chosen_via, _) \<Rightarrow> \<lparr>eff_access = access, eff_via = chosen_via\<rparr>)
                | [] \<Rightarrow>
                    \<lparr>eff_access = (case acl_other acl of Some a \<Rightarrow> a | None \<Rightarrow> mode_triple (ir_mode r) 0),
                     eff_via = ViaOtherBits\<rparr>))"

definition effective :: "inode_record \<Rightarrow> audit_principal \<Rightarrow> effective" where
  "effective r p =
     (if pr_uid p = 0 then \<lparr>eff_access = PERMS_ALL, eff_via = ViaOwner\<rparr>
      else case ir_acl r of
             Some acl \<Rightarrow> if is_extended acl then effective_acl r acl p else effective_mode r p
           | None \<Rightarrow> effective_mode r p)"

subsection \<open>Resolving a principal\<close>

definition push_unique_group :: "principal_group list \<Rightarrow> string \<Rightarrow> u32 \<Rightarrow> principal_group list" where
  "push_unique_group gs nm gid =
     (if list_ex (\<lambda>g. rg_gid g = gid) gs then gs else gs @ [\<lparr>rg_name = nm, rg_gid = gid\<rparr>])"

definition push_supplementary :: "full_inspector \<Rightarrow> string \<Rightarrow> principal_group list \<Rightarrow> principal_group list" where
  "push_supplementary ins gname gs =
     (case si_group ins gname of Some facts \<Rightarrow> push_unique_group gs gname (gf_gid facts) | None \<Rightarrow> gs)"

definition resolve_principal :: "full_inspector \<Rightarrow> string \<Rightarrow> audit_principal option" where
  "resolve_principal ins name_or_uid =
     (let numeric_uid = (if name_or_uid = [] then None
                         else if list_all is_ascii_digit name_or_uid then parse_u32 name_or_uid
                         else None);
          nm = (case numeric_uid of
                  None \<Rightarrow> name_or_uid
                | Some uid \<Rightarrow> (case si_account_name_by_uid ins uid of Some n \<Rightarrow> n | None \<Rightarrow> name_or_uid))
      in case si_account ins nm of
           None \<Rightarrow>
             map_option (\<lambda>uid. \<lparr>pr_name = show_u32 uid, pr_uid = uid, pr_groups = [], pr_home = None\<rparr>) numeric_uid
         | Some account \<Rightarrow>
             (let groups = (case si_primary_gid ins nm of
                              Some gid \<Rightarrow>
                                push_unique_group []
                                  (case si_group_name_by_gid ins gid of Some n \<Rightarrow> n | None \<Rightarrow> show_u32 gid) gid
                            | None \<Rightarrow> [])
              in Some \<lparr>pr_name = nm, pr_uid = af_uid account,
                       pr_groups = fold (push_supplementary ins) (af_groups account) groups,
                       pr_home = Some (af_home account)\<rparr>))"


subsection \<open>The algorithm of \<open>acl(5)\<close>\<close>

datatype acl_bit = ReadBit | WriteBit | ExecBit

fun perm_has :: "acl_bit \<Rightarrow> acl_perms \<Rightarrow> bool" where
  "perm_has ReadBit p = perm_read p"
| "perm_has WriteBit p = perm_write p"
| "perm_has ExecBit p = perm_execute p"

fun bit_index :: "acl_bit \<Rightarrow> nat" where
  "bit_index ReadBit = 2"
| "bit_index WriteBit = 1"
| "bit_index ExecBit = 0"

text \<open>An ACL the kernel accepts: every required entry once, and a mask when it is extended.\<close>

definition wf_acl :: "acl_entries \<Rightarrow> bool" where
  "wf_acl acl \<longleftrightarrow>
     distinct (map ae_tag acl) \<and> {UserObj, GroupObj, OtherTag} \<subseteq> ae_tag ` set acl
     \<and> (\<not> is_extended acl \<or> MaskTag \<in> ae_tag ` set acl)"

definition wf_inode :: "inode_record \<Rightarrow> bool" where
  "wf_inode r \<longleftrightarrow> (case ir_acl r of Some acl \<Rightarrow> wf_acl acl | None \<Rightarrow> True)"

definition entry_grants :: "acl_entries \<Rightarrow> acl_tag \<Rightarrow> acl_bit \<Rightarrow> bool" where
  "entry_grants acl t b \<longleftrightarrow> (\<exists>e \<in> set acl. ae_tag e = t \<and> perm_has b (ae_perms e))"

definition in_owning_group :: "inode_record \<Rightarrow> audit_principal \<Rightarrow> bool" where
  "in_owning_group r p \<longleftrightarrow> (\<exists>g \<in> set (pr_groups p). rg_gid g = ir_gid r)"

definition group_class :: "inode_record \<Rightarrow> audit_principal \<Rightarrow> acl_tag \<Rightarrow> bool" where
  "group_class r p t \<longleftrightarrow>
     (case t of
        GroupObj \<Rightarrow> in_owning_group r p
      | GroupTag nm \<Rightarrow> (\<exists>g \<in> set (pr_groups p). rg_name g = nm)
      | _ \<Rightarrow> False)"

definition acl_allows :: "inode_record \<Rightarrow> acl_entries \<Rightarrow> audit_principal \<Rightarrow> acl_bit \<Rightarrow> bool" where
  "acl_allows r acl p b \<longleftrightarrow>
     (if pr_uid p = ir_uid r then entry_grants acl UserObj b
      else if UserTag (pr_name p) \<in> ae_tag ` set acl then
        entry_grants acl (UserTag (pr_name p)) b \<and> entry_grants acl MaskTag b
      else if \<exists>e \<in> set acl. group_class r p (ae_tag e) then
        (\<exists>e \<in> set acl. group_class r p (ae_tag e) \<and> perm_has b (ae_perms e)) \<and> entry_grants acl MaskTag b
      else entry_grants acl OtherTag b)"

definition mode_allows :: "inode_record \<Rightarrow> audit_principal \<Rightarrow> acl_bit \<Rightarrow> bool" where
  "mode_allows r p b \<longleftrightarrow>
     bit (ir_mode r)
       (bit_index b + (if pr_uid p = ir_uid r then 6 else if in_owning_group r p then 3 else 0))"

definition posix_allows :: "inode_record \<Rightarrow> audit_principal \<Rightarrow> acl_bit \<Rightarrow> bool" where
  "posix_allows r p b \<longleftrightarrow>
     pr_uid p = 0 \<or>
     (case ir_acl r of
        Some acl \<Rightarrow> if is_extended acl then acl_allows r acl p b else mode_allows r p b
      | None \<Rightarrow> mode_allows r p b)"

lemma perm_has_simps [simp]:
  "perm_has b PERMS_ALL"
  "\<not> perm_has b PERMS_DEFAULT"
  "perm_has b (masked p m) \<longleftrightarrow> perm_has b p \<and> perm_has b m"
  "perm_has b (perms_union p q) \<longleftrightarrow> perm_has b p \<or> perm_has b q"
  by (cases b; simp add: PERMS_ALL_def PERMS_DEFAULT_def masked_def perms_union_def)+

lemma perms_any_iff: "perms_any p \<longleftrightarrow> (\<exists>b. perm_has b p)"
  unfolding perms_any_def by (metis acl_bit.exhaust perm_has.simps)

lemma and_pow2_iff: "(w :: u32) AND 2 ^ n \<noteq> 0 \<longleftrightarrow> bit w n"
  by (simp add: and_exp_eq_0_iff_not_bit)

lemma mode_triple_bit: "perm_has b (mode_triple m s) \<longleftrightarrow> bit m (bit_index b + s)"
proof -
  have seven: "drop_bit s m AND 7 = take_bit 3 (drop_bit s m)"
    by (simp add: take_bit_eq_mask mask_eq_exp_minus_1)
  have "bit (drop_bit s m AND 7) (bit_index b) \<longleftrightarrow> bit m (bit_index b + s)"
    unfolding seven by (cases b) (simp_all add: bit_simps add.commute)
  then show ?thesis
    using and_pow2_iff [of "drop_bit s m AND 7" 0] and_pow2_iff [of "drop_bit s m AND 7" 1]
      and_pow2_iff [of "drop_bit s m AND 7" 2]
    by (cases b) (simp_all add: mode_triple_def Let_def)
qed

lemma find_tag:
  "distinct (map ae_tag acl) \<Longrightarrow> find (\<lambda>e. ae_tag e = t) acl = Some e \<longleftrightarrow> e \<in> set acl \<and> ae_tag e = t"
  by (induction acl) (auto simp: rev_image_eqI)

lemma find_perms_tag:
  assumes "distinct (map ae_tag acl)"
  shows "find_perms acl (\<lambda>x. x = t) = Some q \<Longrightarrow> perm_has b q \<longleftrightarrow> entry_grants acl t b"
    and "find_perms acl (\<lambda>x. x = t) = None \<longleftrightarrow> t \<notin> ae_tag ` set acl"
proof -
  assume "find_perms acl (\<lambda>x. x = t) = Some q"
  then obtain e where e: "find (\<lambda>e. ae_tag e = t) acl = Some e" "q = ae_perms e" by (auto simp: find_perms_def)
  have "e' = e" if "e' \<in> set acl" "ae_tag e' = t" for e'
    using that e(1) find_tag [OF assms, of t e'] by simp
  then show "perm_has b q \<longleftrightarrow> entry_grants acl t b"
    using e find_tag [OF assms, of t e] by (auto simp: entry_grants_def)
next
  show "find_perms acl (\<lambda>x. x = t) = None \<longleftrightarrow> t \<notin> ae_tag ` set acl"
    by (auto simp: find_perms_def find_None_iff)
qed

lemma group_name_for_gid_Some: "group_name_for_gid p gid = Some nm \<Longrightarrow> \<exists>g \<in> set (pr_groups p). rg_gid g = gid \<and> rg_name g = nm"
  by (auto simp: group_name_for_gid_def dest: find_SomeD)

lemma group_name_for_gid_iff: "(group_name_for_gid p (ir_gid r) = None) \<longleftrightarrow> \<not> in_owning_group r p"
  by (auto simp: group_name_for_gid_def in_owning_group_def find_None_iff)

lemma in_named_group_iff: "in_named_group p nm \<longleftrightarrow> (\<exists>g \<in> set (pr_groups p). rg_name g = nm)"
  by (auto simp: in_named_group_def list_ex_iff)


text \<open>The entry an attribution credits, and what an attribution says of the principal.\<close>

fun via_tag :: "access_via \<Rightarrow> acl_tag" where
  "via_tag ViaOwner = UserObj"
| "via_tag (ViaAclUser u) = UserTag u"
| "via_tag (ViaAclGroup g) = GroupTag g"
| "via_tag (ViaGroup g) = GroupObj"
| "via_tag ViaOtherBits = OtherTag"

definition via_concerns :: "inode_record \<Rightarrow> audit_principal \<Rightarrow> access_via \<Rightarrow> bool" where
  "via_concerns r p v \<longleftrightarrow>
     (case v of
        ViaOwner \<Rightarrow> pr_uid p = 0 \<or> pr_uid p = ir_uid r
      | ViaAclUser u \<Rightarrow> u = pr_name p
      | ViaAclGroup n \<Rightarrow> (\<exists>g \<in> set (pr_groups p). rg_name g = n)
      | ViaGroup n \<Rightarrow> (\<exists>g \<in> set (pr_groups p). rg_gid g = ir_gid r \<and> rg_name g = n)
      | ViaOtherBits \<Rightarrow> True)"

text \<open>With an extended ACL, the credited entry alone grants some of the access, if there is any.\<close>

definition via_explains :: "inode_record \<Rightarrow> audit_principal \<Rightarrow> effective \<Rightarrow> bool" where
  "via_explains r p eff \<longleftrightarrow>
     via_concerns r p (eff_via eff)
     \<and> (case ir_acl r of
          Some acl \<Rightarrow>
            pr_uid p = 0 \<or> \<not> is_extended acl \<or> \<not> perms_any (eff_access eff)
            \<or> (\<exists>b \<in> {ReadBit, WriteBit, ExecBit}. perm_has b (eff_access eff) \<and> entry_grants acl (via_tag (eff_via eff)) b)
        | None \<Rightarrow> True)"

lemma applying_sound:
  assumes "(v, q) \<in> set (applying_entries r acl p)"
  shows "via_concerns r p v \<and> group_class r p (via_tag v) \<and> (\<exists>e \<in> set acl. ae_tag e = via_tag v \<and> ae_perms e = q)"
proof -
  from assms consider
      nm where "group_name_for_gid p (ir_gid r) = Some nm" "acl_group_obj acl = Some q" "v = ViaGroup nm"
    | e where "e \<in> set acl" "(v, q) \<in> set (named_group_entry p e)"
    by (cases "group_name_for_gid p (ir_gid r)"; cases "acl_group_obj acl") (auto simp: applying_entries_def)
  then show ?thesis
  proof cases
    case 1
    then have "in_owning_group r p" using group_name_for_gid_iff [of p r] by simp
    moreover obtain e where "e \<in> set acl" "ae_tag e = GroupObj" "ae_perms e = q"
      using 1(2) by (auto simp: acl_group_obj_def find_perms_def dest: find_SomeD)
    ultimately show ?thesis
      using 1 group_name_for_gid_Some [OF 1(1)] by (auto simp: via_concerns_def group_class_def)
  next
    case 2
    then show ?thesis
      by (auto simp: named_group_entry_def via_concerns_def group_class_def in_named_group_iff
          split: acl_tag.splits if_splits)
  qed
qed

lemma applying_complete:
  assumes "distinct (map ae_tag acl)" and "e \<in> set acl" and "group_class r p (ae_tag e)"
  shows "\<exists>v. (v, ae_perms e) \<in> set (applying_entries r acl p)"
proof (cases "ae_tag e")
  case GroupObj
  then have "acl_group_obj acl = Some (ae_perms e)"
    using find_tag [OF assms(1), of GroupObj e] assms(2) by (simp add: acl_group_obj_def find_perms_def)
  moreover obtain nm where "group_name_for_gid p (ir_gid r) = Some nm"
    using assms(3) GroupObj group_name_for_gid_iff [of p r] by (auto simp: group_class_def)
  ultimately show ?thesis by (auto simp: applying_entries_def)
next
  case (GroupTag nm)
  then have "(ViaAclGroup nm, ae_perms e) \<in> set (named_group_entry p e)"
    using assms(3) by (simp add: named_group_entry_def group_class_def in_named_group_iff)
  then show ?thesis using assms(2) by (auto simp: applying_entries_def)
qed (use assms(3) in \<open>simp_all add: group_class_def\<close>)

lemma union_step_fold:
  assumes "fold (union_step mk) xs (a, v, g) = (a', v', g')"
  shows "(perm_has b a' \<longleftrightarrow> perm_has b a \<or> (\<exists>(u, q) \<in> set xs. perm_has b (masked q mk)))
    \<and> (v' = v \<and> g' = g \<and> (g \<or> (\<forall>(u, q) \<in> set xs. \<not> perms_any (masked q mk)))
       \<or> g' \<and> (\<exists>q. (v', q) \<in> set xs \<and> perms_any (masked q mk)))"
  using assms
proof (induction xs arbitrary: a v g)
  case (Cons x xs)
  obtain u q where x: "x = (u, q)" by (cases x)
  let ?m = "masked q mk"
  have step: "union_step mk x (a, v, g) = (perms_union a ?m, if perms_any ?m \<and> \<not> g then (u, True) else (v, g))"
    by (simp add: x union_step_def Let_def)
  show ?case
  proof (cases "perms_any ?m \<and> \<not> g")
    case True
    then have "fold (union_step mk) xs (perms_union a ?m, u, True) = (a', v', g')"
      using Cons.prems step by simp
    from Cons.IH [OF this] show ?thesis using True x by auto
  next
    case False
    then have "fold (union_step mk) xs (perms_union a ?m, v, g) = (a', v', g')"
      using Cons.prems step by (simp only: fold.simps comp_apply if_False)
    from Cons.IH [OF this] show ?thesis using False x by auto
  qed
qed auto


lemma entry_grantsI: "e \<in> set acl \<Longrightarrow> perm_has b (ae_perms e) \<Longrightarrow> entry_grants acl (ae_tag e) b"
  by (auto simp: entry_grants_def)

lemma mask_bit:
  assumes "wf_acl acl" and "is_extended acl"
  shows "perm_has b (acl_mask acl) \<longleftrightarrow> entry_grants acl MaskTag b"
proof -
  have d: "distinct (map ae_tag acl)" and m: "MaskTag \<in> ae_tag ` set acl" using assms by (auto simp: wf_acl_def)
  then obtain q where "find_perms acl (\<lambda>t. t = MaskTag) = Some q" using find_perms_tag(2) [OF d, of MaskTag] by auto
  then show ?thesis using find_perms_tag(1) [OF d] by (simp add: acl_mask_def)
qed

lemma required_entry:
  assumes "wf_acl acl" and "t \<in> {UserObj, GroupObj, OtherTag}"
  obtains q where "find_perms acl (\<lambda>x. x = t) = Some q" "\<And>b. perm_has b q \<longleftrightarrow> entry_grants acl t b"
proof -
  have d: "distinct (map ae_tag acl)" using assms by (auto simp: wf_acl_def)
  obtain q where q: "find_perms acl (\<lambda>x. x = t) = Some q"
    using assms find_perms_tag(2) [OF d, of t] by (cases "find_perms acl (\<lambda>x. x = t)") (auto simp: wf_acl_def)
  show ?thesis by (rule that [OF q]) (rule find_perms_tag(1) [OF d q])
qed

text \<open>The group class: the union of the entries that apply, under the mask.\<close>

lemma effective_acl_group:
  assumes wf: "wf_acl acl" and ext: "is_extended acl"
    and other: "pr_uid p \<noteq> ir_uid r" and none: "acl_named_user acl (pr_name p) = None"
    and ap: "applying_entries r acl p \<noteq> []"
  defines "eff \<equiv> effective_acl r acl p"
  shows "perm_has b (eff_access eff) \<longleftrightarrow>
      (\<exists>e \<in> set acl. group_class r p (ae_tag e) \<and> perm_has b (ae_perms e)) \<and> entry_grants acl MaskTag b"
    and "via_concerns r p (eff_via eff)"
    and "perms_any (eff_access eff) \<Longrightarrow> \<exists>b. perm_has b (eff_access eff) \<and> entry_grants acl (via_tag (eff_via eff)) b"
proof -
  have d: "distinct (map ae_tag acl)" using wf by (simp add: wf_acl_def)
  let ?xs = "applying_entries r acl p"
  obtain first x rest where xs: "?xs = (first, x) # rest" using ap by (cases ?xs) auto
  obtain a v g where f: "fold (union_step (acl_mask acl)) ?xs (PERMS_DEFAULT, first, False) = (a, v, g)"
    by (cases "fold (union_step (acl_mask acl)) ?xs (PERMS_DEFAULT, first, False)")
  have eff: "eff = \<lparr>eff_access = a, eff_via = v\<rparr>"
    unfolding eff_def effective_acl_def Let_def using other none f by (simp only: xs if_False option.case list.case prod.case)
  note F = union_step_fold [OF f]
  have bits: "perm_has c a \<longleftrightarrow> (\<exists>(u, q) \<in> set ?xs. perm_has c q \<and> perm_has c (acl_mask acl))" for c
    using F [of c] by simp
  have "(\<exists>(u, q) \<in> set ?xs. perm_has c q) \<longleftrightarrow> (\<exists>e \<in> set acl. group_class r p (ae_tag e) \<and> perm_has c (ae_perms e))" for c
  proof
    assume "\<exists>(u, q) \<in> set ?xs. perm_has c q"
    then obtain u q where "(u, q) \<in> set ?xs" "perm_has c q" by auto
    with applying_sound [OF this(1)] show "\<exists>e \<in> set acl. group_class r p (ae_tag e) \<and> perm_has c (ae_perms e)" by metis
  next
    assume "\<exists>e \<in> set acl. group_class r p (ae_tag e) \<and> perm_has c (ae_perms e)"
    then obtain e where e: "e \<in> set acl" "group_class r p (ae_tag e)" "perm_has c (ae_perms e)" by auto
    from applying_complete [OF d e(1, 2)] obtain v where "(v, ae_perms e) \<in> set ?xs" ..
    with e(3) show "\<exists>(u, q) \<in> set ?xs. perm_has c q" by auto
  qed
  then show "perm_has b (eff_access eff) \<longleftrightarrow>
      (\<exists>e \<in> set acl. group_class r p (ae_tag e) \<and> perm_has b (ae_perms e)) \<and> entry_grants acl MaskTag b"
    using bits [of b] mask_bit [OF wf ext, of b] by (auto simp: eff)
  have v_in: "\<exists>q. (v, q) \<in> set ?xs" using F [of ReadBit] xs by auto
  then show "via_concerns r p (eff_via eff)" using applying_sound by (auto simp: eff)
  assume "perms_any (eff_access eff)"
  then obtain c where "perm_has c a" by (auto simp: eff perms_any_iff)
  then have "\<not> (\<forall>(u, q) \<in> set ?xs. \<not> perms_any (masked q (acl_mask acl)))"
    using bits [of c] by (auto simp: perms_any_iff)
  then obtain q where q: "(v, q) \<in> set ?xs" "perms_any (masked q (acl_mask acl))" using F [of ReadBit] by auto
  then obtain c where c: "perm_has c q" "perm_has c (acl_mask acl)" by (auto simp: perms_any_iff)
  then have "perm_has c a" using bits [of c] q(1) by auto
  moreover have "entry_grants acl (via_tag v) c" using applying_sound [OF q(1)] c(1) by (auto simp: entry_grants_def)
  ultimately show "\<exists>b. perm_has b (eff_access eff) \<and> entry_grants acl (via_tag (eff_via eff)) b" by (auto simp: eff)
qed


lemma applying_Nil: "distinct (map ae_tag acl) \<Longrightarrow>
    applying_entries r acl p = [] \<longleftrightarrow> \<not> (\<exists>e \<in> set acl. group_class r p (ae_tag e))"
proof
  assume "distinct (map ae_tag acl)" "applying_entries r acl p = []"
  then show "\<not> (\<exists>e \<in> set acl. group_class r p (ae_tag e))" using applying_complete by fastforce
next
  assume *: "\<not> (\<exists>e \<in> set acl. group_class r p (ae_tag e))"
  have "(v, q) \<notin> set (applying_entries r acl p)" for v q
    using * applying_sound [of v q r acl p] by (metis (no_types))
  then show "applying_entries r acl p = []" by (metis list.set_intros(1) neq_Nil_conv surj_pair)
qed

lemma perms_any_bits: "perms_any p \<longleftrightarrow> (\<exists>b \<in> {ReadBit, WriteBit, ExecBit}. perm_has b p)"
  by (simp add: perms_any_def)

lemma bit_cases: "(\<exists>b. P b) \<longleftrightarrow> (\<exists>b \<in> {ReadBit, WriteBit, ExecBit}. P b)"
  by (metis acl_bit.exhaust insertCI)

lemma effective_acl_correct:
  fixes r :: inode_record and p :: audit_principal
  assumes wf: "wf_acl acl" and ext: "is_extended acl"
  defines "eff \<equiv> effective_acl r acl p"
  shows "(perm_has b (eff_access eff) \<longleftrightarrow> acl_allows r acl p b) \<and> via_concerns r p (eff_via eff)
    \<and> (perms_any (eff_access eff) \<longrightarrow> (\<exists>b. perm_has b (eff_access eff) \<and> entry_grants acl (via_tag (eff_via eff)) b))"
proof -
  have d: "distinct (map ae_tag acl)" using wf by (simp add: wf_acl_def)
  obtain uo where uo: "acl_user_obj acl = Some uo" "\<And>b. perm_has b uo \<longleftrightarrow> entry_grants acl UserObj b"
    using required_entry [OF wf, of UserObj] by (auto simp: acl_user_obj_def)
  obtain oo where oo: "acl_other acl = Some oo" "\<And>b. perm_has b oo \<longleftrightarrow> entry_grants acl OtherTag b"
    using required_entry [OF wf, of OtherTag] by (auto simp: acl_other_def)
  have nu: "acl_named_user acl n = find_perms acl (\<lambda>t. t = UserTag n)" for n
    by (simp add: acl_named_user_def find_perms_def)
  consider (owner) "pr_uid p = ir_uid r"
    | (user) q where "pr_uid p \<noteq> ir_uid r" "acl_named_user acl (pr_name p) = Some q"
    | (gclass) "pr_uid p \<noteq> ir_uid r" "acl_named_user acl (pr_name p) = None" "applying_entries r acl p \<noteq> []"
    | (rest) "pr_uid p \<noteq> ir_uid r" "acl_named_user acl (pr_name p) = None" "applying_entries r acl p = []"
    by (cases "acl_named_user acl (pr_name p)") auto
  then show ?thesis
  proof cases
    case owner
    then show ?thesis
      by (simp add: eff_def effective_acl_def Let_def uo acl_allows_def via_concerns_def perms_any_iff)
  next
    case user
    then have t: "UserTag (pr_name p) \<in> ae_tag ` set acl"
      using find_perms_tag(2) [OF d, of "UserTag (pr_name p)"] by (auto simp: nu)
    have "perm_has b q \<longleftrightarrow> entry_grants acl (UserTag (pr_name p)) b" for b
      using find_perms_tag(1) [OF d] user(2) by (simp add: nu)
    then show ?thesis using user t
      by (auto simp: eff_def effective_acl_def Let_def acl_allows_def via_concerns_def perms_any_iff mask_bit [OF wf ext])
  next
    case gclass
    then have t: "UserTag (pr_name p) \<notin> ae_tag ` set acl"
      using find_perms_tag(2) [OF d, of "UserTag (pr_name p)"] by (simp add: nu)
    note G = effective_acl_group [OF wf ext gclass, folded eff_def]
    have "\<exists>e \<in> set acl. group_class r p (ae_tag e)" using gclass applying_Nil [OF d, of r p] by auto
    then have "acl_allows r acl p b \<longleftrightarrow> perm_has b (eff_access eff)"
      unfolding acl_allows_def using gclass(1) t G(1) [of b] by (simp only: if_False if_True)
    then show ?thesis using G(2, 3) by blast
  next
    case rest
    then have "UserTag (pr_name p) \<notin> ae_tag ` set acl"
      using find_perms_tag(2) [OF d, of "UserTag (pr_name p)"] by (simp add: nu)
    moreover have "\<not> (\<exists>e \<in> set acl. group_class r p (ae_tag e))" using rest applying_Nil [OF d] by blast
    ultimately show ?thesis
      unfolding acl_allows_def eff_def effective_acl_def Let_def
      using rest oo by (auto simp: via_concerns_def perms_any_iff)
  qed
qed

lemma effective_mode_correct:
  "(perm_has b (eff_access (effective_mode r p)) \<longleftrightarrow> mode_allows r p b) \<and> via_concerns r p (eff_via (effective_mode r p))"
  using group_name_for_gid_iff [of p r]
  by (auto simp: effective_mode_def mode_allows_def mode_triple_bit via_concerns_def split: option.splits
      dest: group_name_for_gid_Some)

lemma effective_correct:
  assumes "wf_inode r"
  shows "(perm_has b (eff_access (effective r p)) \<longleftrightarrow> posix_allows r p b) \<and> via_explains r p (effective r p)"
proof (cases "pr_uid p = 0")
  case True
  then show ?thesis
    by (simp add: effective_def posix_allows_def via_explains_def via_concerns_def split: option.splits)
next
  case root: False
  show ?thesis
  proof (cases "ir_acl r")
    case None
    then show ?thesis using root effective_mode_correct [of b r p]
      by (simp add: effective_def posix_allows_def via_explains_def)
  next
    case (Some acl)
    with assms have wf: "wf_acl acl" by (simp add: wf_inode_def)
    show ?thesis
    proof (cases "is_extended acl")
      case True
      from effective_acl_correct [OF wf True, of b r p] show ?thesis
        using root True unfolding bit_cases
        by (simp add: Some effective_def posix_allows_def via_explains_def)
    next
      case False
      then show ?thesis using root effective_mode_correct [of b r p]
        by (simp add: Some effective_def posix_allows_def via_explains_def)
    qed
  qed
qed


text \<open>
  C29: The access check is the algorithm of \<open>acl(5)\<close>.  On an inode whose ACL, if it has one, the
  kernel could have stored, the principal is granted a bit exactly when the entry of the class
  that matches first (owner, named user, the union of the group class, others) grants it under
  the mask, or when the mode bits of its class do where there is no extended ACL; uid 0 has every
  bit.  The reported reason names an identity the principal has, and the entry it credits grants
  part of the access.
\<close>

theorem effective_posix:
  assumes "wf_inode r"
  shows "(perm_has b (eff_access (effective r p)) \<longleftrightarrow> posix_allows r p b) \<and> via_explains r p (effective r p)"
  by (rule effective_correct [OF assms])

definition sample_acl :: acl_entries where
  "sample_acl =
     [\<lparr>ae_tag = UserObj, ae_perms = PERMS_ALL\<rparr>,
      \<lparr>ae_tag = GroupObj, ae_perms = PERMS_DEFAULT\<rparr>,
      \<lparr>ae_tag = GroupTag ''app'', ae_perms = PERMS_ALL\<rparr>,
      \<lparr>ae_tag = MaskTag, ae_perms = \<lparr>perm_read = True, perm_write = True, perm_execute = False\<rparr>\<rparr>,
      \<lparr>ae_tag = OtherTag, ae_perms = PERMS_DEFAULT\<rparr>]"

definition sample_inode :: inode_record where
  "sample_inode =
     \<lparr>ir_path = ''/srv/app'', ir_uid = 0, ir_gid = 50, ir_mode = 33264, ir_acl = Some sample_acl,
      ir_class = ClsGeneric\<rparr>"

definition sample_principal :: audit_principal where
  "sample_principal =
     \<lparr>pr_name = ''svc'', pr_uid = 5012, pr_groups = [\<lparr>rg_name = ''staff'', rg_gid = 50\<rparr>, \<lparr>rg_name = ''app'', rg_gid = 60\<rparr>],
      pr_home = Some ''/home/svc''\<rparr>"

lemma sample_inode_wf: "wf_inode sample_inode"
  by code_simp

theorem effective_posix_witness:
  "posix_allows sample_inode sample_principal WriteBit
   \<and> perm_has WriteBit (eff_access (effective sample_inode sample_principal))
   \<and> \<not> perm_has ExecBit (eff_access (effective sample_inode sample_principal))
   \<and> via_explains sample_inode sample_principal (effective sample_inode sample_principal)
   \<and> eff_via (effective sample_inode sample_principal) = ViaAclGroup ''app''"
proof -
  have w: "posix_allows sample_inode sample_principal WriteBit" by code_simp
  have x: "\<not> posix_allows sample_inode sample_principal ExecBit" by code_simp
  have v: "eff_via (effective sample_inode sample_principal) = ViaAclGroup ''app''" by code_simp
  show ?thesis
    using w x v effective_posix [OF sample_inode_wf, of WriteBit sample_principal]
      effective_posix [OF sample_inode_wf, of ExecBit sample_principal] by simp
qed

subsection \<open>What \<open>getfacl\<close> prints reads back\<close>

definition tag_text :: "acl_tag \<Rightarrow> string" where
  "tag_text t =
     (case t of
        UserObj \<Rightarrow> ''user::'' | UserTag u \<Rightarrow> ''user:'' @ u @ '':''
      | GroupObj \<Rightarrow> ''group::'' | GroupTag g \<Rightarrow> ''group:'' @ g @ '':''
      | MaskTag \<Rightarrow> ''mask::'' | OtherTag \<Rightarrow> ''other::'')"

text \<open>An entry that the mask narrows carries a comment with its effective permissions.\<close>

definition entry_comment :: "acl_entries \<Rightarrow> acl_entry \<Rightarrow> string" where
  "entry_comment acl e =
     (let eff = masked (ae_perms e) (acl_mask acl) in
      if ae_tag e \<in> {UserObj, MaskTag, OtherTag} \<or> eff = ae_perms e then []
      else CHR 0x09 # ''#effective:'' @ rwx eff)"

definition entry_line :: "acl_entries \<Rightarrow> acl_entry \<Rightarrow> string" where
  "entry_line acl e = tag_text (ae_tag e) @ rwx (ae_perms e) @ entry_comment acl e"

record file_acl =
  fa_owner :: string
  fa_group :: string
  fa_entries :: acl_entries

definition dump_record :: "path \<Rightarrow> file_acl \<Rightarrow> string list" where
  "dump_record p f =
     [''# file: '' @ p, ''# owner: '' @ fa_owner f, ''# group: '' @ fa_group f]
     @ map (entry_line (fa_entries f)) (fa_entries f) @ [[]]"

definition dump_lines :: "(path \<Rightarrow> file_acl option) \<Rightarrow> path list \<Rightarrow> string list" where
  "dump_lines db ps = concat (map (\<lambda>p. case db p of Some f \<Rightarrow> dump_record p f | None \<Rightarrow> []) ps)"

text \<open>The program prints a record for each path it can read and leaves the others out.\<close>

definition getfacl_serves :: "'w getfacl_reader \<Rightarrow> (path \<Rightarrow> file_acl option) \<Rightarrow> bool" where
  "getfacl_serves gr db \<longleftrightarrow>
     (\<forall>ps w. gr_runner gr (gr_bin gr) (''--absolute-names'' # ps) w = (text_of (dump_lines db ps), w))"

definition plain_qual :: "string \<Rightarrow> bool" where
  "plain_qual q \<longleftrightarrow> q \<noteq> [] \<and> line_ok q \<and> CHR '':'' \<notin> set q \<and> CHR ''#'' \<notin> set q"

definition plain_entry :: "acl_entry \<Rightarrow> bool" where
  "plain_entry e = (case ae_tag e of UserTag u \<Rightarrow> plain_qual u | GroupTag g \<Rightarrow> plain_qual g | _ \<Rightarrow> True)"

definition plain_path :: "path \<Rightarrow> bool" where
  "plain_path p \<longleftrightarrow> line_ok p \<and> starts_with p ''/'' \<and> ws_suffix_len p = 0"

definition plain_file :: "file_acl \<Rightarrow> bool" where
  "plain_file f \<longleftrightarrow> line_ok (fa_owner f) \<and> line_ok (fa_group f) \<and> list_all plain_entry (fa_entries f)"

definition plain_tree :: "(path \<Rightarrow> file_acl option) \<Rightarrow> path list \<Rightarrow> bool" where
  "plain_tree db ps = list_all (\<lambda>p. plain_path p \<and> (case db p of Some f \<Rightarrow> plain_file f | None \<Rightarrow> True)) ps"


lemma rwx_back: "parse_perms (rwx p) = Some p"
  by (cases p) (simp add: parse_perms_def rwx_def perm_bit_def)

lemma rwx_shape:
  "set (rwx p) \<subseteq> {CHR ''r'', CHR ''w'', CHR ''x'', CHR ''-''}" "length (rwx p) = 3" "rwx p \<noteq> []"
  "last (rwx p) \<in> {CHR ''x'', CHR ''-''}"
  by (auto simp: rwx_def)

text \<open>Trimming stops at an ASCII character that is no white space.\<close>

definition solid :: "char \<Rightarrow> bool" where
  "solid c \<longleftrightarrow> 33 \<le> byte c \<and> byte c < 128"

lemma ws_len_solid: "solid c \<Longrightarrow> ws_len (c # s) = 0"
  by (auto simp: ws_len_def solid_def split: list.splits)

lemma ws_len_low: "ws_len s = Suc (Suc n) \<Longrightarrow> list_all (\<lambda>c. 128 \<le> byte c) (take (Suc (Suc n)) s)"
  by (cases s; cases "tl s"; cases "tl (tl s)") (auto simp: ws_len_def split: if_splits)

lemma ws_suffix_zeroI:
  assumes "\<And>k. 1 \<le> k \<Longrightarrow> k \<le> 3 \<Longrightarrow> k \<le> length s \<Longrightarrow> ws_len (drop (length s - k) s) \<noteq> k"
  shows "ws_suffix_len s = 0"
  using assms [of 1] assms [of 2] assms [of 3] by (auto simp: ws_suffix_len_def Suc_le_eq)

lemma ws_suffix_solid:
  assumes "solid c"
  shows "ws_suffix_len (s @ [c]) = 0"
proof -
  have one: "ws_len (drop (length (s @ [c]) - 1) (s @ [c])) = 0" using ws_len_solid [OF assms] by simp
  have more: "ws_len (drop (length (s @ [c]) - k) (s @ [c])) \<noteq> k" if "2 \<le> k" "k \<le> length (s @ [c])" for k
  proof
    assume eq: "ws_len (drop (length (s @ [c]) - k) (s @ [c])) = k"
    obtain n where k: "k = Suc (Suc n)" using \<open>2 \<le> k\<close> by (metis Suc_le_D numeral_2_eq_2 Suc_le_mono)
    let ?t = "drop (length (s @ [c]) - k) (s @ [c])"
    have "length ?t = k" using that by simp
    then have "take k ?t = ?t" by simp
    then have "list_all (\<lambda>c. 128 \<le> byte c) ?t" using ws_len_low [of ?t n] eq k by simp
    moreover have "last ?t = c" "?t \<noteq> []" using that by (simp_all add: last_drop)
    ultimately show False using assms by (metis last_in_set leD list_all_iff solid_def)
  qed
  show ?thesis
  proof (rule ws_suffix_zeroI)
    fix k
    assume "1 \<le> k" "k \<le> length (s @ [c])"
    then show "ws_len (drop (length (s @ [c]) - k) (s @ [c])) \<noteq> k" using one more [of k] by (cases "k = 1") simp_all
  qed
qed

lemma trim_end_solid: "solid c \<Longrightarrow> trim_end (s @ [c]) = s @ [c]"
  by (simp add: ws_suffix_solid)

lemma trim_start_solid: "solid c \<Longrightarrow> trim_start (c # s) = c # s"
  by (simp add: ws_len_solid)

lemma ws_suffix_prefixed:
  assumes "ws_suffix_len (c # p) = 0" and "byte c < 128"
  shows "ws_suffix_len (s @ c # p) = 0"
proof -
  have *: "ws_len (drop (length (s @ c # p) - k) (s @ c # p)) \<noteq> k" if kk: "1 \<le> k" "k \<le> 3" "k \<le> length (s @ c # p)" for k
  proof (cases "k \<le> length (c # p)")
    case True
    then have "drop (length (s @ c # p) - k) (s @ c # p) = drop (length (c # p) - k) (c # p)"
      by (simp add: drop_append)
    moreover have "ws_len (drop (length (c # p) - k) (c # p)) \<noteq> k"
    proof -
      consider "k = 1" | "k = 2" | "k = 3" using kk(1, 2) by linarith
      then show ?thesis using assms(1) True by cases (auto simp: ws_suffix_len_def split: if_splits)
    qed
    ultimately show ?thesis by simp
  next
    case False
    then obtain t where t: "drop (length (s @ c # p) - k) (s @ c # p) = t @ c # p" by (simp add: drop_append)
    then have len: "length (t @ c # p) = k" using that by (metis diff_diff_cancel length_drop)
    show ?thesis
    proof
      assume eq: "ws_len (drop (length (s @ c # p) - k) (s @ c # p)) = k"
      have "2 \<le> k" using False that by (cases p) auto
      then obtain n where "k = Suc (Suc n)" by (metis Suc_le_D numeral_2_eq_2 Suc_le_mono)
      then have "list_all (\<lambda>c. 128 \<le> byte c) (take k (t @ c # p))" using eq ws_len_low [of "t @ c # p" n] unfolding t by simp
      then have "list_all (\<lambda>c. 128 \<le> byte c) (t @ c # p)" using len by simp
      then show False using assms(2) by simp
    qed
  qed
  show ?thesis by (rule ws_suffix_zeroI) (rule *)
qed


lemma plain_path_line:
  assumes "plain_path p"
  shows "trim_end (''# file: '' @ p) = ''# file: '' @ p" and "trim (CHR '' '' # p) = p"
proof -
  from assms obtain q where p: "p = CHR ''/'' # q" by (auto simp: plain_path_def starts_with_iff)
  have s: "solid CHR ''/''" by (simp add: solid_def)
  have z: "ws_suffix_len p = 0" using assms by (simp add: plain_path_def)
  then show "trim_end (''# file: '' @ p) = ''# file: '' @ p"
    using ws_suffix_prefixed [of "CHR ''/''" q "''# file: ''"] by (simp add: p)
  have "trim_start (CHR '' '' # p) = p"
    using trim_start.simps [of "CHR '' '' # p"] trim_start_solid [OF s, of q] by (simp add: p ws_len_def)
  then show "trim (CHR '' '' # p) = p" using z by (simp add: trim_def)
qed

lemma comment_skipped: "parse_acl_entry (CHR ''#'' # s) = None"
  by (simp add: parse_acl_entry_def trim_def Let_def ws_suffix_len_def)

lemma split_once_at: "c \<notin> set a \<Longrightarrow> split_once c (a @ c # b) = Some (a, b)"
  by (auto simp: split_once_def takeWhile_append dropWhile_append)

lemma hash_free_trim:
  "solid c \<Longrightarrow> solid d \<Longrightarrow> trim (c # s @ [d]) = c # s @ [d]"
  using trim_end_solid [of d "c # s"] by (simp add: trim_def trim_start_solid)

text \<open>The three fields of an entry line, and its first part before a comment.\<close>

lemma split_entry:
  assumes "CHR '':'' \<notin> set w" "CHR '':'' \<notin> set q"
  shows "splitn 3 CHR '':'' (w @ CHR '':'' # q @ CHR '':'' # r) = [w, q, r]"
  using assms by (simp add: numeral_3_eq_3 split_once_at)

definition entry_words :: "acl_tag \<Rightarrow> string \<times> string" where
  "entry_words t =
     (case t of
        UserObj \<Rightarrow> (''user'', []) | UserTag u \<Rightarrow> (''user'', u) | GroupObj \<Rightarrow> (''group'', []) | GroupTag g \<Rightarrow> (''group'', g)
      | MaskTag \<Rightarrow> (''mask'', []) | OtherTag \<Rightarrow> (''other'', []))"

lemma tag_text_words: "tag_text t = fst (entry_words t) @ CHR '':'' # snd (entry_words t) @ '':''"
  by (cases t) (simp_all add: tag_text_def entry_words_def)


lemma rwx_split: obtains a b c where "rwx p = [a, b, c]" "solid c" "{a, b, c} \<subseteq> {CHR ''r'', CHR ''w'', CHR ''x'', CHR ''-''}"
proof
  show "rwx p = [if perm_read p then CHR ''r'' else CHR ''-'', if perm_write p then CHR ''w'' else CHR ''-'',
            if perm_execute p then CHR ''x'' else CHR ''-'']" by (simp add: rwx_def)
qed (auto simp: solid_def)

lemma words_shape:
  assumes "plain_entry e"
  shows "\<exists>c s. fst (entry_words (ae_tag e)) = c # s \<and> solid c \<and> c \<noteq> CHR ''d''"
    "CHR '':'' \<notin> set (fst (entry_words (ae_tag e)))" "CHR '':'' \<notin> set (snd (entry_words (ae_tag e)))"
    "CHR ''#'' \<notin> set (fst (entry_words (ae_tag e)))" "CHR ''#'' \<notin> set (snd (entry_words (ae_tag e)))"
    "acl_tag_of (fst (entry_words (ae_tag e))) (snd (entry_words (ae_tag e))) = Some (ae_tag e)"
  using assms
  by (cases "ae_tag e"; simp add: entry_words_def solid_def plain_entry_def plain_qual_def acl_tag_of_def)+

lemma trim_tab:
  assumes "solid c" "solid d"
  shows "trim (c # s @ [d, CHR 0x09]) = c # s @ [d]"
proof -
  let ?l = "c # s @ [d, CHR 0x09]"
  have "ws_suffix_len ?l = 1" by (simp add: ws_suffix_len_def ws_len_def)
  then have "trim_end ?l = trim_end (take (length ?l - 1) ?l)" using trim_end.simps [of ?l] by simp
  moreover have "take (length ?l - 1) ?l = c # s @ [d]" by simp
  ultimately show ?thesis
    using trim_end_solid [OF assms(2), of "c # s"] trim_start_solid [OF assms(1)] by (simp add: trim_def)
qed

lemma entry_back:
  assumes "plain_entry e"
  shows "trim_end (entry_line acl e) = entry_line acl e" and "parse_acl_entry (entry_line acl e) = Some e"
    and "\<exists>c s. entry_line acl e = c # s \<and> c \<noteq> CHR ''#''"
proof -
  obtain c s where w: "fst (entry_words (ae_tag e)) = c # s" "solid c" "c \<noteq> CHR ''d''" using words_shape(1) [OF assms] by auto
  let ?q = "snd (entry_words (ae_tag e))"
  obtain x y z where r: "rwx (ae_perms e) = [x, y, z]" "solid z" "{x, y, z} \<subseteq> {CHR ''r'', CHR ''w'', CHR ''x'', CHR ''-''}"
    by (rule rwx_split)
  obtain x' y' z' where r': "rwx (masked (ae_perms e) (acl_mask acl)) = [x', y', z']" "solid z'" by (rule rwx_split)
  let ?core = "c # (s @ CHR '':'' # ?q @ [CHR '':'', x, y]) @ [z]"
  have line: "entry_line acl e = ?core @ entry_comment acl e"
    by (simp add: entry_line_def tag_text_words w(1) r(1))
  have com: "entry_comment acl e = [] \<or> entry_comment acl e = CHR 0x09 # ''#effective:'' @ [x', y', z']"
    by (auto simp: entry_comment_def Let_def r'(1))
  have "c \<noteq> CHR ''#''" using words_shape(4) [OF assms] w(1) by auto
  then show "\<exists>c s. entry_line acl e = c # s \<and> c \<noteq> CHR ''#''" by (simp add: line)
  have free: "CHR ''#'' \<notin> set ?core" using words_shape(4, 5) [OF assms] r(3) w(1) by auto
  show "trim_end (entry_line acl e) = entry_line acl e"
    using com trim_end_solid [OF r(2), of "c # (s @ CHR '':'' # ?q @ [CHR '':'', x, y])"]
      trim_end_solid [OF r'(2), of "?core @ CHR 0x09 # ''#effective:'' @ [x', y']"] by (auto simp: line)
  have core: "trim (hd (split_on CHR ''#'' (entry_line acl e))) = ?core"
    using com
  proof
    assume "entry_comment acl e = []"
    then show ?thesis
      by (simp only: line append_Nil2 split_on_id [OF free] list.sel hash_free_trim [OF w(2) r(2)])
  next
    assume *: "entry_comment acl e = CHR 0x09 # ''#effective:'' @ [x', y', z']"
    have "CHR ''#'' \<notin> set (?core @ [CHR 0x09])" using free by simp
    from split_on_append_sep [OF this] have "hd (split_on CHR ''#'' (entry_line acl e)) = ?core @ [CHR 0x09]"
      by (simp add: line *)
    then have "hd (split_on CHR ''#'' (entry_line acl e)) = c # (s @ CHR '':'' # ?q @ [CHR '':'', x, y]) @ [z, CHR 0x09]"
      by simp
    then show ?thesis by (simp only: trim_tab [OF w(2) r(2)])
  qed
  have three: "splitn 3 CHR '':'' ?core = [c # s, ?q, [x, y, z]]"
    using split_entry [of "c # s" ?q "[x, y, z]"] words_shape(2, 3) [OF assms] w(1) by simp
  have tag: "acl_tag_of (c # s) ?q = Some (ae_tag e)" using words_shape(6) [OF assms] w(1) by simp
  have perm: "parse_perms [x, y, z] = Some (ae_perms e)" using rwx_back [of "ae_perms e"] r(1) by simp
  have "\<not> starts_with ?core ''default:''" using w(3) by (auto simp: starts_with_iff)
  then show "parse_acl_entry (entry_line acl e) = Some e"
    unfolding parse_acl_entry_def core Let_def three by (simp add: perm tag)
qed


definition flush :: "dump_state \<Rightarrow> (string \<times> acl_entries) list" where
  "flush st = fst st @ (case snd st of Some r \<Rightarrow> [r] | None \<Rightarrow> [])"

lemma parse_getfacl_dump_flush: "parse_getfacl_dump text = flush (foldl dump_line ([], None) (str_lines text))"
  by (simp add: parse_getfacl_dump_def flush_def split: prod.splits option.splits)

lemma dump_line_header:
  assumes "plain_path p"
  shows "dump_line st (''# file: '' @ p) = (flush st, Some (p, []))"
proof -
  have "''# file: '' @ p = ''# file:'' @ CHR '' '' # p" by simp
  then have "strip_prefix (''# file: '' @ p) ''# file:'' = Some (CHR '' '' # p)"
    by (metis strip_prefix_append)
  then show ?thesis
    by (cases st; cases "snd st")
       (simp_all only: dump_line_def Let_def plain_path_line [OF assms] prod.case option.case flush_def fst_conv snd_conv append_Nil2)
qed

lemma dump_line_skip:
  assumes "s = [] \<or> (\<exists>t. s = ''# owner: '' @ t \<or> s = ''# group: '' @ t)"
  shows "dump_line (out, Some (p, es)) s = (out, Some (p, es))"
proof -
  obtain k where k: "trim_end s = take k s"
  proof (induction s rule: trim_end.induct)
    case (1 s)
    show ?case
    proof (cases "ws_suffix_len s = 0")
      case True
      then show ?thesis using "1.prems" [of "length s"] by simp
    next
      case False
      then show ?thesis using 1 trim_end.simps [of s] by (metis take_take)
    qed
  qed
  have hash: "trim_end s = [] \<or> (\<exists>u. trim_end s = CHR ''#'' # u)"
    unfolding k using assms by (cases k) auto
  have "strip_prefix (trim_end s) ''# file:'' = None"
  proof (rule ccontr)
    assume "strip_prefix (trim_end s) ''# file:'' \<noteq> None"
    then obtain u where "take k s = ''# file:'' @ u" unfolding k by (auto simp: strip_prefix_Some_iff)
    then have "2 < length (take k s)" "take k s ! 2 = CHR ''f''" by (simp_all only:) simp_all
    then have "2 < length s" "s ! 2 = CHR ''f''" by simp_all
    then show False using assms by auto
  qed
  then show ?thesis using hash by (auto simp: dump_line_def Let_def comment_skipped)
qed

lemma dump_line_entry:
  assumes "plain_entry e"
  shows "dump_line (out, Some (p, es)) (entry_line acl e) = (out, Some (p, es @ [e]))"
proof -
  obtain c s where c: "entry_line acl e = c # s" "c \<noteq> CHR ''#''" using entry_back(3) [OF assms] by blast
  then have "strip_prefix (entry_line acl e) ''# file:'' = None"
    by (metis append_Cons list.inject not_None_eq strip_prefix_Some_iff)
  then show ?thesis using c(1) entry_back(1, 2) [OF assms, of acl] by (simp add: dump_line_def Let_def)
qed

lemma dump_entries:
  "list_all plain_entry es' \<Longrightarrow>
   foldl dump_line (out, Some (p, es)) (map (entry_line acl) es') = (out, Some (p, es @ es'))"
  by (induction es' arbitrary: es) (simp_all add: dump_line_entry)

lemma dump_record_read:
  assumes "plain_path p" "plain_file f"
  shows "foldl dump_line st (dump_record p f) = (flush st, Some (p, fa_entries f))"
  using assms by (simp add: dump_record_def dump_line_header dump_line_skip plain_file_def dump_entries del: append_Cons)


definition listed_acls :: "(path \<Rightarrow> file_acl option) \<Rightarrow> path list \<Rightarrow> (path \<times> acl_entries) list" where
  "listed_acls db ps = concat (map (\<lambda>p. case db p of Some f \<Rightarrow> [(p, fa_entries f)] | None \<Rightarrow> []) ps)"

lemma dump_lines_read:
  "plain_tree db ps \<Longrightarrow> flush (foldl dump_line st (dump_lines db ps)) = flush st @ listed_acls db ps"
proof (induction ps arbitrary: st)
  case (Cons p ps)
  then have p: "plain_path p" and ps: "plain_tree db ps" by (simp_all add: plain_tree_def)
  show ?case
  proof (cases "db p")
    case None
    then show ?thesis using Cons.IH [OF ps, of st] by (simp add: dump_lines_def listed_acls_def)
  next
    case (Some f)
    then have "plain_file f" using Cons.prems by (simp add: plain_tree_def)
    from dump_record_read [OF p this, of st] show ?thesis
      using Cons.IH [OF ps, of "(flush st, Some (p, fa_entries f))"] Some
      by (simp add: dump_lines_def listed_acls_def) (simp add: flush_def)
  qed
qed (simp add: dump_lines_def listed_acls_def)

lemma line_ok_append: "line_ok s \<Longrightarrow> line_ok t \<Longrightarrow> line_ok (s @ t)"
  by (auto simp: line_ok_def utf8_valid_append)

lemma line_ok_rwx: "line_ok (rwx p)"
  by (auto simp: rwx_def line_ok_def)

lemma entry_line_ok: "plain_entry e \<Longrightarrow> line_ok (entry_line acl e)"
proof -
  assume "plain_entry e"
  then have "line_ok (snd (entry_words (ae_tag e)))" "line_ok (fst (entry_words (ae_tag e)))"
    by (cases "ae_tag e"; simp add: entry_words_def plain_entry_def plain_qual_def line_ok_def)+
  moreover have "line_ok '':''" by (simp add: line_ok_def)
  ultimately have t: "line_ok (tag_text (ae_tag e))"
    using line_ok_append [of "fst (entry_words (ae_tag e))" "'':'' @ snd (entry_words (ae_tag e)) @ '':''"]
      line_ok_append [of "'':''" "snd (entry_words (ae_tag e)) @ '':''"] line_ok_append [of _ "'':''"]
    by (simp add: tag_text_words)
  have "line_ok (CHR 0x09 # ''#effective:'')" by (simp add: line_ok_def)
  from line_ok_append [OF this line_ok_rwx] have "line_ok (entry_comment acl e)"
    by (auto simp: entry_comment_def Let_def line_ok_def)
  then show ?thesis unfolding entry_line_def by (intro line_ok_append t line_ok_rwx)
qed

lemma dump_lines_ok: "plain_tree db ps \<Longrightarrow> list_all line_ok (dump_lines db ps)"
proof (induction ps)
  case (Cons p ps)
  have pre: "line_ok ''# file: ''" "line_ok ''# owner: ''" "line_ok ''# group: ''" "line_ok []" by (simp_all add: line_ok_def)
  have "list_all line_ok (dump_record p f)" if "plain_path p" "plain_file f" for f
    using that pre unfolding dump_record_def plain_path_def plain_file_def
    by (simp add: line_ok_append [OF pre(1), simplified] line_ok_append [OF pre(2), simplified]
        line_ok_append [OF pre(3), simplified] list_all_iff entry_line_ok)
  then show ?case using Cons by (auto simp: plain_tree_def dump_lines_def split: option.splits)
qed (simp add: dump_lines_def)

lemma chunks_concat: "0 < n \<Longrightarrow> concat (chunks n xs) = xs"
  by (induction n xs rule: chunks.induct) (simp add: chunks.simps)

lemma chunks_length: "c \<in> set (chunks n xs) \<Longrightarrow> length c \<le> n"
proof (induction n xs rule: chunks.induct)
  case (1 n xs)
  then show ?case by (subst (asm) (2) chunks.simps) (auto split: if_splits)
qed

lemma plain_tree_append: "plain_tree db (ps @ qs) \<longleftrightarrow> plain_tree db ps \<and> plain_tree db qs"
  by (simp add: plain_tree_def)

lemma read_chunk_serves:
  assumes "getfacl_serves gr db" "plain_tree db ps"
  shows "read_chunk gr ps (out, w) = (out @ listed_acls db ps, w)"
proof -
  note ok = dump_lines_ok [OF assms(2)]
  have "parse_getfacl_dump (utf8_lossy (text_of (dump_lines db ps))) = listed_acls db ps"
    using dump_lines_read [OF assms(2), of "([], None)"]
    by (simp add: utf8_lossy_valid text_utf8 [OF ok] parse_getfacl_dump_flush str_lines_text [OF ok]) (simp add: flush_def)
  then show ?thesis using assms(1) by (simp add: read_chunk_def getfacl_serves_def)
qed

lemma read_chunks_serve:
  "getfacl_serves gr db \<Longrightarrow> plain_tree db (concat css) \<Longrightarrow>
   fold (read_chunk gr) css (out, w) = (out @ listed_acls db (concat css), w)"
proof (induction css arbitrary: out)
  case (Cons c css)
  then show ?case by (simp add: plain_tree_append read_chunk_serves) (simp add: listed_acls_def)
qed (simp add: listed_acls_def)

text \<open>
  C36: What \<^verbatim>\<open>getfacl\<close> prints of a tree reads back as its ACLs.  Where the program prints the record
  of every path it can read and nothing for the others, the reader returns, in the order of the
  walk, exactly the readable paths with their entries, however many calls of at most 256 paths it
  needs; the narrowing comments of the program change no entry.
\<close>

theorem getfacl_roundtrip:
  assumes "getfacl_serves gr db" and "plain_tree db ps"
  shows "read_acls gr ps w = (listed_acls db ps, w)"
  unfolding read_acls_def
  using read_chunks_serve [OF assms(1), of "chunks GETFACL_PATH_CHUNK ps" "[]" w] assms(2)
  by (simp add: chunks_concat GETFACL_PATH_CHUNK_def)

definition sample_tree :: "path \<Rightarrow> file_acl option" where
  "sample_tree = [''/srv/app'' \<mapsto> \<lparr>fa_owner = ''root'', fa_group = ''staff'', fa_entries = sample_acl\<rparr>]"

definition sample_reader :: "unit getfacl_reader" where
  "sample_reader = \<lparr>gr_runner = (\<lambda>_ args w. (text_of (dump_lines sample_tree (tl args)), w)), gr_bin = ''getfacl''\<rparr>"

lemma sample_reader_serves: "getfacl_serves sample_reader sample_tree"
  by (simp add: getfacl_serves_def sample_reader_def)

theorem getfacl_roundtrip_witness:
  "plain_tree sample_tree [''/srv/app'', ''/srv/none'']
   \<and> read_acls sample_reader [''/srv/app'', ''/srv/none''] () = ([(''/srv/app'', sample_acl)], ())
   \<and> is_extended sample_acl"
proof -
  have t: "plain_tree sample_tree [''/srv/app'', ''/srv/none'']" by code_simp
  have l: "listed_acls sample_tree [''/srv/app'', ''/srv/none''] = [(''/srv/app'', sample_acl)]"
    by (simp add: listed_acls_def sample_tree_def)
  have e: "is_extended sample_acl" by code_simp
  show ?thesis using t e getfacl_roundtrip [OF sample_reader_serves t, of "()"] l by simp
qed

end
