(* ===== verification/Exposure_Taxonomy.thy ===== *)
theory Exposure_Taxonomy
  imports Exposure_Access Permission
begin

text \<open>
  \<^verbatim>\<open>exposure/taxonomy.rs\<close>, \<^verbatim>\<open>exposure/mac.rs\<close> and the shell quoting of \<^verbatim>\<open>exposure/mod.rs\<close>: how an inode is
  classified, which accesses are findings, how urgent they are and what is advised.  The glob
  matcher is proved equal to the language of its pattern, and every advised command is proved to
  be read by a shell as the words it was built from.
\<close>

subsection \<open>Globs\<close>

text \<open>The loop over the literal chunks after the first star; the last one has to end the text.\<close>

fun match_chunks :: "string list \<Rightarrow> string \<Rightarrow> bool" where
  "match_chunks [] rest = True"
| "match_chunks [chunk] rest = ends_with rest chunk"
| "match_chunks (chunk # next # cs) rest =
     (if chunk = [] then match_chunks (next # cs) rest
      else case str_find rest chunk of
             Some pos \<Rightarrow> match_chunks (next # cs) (drop (pos + length chunk) rest)
           | None \<Rightarrow> False)"

definition segment_match :: "string \<Rightarrow> string \<Rightarrow> bool" where
  "segment_match pattern text =
     (if CHR ''*'' \<notin> set pattern then pattern = text
      else case split_on CHR ''*'' pattern of
             [] \<Rightarrow> True
           | first # cs \<Rightarrow>
               (case strip_prefix text first of None \<Rightarrow> False | Some rest \<Rightarrow> match_chunks cs rest))"

text \<open>The tails the loop after a double star tries, in its order.\<close>

fun tails :: "'a list \<Rightarrow> 'a list list" where
  "tails [] = [[]]"
| "tails (x # xs) = (x # xs) # tails xs"

fun match_segments :: "string list \<Rightarrow> string list \<Rightarrow> bool" where
  "match_segments [] seg = (seg = [])"
| "match_segments (head # pat_rest) seg =
     (if head = ''**'' then list_ex (match_segments pat_rest) (tails seg)
      else case seg of [] \<Rightarrow> False | s # seg_rest \<Rightarrow> segment_match head s \<and> match_segments pat_rest seg_rest)"

definition glob_match :: "string \<Rightarrow> string \<Rightarrow> bool" where
  "glob_match pattern pth = match_segments (split_on CHR ''/'' pattern) (split_on CHR ''/'' pth)"

subsection \<open>Classes\<close>

unbundle bit_operations_syntax

definition S_IFMT :: u32 where "S_IFMT = 61440"
definition S_IFDIR :: u32 where "S_IFDIR = 16384"
definition SETID_BITS :: u32 where "SETID_BITS = 3072"

definition CLASS_GLOBS_HIGH :: "(string \<times> object_class) list" where
  "CLASS_GLOBS_HIGH =
     [(''/etc/sudoers'', ClsSudoers), (''/etc/sudoers.d/**'', ClsSudoers),
      (''/var/spool/cron/**'', ClsCron), (''/etc/cron*/**'', ClsCron), (''/etc/crontab'', ClsCron),
      (''/etc/systemd/**'', ClsSystemdUnit), (''/lib/systemd/system/**'', ClsSystemdUnit)]"

definition CLASS_GLOBS_LOW :: "(string \<times> object_class) list" where
  "CLASS_GLOBS_LOW =
     [(''/usr/bin/**'', ClsPathBinary), (''/bin/**'', ClsPathBinary), (''/usr/local/bin/**'', ClsPathBinary),
      (''/sbin/**'', ClsPathBinary)]"

definition DEFAULT_SECRET_GLOBS :: "string list" where
  "DEFAULT_SECRET_GLOBS =
     [''/etc/shadow*'', ''**/*.key'', ''**/*.pem'', ''**/id_rsa*'', ''**/.env*'', ''**/*credentials*'']"

definition SECURITY_RELEVANT_CONFIG_PREFIXES :: "string list" where
  "SECURITY_RELEVANT_CONFIG_PREFIXES =
     [''/etc/ssh'', ''/etc/pam.d'', ''/etc/sudoers'', ''/etc/sudoers.d'', ''/etc/sysctl.conf'', ''/etc/sysctl.d'',
      ''/etc/audit'', ''/etc/ssl'', ''/etc/pki'', ''/etc/ca-certificates'', ''/etc/ca-certificates.conf'',
      ''/etc/polkit-1'', ''/etc/PolicyKit'', ''/etc/systemd'', ''/etc/security'', ''/etc/apparmor.d'',
      ''/etc/selinux'', ''/etc/modprobe.d'', ''/etc/modules-load.d'', ''/etc/login.defs'', ''/etc/securetty'',
      ''/etc/sudo.conf'', ''/etc/nsswitch.conf'']"

definition is_security_relevant_config :: "string \<Rightarrow> bool" where
  "is_security_relevant_config p = list_ex (\<lambda>prefix. path_at_or_under prefix p) SECURITY_RELEVANT_CONFIG_PREFIXES"

record classifier = cl_secret_globs :: "string list"

definition default_classifier :: classifier where
  "default_classifier = \<lparr>cl_secret_globs = DEFAULT_SECRET_GLOBS\<rparr>"

definition classify :: "classifier \<Rightarrow> string \<Rightarrow> u32 \<Rightarrow> object_class" where
  "classify c pth mode =
     (if mode AND S_IFMT \<noteq> S_IFDIR \<and> mode AND SETID_BITS \<noteq> 0 then ClsSetuidBinary
      else case find (\<lambda>(glob, _). glob_match glob pth) CLASS_GLOBS_HIGH of
             Some (_, cls) \<Rightarrow> cls
           | None \<Rightarrow>
               if list_ex (\<lambda>glob. glob_match glob pth) (cl_secret_globs c) then ClsSecret
               else (case find (\<lambda>(glob, _). glob_match glob pth) CLASS_GLOBS_LOW of
                       Some (_, cls) \<Rightarrow> cls
                     | None \<Rightarrow> if is_security_relevant_config pth then ClsConfig else ClsGeneric))"

subsection \<open>Risk and severity\<close>

datatype exposure_risk = Escalation | Leak | Tamper

definition risk_as_str :: "exposure_risk \<Rightarrow> string" where
  "risk_as_str r = (case r of Escalation \<Rightarrow> ''escalation'' | Leak \<Rightarrow> ''leak'' | Tamper \<Rightarrow> ''tamper'')"

datatype exposure_severity = SevHigh | SevMedium | SevLow

definition severity_rank :: "exposure_severity \<Rightarrow> nat" where
  "severity_rank s = (case s of SevHigh \<Rightarrow> 3 | SevMedium \<Rightarrow> 2 | SevLow \<Rightarrow> 1)"

definition derive_risk :: "acl_perms \<Rightarrow> object_class \<Rightarrow> exposure_risk option" where
  "derive_risk access cls =
     (if perm_write access then
        Some (case cls of
                ClsCron \<Rightarrow> Escalation | ClsSudoers \<Rightarrow> Escalation | ClsSystemdUnit \<Rightarrow> Escalation
              | ClsPathBinary \<Rightarrow> Escalation | ClsSetuidBinary \<Rightarrow> Escalation | ClsSecret \<Rightarrow> Escalation
              | ClsConfig \<Rightarrow> Tamper | ClsGeneric \<Rightarrow> Tamper)
      else if perm_read access \<and> cls = ClsSecret then Some Leak
      else None)"

definition derive_severity :: "object_class \<Rightarrow> exposure_risk \<Rightarrow> exposure_severity" where
  "derive_severity cls risk =
     (case risk of
        Escalation \<Rightarrow> SevHigh
      | Leak \<Rightarrow> SevHigh
      | Tamper \<Rightarrow> if cls = ClsConfig then SevMedium else SevLow)"

subsection \<open>Remediation\<close>

text \<open>A quote inside the value is closed, escaped and opened again.\<close>

definition shell_quote :: "string \<Rightarrow> string" where
  "shell_quote v =
     CHR 0x27 # concat (map (\<lambda>c. if c = CHR 0x27 then [CHR 0x27, CHR 0x5C, CHR 0x27, CHR 0x27] else [c]) v) @ [CHR 0x27]"

datatype remediation_class = Ambient | InModel

record remediation_context =
  rc_is_managed_group :: "string \<Rightarrow> bool"
  rc_covering_grant :: "string \<Rightarrow> string option"

definition NoManagedContext :: remediation_context where
  "NoManagedContext = \<lparr>rc_is_managed_group = (\<lambda>_. False), rc_covering_grant = (\<lambda>_. None)\<rparr>"

definition managed_group_of :: "access_via \<Rightarrow> remediation_context \<Rightarrow> string option" where
  "managed_group_of via ctx =
     (case via of
        ViaGroup g \<Rightarrow> if rc_is_managed_group ctx g then Some g else None
      | ViaAclGroup g \<Rightarrow> if rc_is_managed_group ctx g then Some g else None
      | _ \<Rightarrow> None)"

definition tick :: string where "tick = [CHR 0x60]"

definition ambient_hint :: "access_via \<Rightarrow> string \<Rightarrow> object_class \<Rightarrow> acl_perms \<Rightarrow> string" where
  "ambient_hint via pth cls access =
     (let q = shell_quote pth in
      case via of
        ViaOtherBits \<Rightarrow>
          if perm_write access then ''remove world write manually: '' @ tick @ ''chmod o-w '' @ q @ tick
          else if cls = ClsSecret then
            ''remove world read of a secret manually: '' @ tick @ ''chmod 640 '' @ q @ tick
          else ''remove world read manually: '' @ tick @ ''chmod o-rwx '' @ q @ tick
      | ViaAclUser u \<Rightarrow>
          ''remove the ACL entry manually: '' @ tick @ ''setfacl -x u:'' @ shell_quote u @ '' '' @ q @ tick
      | ViaAclGroup g \<Rightarrow>
          ''remove the ACL entry manually: '' @ tick @ ''setfacl -x g:'' @ shell_quote g @ '' '' @ q @ tick
      | ViaGroup _ \<Rightarrow>
          if perm_write access then ''remove group write manually: '' @ tick @ ''chmod g-w '' @ q @ tick
          else ''restrict group access manually on '' @ tick @ q @ tick
      | ViaOwner \<Rightarrow> ''review ownership of '' @ tick @ q @ tick @ '' (the principal owns it)'')"

definition remediation ::
    "access_via \<Rightarrow> string \<Rightarrow> object_class \<Rightarrow> acl_perms \<Rightarrow> remediation_context \<Rightarrow> remediation_class \<times> string" where
  "remediation via pth cls access ctx =
     (let quoted_path = shell_quote pth in
      case managed_group_of via ctx of
        Some g \<Rightarrow>
          (InModel,
           ''narrow the Census declaration of group '' @ tick @ g @ tick @ '': its membership grants access to ''
           @ quoted_path @ '' beyond what the role needs'')
      | None \<Rightarrow>
          (case (case via of
                   ViaAclUser _ \<Rightarrow> rc_covering_grant ctx pth
                 | ViaAclGroup _ \<Rightarrow> rc_covering_grant ctx pth
                 | _ \<Rightarrow> None) of
             Some grant \<Rightarrow>
               (InModel,
                ''narrow the Census file-access grant '' @ tick @ grant @ tick @ '': it covers '' @ quoted_path
                @ '', which is wider than the role needs'')
           | None \<Rightarrow> (Ambient, ambient_hint via pth cls access)))"

subsection \<open>Mandatory access control and findings\<close>

datatype mac_system = Parsec | Selinux

definition mac_system_as_str :: "mac_system \<Rightarrow> string" where
  "mac_system_as_str s = (case s of Parsec \<Rightarrow> ''parsec'' | Selinux \<Rightarrow> ''selinux'')"

record mac_finding =
  mf_system :: mac_system
  mf_object_label :: "string option"
  mf_reachable_in :: "string list"

datatype mac_access_kind = MacRead | MacWrite | MacExecute

type_synonym mac_label_id = u32
type_synonym mac_context_id = u32

record mac_provider =
  mp_system :: mac_system
  mp_object_label :: "string \<Rightarrow> mac_label_id option"
  mp_principal_contexts :: "u32 \<Rightarrow> mac_context_id list"
  mp_permits :: "mac_context_id \<Rightarrow> mac_label_id \<Rightarrow> mac_access_kind \<Rightarrow> bool"
  mp_render_context :: "mac_context_id \<Rightarrow> string"
  mp_render_label :: "mac_label_id \<Rightarrow> string"
  mp_is_active :: bool

definition NullMacProvider :: mac_provider where
  "NullMacProvider =
     \<lparr>mp_system = Parsec, mp_object_label = (\<lambda>_. None), mp_principal_contexts = (\<lambda>_. []),
      mp_permits = (\<lambda>_ _ _. True), mp_render_context = (\<lambda>_. []), mp_render_label = (\<lambda>_. []), mp_is_active = False\<rparr>"

record exposure_finding =
  ef_principal :: "string option"
  ef_path :: string
  ef_access :: acl_perms
  ef_via :: access_via
  ef_class :: object_class
  ef_risk :: exposure_risk
  ef_severity :: exposure_severity
  ef_remediation_class :: remediation_class
  ef_hint :: string
  ef_mac :: "mac_finding option"

definition finding_for ::
    "inode_record \<Rightarrow> acl_perms \<Rightarrow> access_via \<Rightarrow> string option \<Rightarrow> bool \<Rightarrow> remediation_context \<Rightarrow> exposure_finding option" where
  "finding_for r access via prin reachable ctx =
     (if \<not> reachable then None
      else case derive_risk access (ir_class r) of
             None \<Rightarrow> None
           | Some risk \<Rightarrow>
               (case remediation via (ir_path r) (ir_class r) access ctx of (rcls, hint) \<Rightarrow>
                  Some \<lparr>ef_principal = prin, ef_path = ir_path r, ef_access = access, ef_via = via, ef_class = ir_class r,
                        ef_risk = risk, ef_severity = derive_severity (ir_class r) risk, ef_remediation_class = rcls,
                        ef_hint = hint, ef_mac = None\<rparr>))"


subsection \<open>What a glob matches\<close>

text \<open>The language of a segment pattern, where a star stands for any run of characters.\<close>

fun segment_lang :: "string \<Rightarrow> string set" where
  "segment_lang [] = {[]}"
| "segment_lang (c # p) =
     (if c = CHR ''*'' then {u @ v | u v. v \<in> segment_lang p} else {c # v | v. v \<in> segment_lang p})"

fun glob_lang :: "string list \<Rightarrow> string list set" where
  "glob_lang [] = {[]}"
| "glob_lang (p # ps) =
     (if p = ''**'' then {us @ vs | us vs. vs \<in> glob_lang ps}
      else {s # vs | s vs. s \<in> segment_lang p \<and> vs \<in> glob_lang ps})"

fun chunk_lang :: "string list \<Rightarrow> string set" where
  "chunk_lang [] = {}"
| "chunk_lang [c] = {c}"
| "chunk_lang (c # d # cs) = {c @ u @ v | u v. v \<in> chunk_lang (d # cs)}"

lemma chunk_lang_Cons: "cs \<noteq> [] \<Longrightarrow> chunk_lang (c # cs) = {c @ u @ v | u v. v \<in> chunk_lang cs}"
  by (cases cs) auto

lemma chunk_lang_head: "chunk_lang ((a # c) # cs) = (#) a ` chunk_lang (c # cs)"
  by (cases cs) (auto simp: image_iff)

lemma segment_lang_chunks: "segment_lang p = chunk_lang (split_on CHR ''*'' p)"
proof (induction p)
  case (Cons a p)
  obtain c cs where s: "split_on CHR ''*'' p = c # cs" by (cases "split_on CHR ''*'' p") auto
  then show ?case using Cons chunk_lang_head [of a c cs] chunk_lang_Cons [of "c # cs" "[]"] by (auto simp: image_iff)
qed simp

lemma str_find_Some:
  "str_find s p = Some k \<Longrightarrow> s = take k s @ p @ drop (k + length p) s \<and> (\<forall>u v. s = u @ p @ v \<longrightarrow> k \<le> length u)"
proof (induction s arbitrary: k)
  case Nil
  then show ?case by (subst (asm) str_find.simps) (auto split: if_splits simp: starts_with_iff)
next
  case (Cons a s)
  show ?case
  proof (cases "starts_with (a # s) p")
    case True
    then show ?thesis using Cons.prems by (subst (asm) str_find.simps) (auto simp: starts_with_iff)
  next
    case False
    then obtain j where j: "str_find s p = Some j" "k = Suc j"
      using Cons.prems by (subst (asm) str_find.simps) auto
    note IH = Cons.IH [OF j(1)]
    have "k \<le> length u" if eq: "a # s = u @ p @ v" for u v
    proof (cases u)
      case Nil
      then show ?thesis using eq False by (auto simp: starts_with_iff)
    next
      case (Cons b u')
      then have "s = u' @ p @ v" using eq by simp
      then have "j \<le> length u'" using IH by blast
      then show ?thesis using Cons j(2) by simp
    qed
    moreover have "a # s = take k (a # s) @ p @ drop (k + length p) (a # s)" using IH j(2) by simp
    ultimately show ?thesis by blast
  qed
qed

lemma str_find_None: "str_find s p = None \<Longrightarrow> s \<noteq> u @ p @ v"
proof (induction s arbitrary: u)
  case Nil
  then show ?case by (subst (asm) str_find.simps) (auto split: if_splits simp: starts_with_iff)
next
  case (Cons a s)
  then have n: "\<not> starts_with (a # s) p" "str_find s p = None"
    by (subst (asm) (2) str_find.simps, auto split: if_splits)+
  then show ?case using Cons.IH [OF n(2)] by (cases u) (auto simp: starts_with_iff)
qed

lemma match_chunks_lang: "cs \<noteq> [] \<Longrightarrow> match_chunks cs rest \<longleftrightarrow> (\<exists>u v. rest = u @ v \<and> v \<in> chunk_lang cs)"
proof (induction cs rest rule: match_chunks.induct)
  case (3 c d cs rest)
  let ?R = "\<lambda>r. \<exists>u v. r = u @ v \<and> v \<in> chunk_lang (d # cs)"
  show ?case
  proof (cases "c = []")
    case True
    have "(\<exists>u v. rest = u @ v \<and> v \<in> chunk_lang (c # d # cs)) \<longleftrightarrow> ?R rest"
      (is "?L = _")
    proof
      assume ?L
      then obtain u w v where "rest = u @ w @ v" "v \<in> chunk_lang (d # cs)" using True by auto
      then have "rest = (u @ w) @ v \<and> v \<in> chunk_lang (d # cs)" by simp
      then show "?R rest" by blast
    next
      assume "?R rest"
      then obtain u v where "rest = u @ v" "v \<in> chunk_lang (d # cs)" by auto
      then have "rest = u @ ([] @ [] @ v) \<and> [] @ [] @ v \<in> chunk_lang (c # d # cs)"
        unfolding True chunk_lang.simps by (simp, intro exI [of _ "[]"] exI [of _ v]) simp
      then show ?L by blast
    qed
    then show ?thesis using "3.IH"(1) [OF True] True by simp
  next
    case False
    show ?thesis
    proof (cases "str_find rest c")
      case None
      then have "\<not> (\<exists>u v. rest = u @ v \<and> v \<in> chunk_lang (c # d # cs))" using str_find_None [OF None] by auto
      then show ?thesis using False None by simp
    next
      case (Some pos)
      let ?r = "drop (pos + length c) rest"
      have ex: "rest = take pos rest @ c @ ?r" and first: "\<And>u v. rest = u @ c @ v \<Longrightarrow> pos \<le> length u"
        using str_find_Some [OF Some] by blast+
      have "?R ?r \<longleftrightarrow> (\<exists>u v. rest = u @ v \<and> v \<in> chunk_lang (c # d # cs))"
      proof
        assume "?R ?r"
        then obtain u v where "?r = u @ v" "v \<in> chunk_lang (d # cs)" by auto
        then have "rest = take pos rest @ (c @ u @ v) \<and> c @ u @ v \<in> chunk_lang (c # d # cs)" using ex by auto
        then show "\<exists>u v. rest = u @ v \<and> v \<in> chunk_lang (c # d # cs)" by blast
      next
        assume "\<exists>u v. rest = u @ v \<and> v \<in> chunk_lang (c # d # cs)"
        then obtain u w v where r: "rest = u @ c @ (w @ v)" and v: "v \<in> chunk_lang (d # cs)" by auto
        then have "pos \<le> length u" using first by blast
        then have "?r = drop (pos + length c) (u @ c) @ w @ v" using r by simp
        then have "?r = (drop (pos + length c) (u @ c) @ w) @ v" by simp
        then show "?R ?r" using v by blast
      qed
      then show ?thesis using "3.IH"(2) [OF False Some] False Some by simp
    qed
  qed
qed (auto simp: ends_with_iff)

lemma segment_match_lang: "segment_match p t \<longleftrightarrow> t \<in> segment_lang p"
proof (cases "CHR ''*'' \<in> set p")
  case False
  then show ?thesis by (auto simp: segment_match_def segment_lang_chunks split_on_id)
next
  case True
  obtain c cs where s: "split_on CHR ''*'' p = c # cs" by (cases "split_on CHR ''*'' p") auto
  have ne: "cs \<noteq> []" using True s join_split [of "CHR ''*''" p] split_on_notin [of c "CHR ''*''" p] by auto
  show ?thesis
    using True match_chunks_lang [OF ne] chunk_lang_Cons [OF ne, of c]
    by (auto simp: segment_match_def segment_lang_chunks s strip_prefix_Some_iff split: option.splits)

qed

lemma set_tails: "t \<in> set (tails xs) \<longleftrightarrow> (\<exists>us. xs = us @ t)"
proof (induction xs)
  case (Cons x xs)
  show ?case
  proof
    assume "t \<in> set (tails (x # xs))"
    then show "\<exists>us. x # xs = us @ t" using Cons by (auto intro: exI [of _ "x # _"])
  next
    assume "\<exists>us. x # xs = us @ t"
    then show "t \<in> set (tails (x # xs))" using Cons by (auto simp: Cons_eq_append_conv)
  qed
qed auto

lemma match_segments_lang: "match_segments ps seg \<longleftrightarrow> seg \<in> glob_lang ps"
proof (induction ps arbitrary: seg)
  case (Cons p ps)
  show ?case
  proof (cases "p = ''**''")
    case True
    then have "match_segments (p # ps) seg \<longleftrightarrow> (\<exists>t. (\<exists>us. seg = us @ t) \<and> t \<in> glob_lang ps)"
      using Cons by (auto simp: list_ex_iff set_tails Bex_def)
    then show ?thesis using True by auto
  next
    case False
    then show ?thesis using Cons by (cases seg) (auto simp: segment_match_lang)
  qed
qed auto

text \<open>
  The glob matcher decides the language of the pattern.  A path matches exactly when its
  segments can be split among the segments of the pattern, a double star taking any run of
  segments and every other segment one, in which a star takes any run of characters.  The
  leftmost search within a segment loses no match.
\<close>

theorem glob_match_exact:
  "glob_match pattern pth \<longleftrightarrow> split_on CHR ''/'' pth \<in> glob_lang (split_on CHR ''/'' pattern)"
  by (simp add: glob_match_def match_segments_lang)


subsection \<open>What a shell reads of an advised command\<close>

text \<open>
  Word splitting of a POSIX shell on plain characters, blanks, single quotes and backslashes.  Any
  other character, and a quote that is not closed, gives no words.
\<close>

definition sh_plain :: "char \<Rightarrow> bool" where
  "sh_plain c \<longleftrightarrow> is_ascii_alphanumeric c \<or> c \<in> set ''-_:/.,+=@%''"

fun sh_words :: "bool \<Rightarrow> string option \<Rightarrow> string \<Rightarrow> string list option" where
  "sh_words quoted w [] = (if quoted then None else Some (case w of None \<Rightarrow> [] | Some u \<Rightarrow> [u]))"
| "sh_words quoted w (c # s) =
     (let u = (case w of None \<Rightarrow> [] | Some u \<Rightarrow> u) in
      if quoted then (if c = CHR 0x27 then sh_words False (Some u) s else sh_words True (Some (u @ [c])) s)
      else if c = CHR 0x27 then sh_words True (Some u) s
      else if c = CHR '' '' then
        (case w of None \<Rightarrow> sh_words False None s | Some u \<Rightarrow> map_option ((#) u) (sh_words False None s))
      else if c = CHR 0x5C then
        (case s of [] \<Rightarrow> None | d # t \<Rightarrow> if d = CHR 0x0A then None else sh_words False (Some (u @ [d])) t)
      else if sh_plain c then sh_words False (Some (u @ [c])) s
      else None)"

lemma sh_words_quoted:
  "sh_words True (Some u)
     (concat (map (\<lambda>c. if c = CHR 0x27 then [CHR 0x27, CHR 0x5C, CHR 0x27, CHR 0x27] else [c]) v) @ CHR 0x27 # s)
   = sh_words False (Some (u @ v)) s"
  by (induction v arbitrary: u) (simp_all add: Let_def)

lemma sh_words_shell_quote:
  "sh_words False w (shell_quote v @ s) = sh_words False (Some ((case w of None \<Rightarrow> [] | Some u \<Rightarrow> u) @ v)) s"
  using sh_words_quoted [of "case w of None \<Rightarrow> [] | Some u \<Rightarrow> u" v s] by (simp add: shell_quote_def Let_def)

lemma sh_words_plain:
  "list_all sh_plain p \<Longrightarrow> p \<noteq> [] \<Longrightarrow>
   sh_words False w (p @ s) = sh_words False (Some ((case w of None \<Rightarrow> [] | Some u \<Rightarrow> u) @ p)) s"
proof (induction p arbitrary: w)
  case (Cons c p)
  then have "c \<noteq> CHR 0x27" "c \<noteq> CHR '' ''" "c \<noteq> CHR 0x5C"
    by (auto simp: sh_plain_def is_ascii_alphanumeric_def is_ascii_lowercase_def is_ascii_uppercase_def is_ascii_digit_def)
  with Cons show ?case by (cases "p = []") (simp_all add: Let_def)
qed simp

lemma sh_words_blank: "sh_words False (Some u) (CHR '' '' # s) = map_option ((#) u) (sh_words False None s)"
  by (simp add: Let_def)

text \<open>The words an advised command is meant to be.\<close>

definition advised_words :: "access_via \<Rightarrow> string \<Rightarrow> object_class \<Rightarrow> acl_perms \<Rightarrow> string list" where
  "advised_words via pth cls access =
     (case via of
        ViaOtherBits \<Rightarrow>
          [''chmod'', if perm_write access then ''o-w'' else if cls = ClsSecret then ''640'' else ''o-rwx'', pth]
      | ViaAclUser u \<Rightarrow> [''setfacl'', ''-x'', ''u:'' @ u, pth]
      | ViaAclGroup g \<Rightarrow> [''setfacl'', ''-x'', ''g:'' @ g, pth]
      | ViaGroup _ \<Rightarrow> if perm_write access then [''chmod'', ''g-w'', pth] else [pth]
      | ViaOwner \<Rightarrow> [pth])"

definition shown_command :: "string \<Rightarrow> string list \<Rightarrow> bool" where
  "shown_command hint ws \<longleftrightarrow>
     (\<exists>before cmd after. hint = before @ tick @ cmd @ tick @ after \<and> CHR 0x60 \<notin> set before
        \<and> sh_words False None cmd = Some ws)"

lemma chmod_words:
  assumes "list_all sh_plain m" "m \<noteq> []"
  shows "sh_words False None (''chmod '' @ m @ '' '' @ shell_quote p) = Some [''chmod'', m, p]"
proof -
  have "sh_words False None (''chmod'' @ CHR '' '' # m @ CHR '' '' # shell_quote p) = Some [''chmod'', m, p]"
    using sh_words_plain [OF assms, of None "CHR '' '' # shell_quote p"]
      sh_words_shell_quote [of None p "[]"] sh_words_plain [of "''chmod''" None "CHR '' '' # m @ CHR '' '' # shell_quote p"]
    by (simp add: sh_words_blank sh_plain_def is_ascii_alphanumeric_def is_ascii_lowercase_def del: sh_words.simps(2))
  then show ?thesis by simp
qed


lemma setfacl_words:
  assumes "list_all sh_plain k" "k \<noteq> []"
  shows "sh_words False None (''setfacl -x '' @ k @ shell_quote n @ '' '' @ shell_quote p) = Some [''setfacl'', ''-x'', k @ n, p]"
proof -
  let ?t = "shell_quote n @ CHR '' '' # shell_quote p"
  have "sh_words False None (k @ ?t) = Some [k @ n, p]"
    using sh_words_plain [OF assms, of None ?t] sh_words_shell_quote [of "Some k" n "CHR '' '' # shell_quote p"]
      sh_words_shell_quote [of None p "[]"] by (simp add: sh_words_blank del: sh_words.simps(2))
  then have "sh_words False None (''-x'' @ CHR '' '' # k @ ?t) = Some [''-x'', k @ n, p]"
    using sh_words_plain [of "''-x''" None "CHR '' '' # k @ ?t"]
    by (simp add: sh_words_blank sh_plain_def is_ascii_alphanumeric_def is_ascii_lowercase_def del: sh_words.simps(2))
  then have "sh_words False None (''setfacl'' @ CHR '' '' # ''-x'' @ CHR '' '' # k @ ?t) = Some [''setfacl'', ''-x'', k @ n, p]"
    using sh_words_plain [of "''setfacl''" None "CHR '' '' # ''-x'' @ CHR '' '' # k @ ?t"]
    by (simp add: sh_words_blank sh_plain_def is_ascii_alphanumeric_def is_ascii_lowercase_def del: sh_words.simps(2))
  then show ?thesis by simp
qed

lemma quoted_words: "sh_words False None (shell_quote p) = Some [p]"
  using sh_words_shell_quote [of None p "[]"] by simp

lemma shown_commandI:
  "hint = before @ tick @ cmd @ tick @ after \<Longrightarrow> CHR 0x60 \<notin> set before \<Longrightarrow> sh_words False None cmd = Some ws \<Longrightarrow> shown_command hint ws"
  by (auto simp: shown_command_def)

text \<open>
  An advised command cannot be subverted by a scanned name.  Whatever bytes a path, a user or
  a group of an ACL has, the command shown in a manual hint is read by a shell as exactly the
  words it was built from, with the path and the principal as one literal word each.
\<close>

theorem hint_command_literal: "shown_command (ambient_hint via pth cls access) (advised_words via pth cls access)"
proof -
  have plain: "list_all sh_plain ''o-w''" "list_all sh_plain ''640''" "list_all sh_plain ''o-rwx''" "list_all sh_plain ''g-w''"
    "list_all sh_plain ''u:''" "list_all sh_plain ''g:''"
    by (simp_all add: sh_plain_def is_ascii_alphanumeric_def is_ascii_lowercase_def is_ascii_digit_def)
  have c: "sh_words False None (''chmod o-w '' @ shell_quote pth) = Some [''chmod'', ''o-w'', pth]"
    "sh_words False None (''chmod 640 '' @ shell_quote pth) = Some [''chmod'', ''640'', pth]"
    "sh_words False None (''chmod o-rwx '' @ shell_quote pth) = Some [''chmod'', ''o-rwx'', pth]"
    "sh_words False None (''chmod g-w '' @ shell_quote pth) = Some [''chmod'', ''g-w'', pth]"
    using chmod_words [OF plain(1), of pth] chmod_words [OF plain(2), of pth] chmod_words [OF plain(3), of pth]
      chmod_words [OF plain(4), of pth] by (simp_all del: sh_words.simps)
  have s: "sh_words False None (''setfacl -x u:'' @ shell_quote n @ '' '' @ shell_quote pth) = Some [''setfacl'', ''-x'', ''u:'' @ n, pth]"
    "sh_words False None (''setfacl -x g:'' @ shell_quote n @ '' '' @ shell_quote pth) = Some [''setfacl'', ''-x'', ''g:'' @ n, pth]" for n
    using setfacl_words [OF plain(5), of n pth] setfacl_words [OF plain(6), of n pth] by (simp_all del: sh_words.simps)
  show ?thesis
  proof (cases via)
    case ViaOwner
    show ?thesis
      by (rule shown_commandI [where cmd = "shell_quote pth" and before = "''review ownership of ''"])
         (simp_all add: ViaOwner ambient_hint_def advised_words_def quoted_words Let_def del: sh_words.simps)
  next
    case (ViaAclUser u)
    show ?thesis
      by (rule shown_commandI [where cmd = "''setfacl -x u:'' @ shell_quote u @ '' '' @ shell_quote pth"
            and before = "''remove the ACL entry manually: ''" and after = "[]"])
         (use s [of u] in \<open>simp_all add: ViaAclUser ambient_hint_def advised_words_def Let_def del: sh_words.simps\<close>)
  next
    case (ViaAclGroup g)
    show ?thesis
      by (rule shown_commandI [where cmd = "''setfacl -x g:'' @ shell_quote g @ '' '' @ shell_quote pth"
            and before = "''remove the ACL entry manually: ''" and after = "[]"])
         (use s [of g] in \<open>simp_all add: ViaAclGroup ambient_hint_def advised_words_def Let_def del: sh_words.simps\<close>)
  next
    case (ViaGroup g)
    show ?thesis
    proof (cases "perm_write access")
      case True
      show ?thesis
        by (rule shown_commandI [where cmd = "''chmod g-w '' @ shell_quote pth"
              and before = "''remove group write manually: ''" and after = "[]"])
           (use c(4) in \<open>simp_all add: True ViaGroup ambient_hint_def advised_words_def Let_def del: sh_words.simps\<close>)
    next
      case False
      show ?thesis
        by (rule shown_commandI [where cmd = "shell_quote pth"
              and before = "''restrict group access manually on ''" and after = "[]"])
           (simp_all add: False ViaGroup ambient_hint_def advised_words_def quoted_words Let_def del: sh_words.simps)
    qed
  next
    case ViaOtherBits
    let ?m = "if perm_write access then ''o-w'' else if cls = ClsSecret then ''640'' else ''o-rwx''"
    show ?thesis
      by (rule shown_commandI [where cmd = "''chmod '' @ ?m @ '' '' @ shell_quote pth" and after = "[]" and before =
              "if perm_write access then ''remove world write manually: ''
               else if cls = ClsSecret then ''remove world read of a secret manually: '' else ''remove world read manually: ''"])
         (use c(1-3) in \<open>simp_all add: ViaOtherBits ambient_hint_def advised_words_def Let_def del: sh_words.simps\<close>)
  qed
qed

lemma derive_risk_iff:
  "derive_risk access cls \<noteq> None \<longleftrightarrow> perm_write access \<or> perm_read access \<and> cls = ClsSecret"
  by (simp add: derive_risk_def)

end
