(* ===== verification/Exposure_Index.thy ===== *)
theory Exposure_Index
  imports Exposure_Taxonomy
begin

text \<open>
  \<^verbatim>\<open>exposure/scope.rs\<close>, \<^verbatim>\<open>exposure/mounts.rs\<close>, \<^verbatim>\<open>exposure/index.rs\<close> and \<^verbatim>\<open>exposure/reach.rs\<close>: the walk of the scan
  roots, the permission index built from it, and the directories a principal can traverse.  The walk
  is over a file system that may change between two calls; it always ends, and on a file system that
  stays as it is it records exactly the inodes in scope.
\<close>

subsection \<open>Scope and mounts\<close>

definition DEFAULT_SCAN_ROOTS :: "path list" where
  "DEFAULT_SCAN_ROOTS = [''/etc'', ''/var'', ''/opt'', ''/usr/local'', ''/srv'', ''/home'', ''/root'']"

definition PSEUDO_FS_ROOTS :: "path list" where
  "PSEUDO_FS_ROOTS = [''/proc'', ''/sys'', ''/dev'', ''/run'']"

definition is_pseudo_fs :: "path \<Rightarrow> bool" where
  "is_pseudo_fs p = list_ex (\<lambda>q. path_eq p q) PSEUDO_FS_ROOTS"

definition NETWORK_FSTYPES :: "string list" where
  "NETWORK_FSTYPES =
     [''nfs'', ''nfs4'', ''cifs'', ''smb3'', ''smbfs'', ''ncpfs'', ''afs'', ''9p'', ''ceph'', ''glusterfs'', ''lustre'',
      ''ocfs2'', ''fuse.sshfs'', ''sshfs'', ''fuse.davfs'', ''davfs'', ''fuse.glusterfs'', ''fuse.cephfs'', ''fuse.rclone'']"

definition PSEUDO_FSTYPES :: "string list" where
  "PSEUDO_FSTYPES =
     [''proc'', ''sysfs'', ''devtmpfs'', ''devpts'', ''cgroup'', ''cgroup2'', ''bpf'', ''tracefs'', ''debugfs'',
      ''securityfs'', ''pstore'', ''mqueue'', ''hugetlbfs'', ''configfs'', ''fusectl'', ''binfmt_misc'', ''autofs'',
      ''rpc_pipefs'', ''nsfs'', ''efivarfs'']"

definition is_skip_fstype :: "string \<Rightarrow> bool" where
  "is_skip_fstype t \<longleftrightarrow> t \<in> set NETWORK_FSTYPES \<or> t \<in> set PSEUDO_FSTYPES"

text \<open>The first character of a string and what follows it, none of an empty string.\<close>

definition next_char :: "string \<Rightarrow> string \<times> string" where
  "next_char s =
     (case s of
        [] \<Rightarrow> ([], [])
      | a # _ \<Rightarrow>
          (let n = (if byte a < 192 then 1 else if byte a < 224 then 2 else if byte a < 240 then 3 else 4) in
           (take n s, drop n s)))"

lemma next_char_length: "length (snd (next_char s)) \<le> length s"
  by (auto simp: next_char_def Let_def split: list.splits)

text \<open>
  After a backslash the loop takes three characters when the first is \<open>0\<close> or \<open>1\<close>, or as many as
  are left.
\<close>

function unescape_mountinfo :: "string \<Rightarrow> string" where
  "unescape_mountinfo [] = []"
| "unescape_mountinfo (c # s) =
     (if c \<noteq> CHR 0x5C then c # unescape_mountinfo s
      else case s of
             [] \<Rightarrow> [CHR 0x5C]
           | a # s1 \<Rightarrow>
               if a = CHR ''0'' \<or> a = CHR ''1'' then
                 (let s2 = snd (next_char s1); t = snd (next_char s2); x = a # fst (next_char s1) @ fst (next_char s2) in
                  (if x = ''040'' then '' ''
                   else if x = ''011'' then [CHR 0x09]
                   else if x = ''012'' then [CHR 0x0A]
                   else if x = ''134'' then [CHR 0x5C]
                   else CHR 0x5C # x) @ unescape_mountinfo t)
               else CHR 0x5C # unescape_mountinfo s)"
  by pat_completeness auto
termination
  by (relation "measure length")
     (auto simp: less_Suc_eq_le intro: order_trans [OF next_char_length] order_trans [OF next_char_length le_SucI])

declare unescape_mountinfo.simps [simp del]

definition parse_mountinfo_line :: "string \<Rightarrow> (string \<times> string) option" where
  "parse_mountinfo_line line =
     (case split_on CHR '' '' line of
        _ # _ # _ # _ # mount_point # rest \<Rightarrow>
          (case dropWhile (\<lambda>t. t \<noteq> ''-'') rest of
             _ # fstype # _ \<Rightarrow> Some (unescape_mountinfo mount_point, fstype)
           | _ \<Rightarrow> None)
      | _ \<Rightarrow> None)"

type_synonym mount_table = "(string, string) btree"

definition mount_line_step :: "string \<Rightarrow> mount_table \<Rightarrow> mount_table" where
  "mount_line_step line skip =
     (case parse_mountinfo_line line of
        Some (mount_point, fstype) \<Rightarrow> if is_skip_fstype fstype then bt_insert mount_point fstype skip else skip
      | None \<Rightarrow> skip)"

definition from_mountinfo :: "string \<Rightarrow> mount_table" where
  "from_mountinfo text = fold mount_line_step (str_lines text) []"

definition skip_fstype :: "mount_table \<Rightarrow> path \<Rightarrow> string option" where
  "skip_fstype mt p = bt_get mt (utf8_lossy p)"

subsection \<open>The walk\<close>

unbundle bit_operations_syntax

record fs_meta =
  fm_uid :: u32
  fm_gid :: u32
  fm_mode :: u32
  fm_dev :: u64
  fm_ino :: u64

definition S_IFLNK :: u32 where "S_IFLNK = 40960"

definition meta_is_dir :: "fs_meta \<Rightarrow> bool" where
  "meta_is_dir m \<longleftrightarrow> fm_mode m AND S_IFMT = S_IFDIR"

definition meta_is_symlink :: "fs_meta \<Rightarrow> bool" where
  "meta_is_symlink m \<longleftrightarrow> fm_mode m AND S_IFMT = S_IFLNK"

definition meta_id :: "fs_meta \<Rightarrow> u64 \<times> u64" where
  "meta_id m = (fm_dev m, fm_ino m)"

text \<open>What \<open>lstat\<close> and \<open>read_dir\<close> answer to the call made at a time; every call takes one tick.\<close>

record fs_world =
  fx_lstat :: "nat \<Rightarrow> path \<Rightarrow> io_error + fs_meta"
  fx_read_dir :: "nat \<Rightarrow> path \<Rightarrow> io_error + string list"

record inode_stat =
  st_path :: string
  st_uid :: u32
  st_gid :: u32
  st_mode :: u32
  st_is_dir :: bool

record skipped_mount =
  sk_path :: string
  sk_fstype :: string

record walk_outcome =
  wo_stats :: "inode_stat list"
  wo_skipped :: "skipped_mount list"

datatype exposure_error = ExposureWalk path io_error

definition stat_of :: "path \<Rightarrow> fs_meta \<Rightarrow> inode_stat" where
  "stat_of p m =
     \<lparr>st_path = utf8_lossy p, st_uid = fm_uid m, st_gid = fm_gid m, st_mode = fm_mode m, st_is_dir = meta_is_dir m\<rparr>"

record walk_state =
  wk_tick :: nat
  wk_visited :: "(u64 \<times> u64) list"
  wk_stack :: "(path \<times> u64 \<times> u64) list"
  wk_out :: walk_outcome

definition push_stat :: "fs_meta \<Rightarrow> path \<Rightarrow> walk_outcome \<Rightarrow> walk_outcome" where
  "push_stat m p out = out\<lparr>wo_stats := wo_stats out @ [stat_of p m]\<rparr>"

definition push_skip :: "path \<Rightarrow> string \<Rightarrow> walk_outcome \<Rightarrow> walk_outcome" where
  "push_skip p ft out = out\<lparr>wo_skipped := wo_skipped out @ [\<lparr>sk_path = utf8_lossy p, sk_fstype = ft\<rparr>]\<rparr>"

definition dir_inode_unchanged :: "fs_world \<Rightarrow> nat \<Rightarrow> path \<Rightarrow> u64 \<Rightarrow> u64 \<Rightarrow> bool" where
  "dir_inode_unchanged fs t dir dev ino =
     (case fx_lstat fs t dir of Ok m \<Rightarrow> meta_is_dir m \<and> meta_id m = (dev, ino) | Err _ \<Rightarrow> False)"

definition visit_entry :: "fs_world \<Rightarrow> mount_table \<Rightarrow> path \<Rightarrow> string \<Rightarrow> walk_state \<Rightarrow> walk_state" where
  "visit_entry fs mt dir nm st =
     (let p = path_join dir nm in
      if is_pseudo_fs p then st
      else
        (let st1 = st\<lparr>wk_tick := Suc (wk_tick st)\<rparr> in
         case fx_lstat fs (wk_tick st) p of
           Err _ \<Rightarrow> st1
         | Ok m \<Rightarrow>
             if meta_is_symlink m then st1
             else
               (let st2 = st1\<lparr>wk_out := push_stat m p (wk_out st1)\<rparr> in
                if \<not> meta_is_dir m then st2
                else if meta_id m \<in> set (wk_visited st2) then st2
                else
                  (let st3 = st2\<lparr>wk_visited := meta_id m # wk_visited st2\<rparr> in
                   case skip_fstype mt p of
                     Some ft \<Rightarrow> st3\<lparr>wk_out := push_skip p ft (wk_out st3)\<rparr>
                   | None \<Rightarrow> st3\<lparr>wk_stack := (p, meta_id m) # wk_stack st3\<rparr>))))"

text \<open>One turn of the loop: a directory is taken from the stack, read, confirmed and its entries visited.\<close>

definition walk_step :: "fs_world \<Rightarrow> mount_table \<Rightarrow> walk_state \<Rightarrow> walk_state" where
  "walk_step fs mt st =
     (case wk_stack st of
        [] \<Rightarrow> st
      | (dir, exp_dev, exp_ino) # rest \<Rightarrow>
          (let st0 = st\<lparr>wk_stack := rest\<rparr> in
           case fx_read_dir fs (wk_tick st) dir of
             Err _ \<Rightarrow> st0\<lparr>wk_tick := Suc (wk_tick st)\<rparr>
           | Ok names \<Rightarrow>
               (let st1 = st0\<lparr>wk_tick := Suc (Suc (wk_tick st))\<rparr> in
                if \<not> dir_inode_unchanged fs (Suc (wk_tick st)) dir exp_dev exp_ino then st1
                else fold (visit_entry fs mt dir) names st1)))"

text \<open>
  A directory is put on the stack only when its inode is new, so the inodes not yet visited and the
  stack shrink together.
\<close>

definition walk_room :: "walk_state \<Rightarrow> nat" where
  "walk_room st = card (- set (wk_visited st)) + length (wk_stack st)"

lemma visit_entry_room: "walk_room (visit_entry fs mt dir nm st) \<le> walk_room st"
proof -
  have "Suc (card (- insert x (set vs))) = card (- set vs)" if "x \<notin> set vs" for x :: "u64 \<times> u64" and vs
  proof -
    have "- insert x (set vs) = - set vs - {x}" by auto
    then show ?thesis using that by (simp only:) (rule card_Suc_Diff1, simp_all)
  qed
  then show ?thesis
    by (fastforce simp: visit_entry_def walk_room_def Let_def split: sum.splits option.splits)
qed

lemma visit_entries_room: "walk_room (fold (visit_entry fs mt dir) names st) \<le> walk_room st"
  by (induction names arbitrary: st) (auto intro: order_trans [OF _ visit_entry_room])

lemma walk_step_room: "wk_stack st \<noteq> [] \<Longrightarrow> walk_room (walk_step fs mt st) < walk_room st"
proof -
  assume "wk_stack st \<noteq> []"
  then obtain d x y rest where s: "wk_stack st = (d, x, y) # rest" by (cases "wk_stack st") auto
  let ?st1 = "st\<lparr>wk_stack := rest, wk_tick := Suc (Suc (wk_tick st))\<rparr>"
  have "walk_room ?st1 < walk_room st" by (simp add: walk_room_def s)
  moreover have "walk_room (st\<lparr>wk_stack := rest, wk_tick := Suc (wk_tick st)\<rparr>) < walk_room st" by (simp add: walk_room_def s)
  ultimately show ?thesis
    using visit_entries_room [of fs mt d _ ?st1]
    by (auto simp: walk_step_def s Let_def split: sum.splits intro: le_less_trans)
qed

function walk_loop :: "fs_world \<Rightarrow> mount_table \<Rightarrow> walk_state \<Rightarrow> walk_state" where
  "walk_loop fs mt st = (if wk_stack st = [] then st else walk_loop fs mt (walk_step fs mt st))"
  by pat_completeness auto
termination by (relation "measure (\<lambda>(fs, mt, st). walk_room st)") (simp_all add: walk_step_room)

declare walk_loop.simps [simp del]

definition walk_root ::
    "fs_world \<Rightarrow> mount_table \<Rightarrow> path \<Rightarrow> nat \<times> walk_outcome \<Rightarrow> exposure_error + (nat \<times> walk_outcome)" where
  "walk_root fs mt root acc =
     (case acc of (t, out) \<Rightarrow>
        if is_pseudo_fs root then Ok (t, out)
        else case fx_lstat fs t root of
               Err e \<Rightarrow> if e = IoNotFound then Ok (Suc t, out) else Err (ExposureWalk root e)
             | Ok m \<Rightarrow>
                 if meta_is_symlink m then Ok (Suc t, out)
                 else (case skip_fstype mt root of
                         Some ft \<Rightarrow> Ok (Suc t, push_skip root ft out)
                       | None \<Rightarrow>
                           (let out1 = push_stat m root out in
                            if \<not> meta_is_dir m then Ok (Suc t, out1)
                            else
                              (let st = walk_loop fs mt
                                          \<lparr>wk_tick = Suc t, wk_visited = [meta_id m], wk_stack = [(root, meta_id m)],
                                           wk_out = out1\<rparr>
                               in Ok (wk_tick st, wk_out st)))))"

definition walk :: "fs_world \<Rightarrow> mount_table \<Rightarrow> path list \<Rightarrow> exposure_error + walk_outcome" where
  "walk fs mt roots =
     try_bind (try_fold (walk_root fs mt) roots (0, \<lparr>wo_stats = [], wo_skipped = []\<rparr>)) (\<lambda>(_, out). Ok out)"


subsection \<open>What the walk records\<close>

definition steady :: "fs_world \<Rightarrow> bool" where
  "steady fs \<longleftrightarrow> (\<forall>t. fx_lstat fs t = fx_lstat fs 0 \<and> fx_read_dir fs t = fx_read_dir fs 0)"

text \<open>An inode with its metadata, a directory with its listed entries, a directory that is descended.\<close>

definition inode_at :: "fs_world \<Rightarrow> path \<Rightarrow> fs_meta \<Rightarrow> bool" where
  "inode_at fs p m \<longleftrightarrow> fx_lstat fs 0 p = Ok m \<and> \<not> meta_is_symlink m"

definition listed_in :: "fs_world \<Rightarrow> path \<Rightarrow> path \<Rightarrow> bool" where
  "listed_in fs d p \<longleftrightarrow>
     (\<exists>names nm. fx_read_dir fs 0 d = Ok names \<and> nm \<in> set names \<and> p = path_join d nm) \<and> \<not> is_pseudo_fs p"

definition descended :: "fs_world \<Rightarrow> mount_table \<Rightarrow> path \<Rightarrow> bool" where
  "descended fs mt d \<longleftrightarrow> (\<exists>m. inode_at fs d m \<and> meta_is_dir m) \<and> skip_fstype mt d = None"

inductive in_scope :: "fs_world \<Rightarrow> mount_table \<Rightarrow> path \<Rightarrow> path \<Rightarrow> bool"
  for fs mt root where
    scope_root: "inode_at fs root m \<Longrightarrow> in_scope fs mt root root"
  | scope_entry: "in_scope fs mt root d \<Longrightarrow> descended fs mt d \<Longrightarrow> listed_in fs d p \<Longrightarrow> inode_at fs p m \<Longrightarrow> in_scope fs mt root p"

inductive_cases in_scopeE: "in_scope fs mt root p"

text \<open>No directory in scope is met under two names, as it would be through a bind mount.\<close>

definition unaliased :: "fs_world \<Rightarrow> mount_table \<Rightarrow> path \<Rightarrow> bool" where
  "unaliased fs mt root \<longleftrightarrow>
     (\<forall>p q m n. in_scope fs mt root p \<longrightarrow> in_scope fs mt root q \<longrightarrow> inode_at fs p m \<longrightarrow> inode_at fs q n \<longrightarrow>
        meta_is_dir m \<longrightarrow> meta_is_dir n \<longrightarrow> meta_id m = meta_id n \<longrightarrow> p = q)"

definition recorded :: "fs_world \<Rightarrow> walk_state \<Rightarrow> path \<Rightarrow> bool" where
  "recorded fs st p \<longleftrightarrow>
     (\<forall>m. inode_at fs p m \<longrightarrow> stat_of p m \<in> set (wo_stats (wk_out st)) \<and> (meta_is_dir m \<longrightarrow> meta_id m \<in> set (wk_visited st)))"

definition entries_recorded :: "fs_world \<Rightarrow> walk_state \<Rightarrow> path \<Rightarrow> bool" where
  "entries_recorded fs st d \<longleftrightarrow> (\<forall>p. listed_in fs d p \<longrightarrow> recorded fs st p)"

text \<open>
  The invariant, while the entries of the directories in \<open>D\<close> are being visited: what is recorded
  beyond the earlier \<open>S0\<close> is in scope, the stack holds descended directories, and a visited
  directory waits on the stack or has all its entries recorded.
\<close>

definition walk_inv :: "fs_world \<Rightarrow> mount_table \<Rightarrow> path \<Rightarrow> inode_stat set \<Rightarrow> path set \<Rightarrow> walk_state \<Rightarrow> bool" where
  "walk_inv fs mt root S0 D st \<longleftrightarrow>
     S0 \<subseteq> set (wo_stats (wk_out st))
     \<and> set (wo_stats (wk_out st)) \<subseteq> S0 \<union> {stat_of p m | p m. in_scope fs mt root p \<and> inode_at fs p m}
     \<and> recorded fs st root
     \<and> (\<forall>(d, x) \<in> set (wk_stack st). in_scope fs mt root d \<and> descended fs mt d \<and> (\<exists>m. inode_at fs d m \<and> meta_id m = x))
     \<and> (\<forall>x \<in> set (wk_visited st). \<exists>d m. in_scope fs mt root d \<and> inode_at fs d m \<and> meta_is_dir m \<and> meta_id m = x
          \<and> (descended fs mt d \<longrightarrow> d \<in> fst ` set (wk_stack st) \<or> d \<in> D \<or> entries_recorded fs st d))"

lemma inode_at_unique: "inode_at fs p m \<Longrightarrow> inode_at fs p n \<Longrightarrow> m = n"
  by (simp add: inode_at_def)

lemma recorded_mono:
  assumes "recorded fs st p" "set (wo_stats (wk_out st)) \<subseteq> set (wo_stats (wk_out st'))" "set (wk_visited st) \<subseteq> set (wk_visited st')"
  shows "recorded fs st' p"
  using assms by (auto simp: recorded_def)

lemma visit_entry_grows:
  "set (wo_stats (wk_out st)) \<subseteq> set (wo_stats (wk_out (visit_entry fs mt d nm st)))"
  "set (wk_visited st) \<subseteq> set (wk_visited (visit_entry fs mt d nm st))"
  by (auto simp: visit_entry_def Let_def push_stat_def push_skip_def split: sum.splits option.splits)

lemma steadyD: "steady fs \<Longrightarrow> fx_lstat fs t = fx_lstat fs 0" "steady fs \<Longrightarrow> fx_read_dir fs t = fx_read_dir fs 0"
  unfolding steady_def by blast+

text \<open>The cases of one visit on a steady file system.\<close>

lemma visit_entry_cases:
  fixes fs mt d nm st
  assumes "steady fs"
  defines "p \<equiv> path_join d nm" and "st' \<equiv> visit_entry fs mt d nm st"
  obtains
      (nothing) "wk_visited st' = wk_visited st" "wk_stack st' = wk_stack st" "wk_out st' = wk_out st"
        "is_pseudo_fs p \<or> (\<forall>m. \<not> inode_at fs p m)"
    | (leaf) m where "\<not> is_pseudo_fs p" "inode_at fs p m" "\<not> meta_is_dir m \<or> meta_id m \<in> set (wk_visited st)"
        "wk_visited st' = wk_visited st" "wk_stack st' = wk_stack st" "wk_out st' = push_stat m p (wk_out st)"
    | (mount) m ft where "\<not> is_pseudo_fs p" "inode_at fs p m" "meta_is_dir m" "\<not> descended fs mt p"
        "wk_visited st' = meta_id m # wk_visited st" "wk_stack st' = wk_stack st"
        "wk_out st' = push_skip p ft (push_stat m p (wk_out st))"
    | (enter) m where "\<not> is_pseudo_fs p" "inode_at fs p m" "meta_is_dir m" "descended fs mt p"
        "wk_visited st' = meta_id m # wk_visited st" "wk_stack st' = (p, meta_id m) # wk_stack st"
        "wk_out st' = push_stat m p (wk_out st)"
proof (cases "is_pseudo_fs p")
  case True
  show ?thesis by (rule nothing) (use True in \<open>simp_all add: st'_def visit_entry_def Let_def flip: p_def\<close>)
next
  case pseudo: False
  have at: "fx_lstat fs (wk_tick st) p = fx_lstat fs 0 p" by (rule fun_cong [OF steadyD(1) [OF assms(1)]])
  show ?thesis
  proof (cases "\<exists>m. inode_at fs p m")
    case False
    show ?thesis
      by (rule nothing)
         (use False pseudo in \<open>auto simp: st'_def visit_entry_def Let_def at inode_at_def simp flip: p_def split: sum.splits\<close>)
  next
    case True
    then obtain m where m: "inode_at fs p m" ..
    then have l: "fx_lstat fs 0 p = Ok m" "\<not> meta_is_symlink m" by (simp_all add: inode_at_def)
    have e: "visit_entry fs mt d nm st =
        (let st2 = st\<lparr>wk_tick := Suc (wk_tick st), wk_out := push_stat m p (wk_out st)\<rparr> in
         if \<not> meta_is_dir m then st2 else if meta_id m \<in> set (wk_visited st2) then st2
         else (let st3 = st2\<lparr>wk_visited := meta_id m # wk_visited st2\<rparr> in
               case skip_fstype mt p of
                 Some ft \<Rightarrow> st3\<lparr>wk_out := push_skip p ft (wk_out st3)\<rparr>
               | None \<Rightarrow> st3\<lparr>wk_stack := (p, meta_id m) # wk_stack st3\<rparr>))"
      using pseudo l at by (simp add: visit_entry_def Let_def flip: p_def)
    show ?thesis
    proof (cases "\<not> meta_is_dir m \<or> meta_id m \<in> set (wk_visited st)")
      case True
      show ?thesis by (rule leaf [of m]) (use True pseudo m in \<open>auto simp: st'_def e Let_def\<close>)
    next
      case False
      then show ?thesis
        using pseudo m mount [of m] enter [of m]
        by (cases "skip_fstype mt p") (auto simp: st'_def e Let_def descended_def)
    qed
  qed
qed


lemma visit_entry_recorded:
  assumes "steady fs" and "\<not> is_pseudo_fs (path_join d nm)"
  shows "recorded fs (visit_entry fs mt d nm st) (path_join d nm)"
  by (rule visit_entry_cases [OF assms(1), where d = d and nm = nm and st = st and mt = mt])
     (use assms(2) inode_at_unique in \<open>fastforce simp: recorded_def push_stat_def push_skip_def\<close>)+

lemma entries_recorded_mono:
  "entries_recorded fs st d \<Longrightarrow> set (wo_stats (wk_out st)) \<subseteq> set (wo_stats (wk_out st')) \<Longrightarrow>
   set (wk_visited st) \<subseteq> set (wk_visited st') \<Longrightarrow> entries_recorded fs st' d"
  unfolding entries_recorded_def using recorded_mono by blast

lemma walk_inv_grow:
  assumes inv: "walk_inv fs mt root S0 D st"
    and stats: "set (wo_stats (wk_out st')) = insert s (set (wo_stats (wk_out st)))"
    and s: "\<exists>p m. s = stat_of p m \<and> in_scope fs mt root p \<and> inode_at fs p m"
    and vis: "wk_visited st' = wk_visited st \<or>
      (\<exists>p m. wk_visited st' = meta_id m # wk_visited st \<and> in_scope fs mt root p \<and> inode_at fs p m \<and> meta_is_dir m
         \<and> (\<not> descended fs mt p \<or> p \<in> fst ` set (wk_stack st')))"
    and stack: "wk_stack st' = wk_stack st \<or>
      (\<exists>p m. wk_stack st' = (p, meta_id m) # wk_stack st \<and> in_scope fs mt root p \<and> descended fs mt p \<and> inode_at fs p m)"
  shows "walk_inv fs mt root S0 D st'"
proof -
  have g1: "set (wo_stats (wk_out st)) \<subseteq> set (wo_stats (wk_out st'))" using stats by auto
  have g2: "set (wk_visited st) \<subseteq> set (wk_visited st')" using vis by auto
  have g3: "fst ` set (wk_stack st) \<subseteq> fst ` set (wk_stack st')" using stack by auto
  note rec = recorded_mono [OF _ g1 g2] and ent = entries_recorded_mono [OF _ g1 g2]
  have V: "\<exists>d m. in_scope fs mt root d \<and> inode_at fs d m \<and> meta_is_dir m \<and> meta_id m = x
      \<and> (descended fs mt d \<longrightarrow> d \<in> fst ` set (wk_stack st') \<or> d \<in> D \<or> entries_recorded fs st' d)"
    if x: "x \<in> set (wk_visited st')" for x
  proof (cases "x \<in> set (wk_visited st)")
    case True
    then obtain d m where dm: "in_scope fs mt root d \<and> inode_at fs d m \<and> meta_is_dir m \<and> meta_id m = x"
      and w: "descended fs mt d \<longrightarrow> d \<in> fst ` set (wk_stack st) \<or> d \<in> D \<or> entries_recorded fs st d"
      using inv unfolding walk_inv_def by blast
    from w have "descended fs mt d \<longrightarrow> d \<in> fst ` set (wk_stack st') \<or> d \<in> D \<or> entries_recorded fs st' d"
      using subsetD [OF g3] ent [of fs d] by (elim imp_forward) auto
    with dm show ?thesis by (intro exI [of _ d] exI [of _ m]) simp
  next
    case False
    with vis x have "\<exists>p m. wk_visited st' = meta_id m # wk_visited st \<and> in_scope fs mt root p \<and> inode_at fs p m \<and> meta_is_dir m
         \<and> (\<not> descended fs mt p \<or> p \<in> fst ` set (wk_stack st'))"
      by (elim disjE) simp_all
    then obtain p m where v: "wk_visited st' = meta_id m # wk_visited st"
      and pm: "in_scope fs mt root p \<and> inode_at fs p m \<and> meta_is_dir m" "\<not> descended fs mt p \<or> p \<in> fst ` set (wk_stack st')"
      by blast
    have "meta_id m = x" using v x False by simp
    with pm show ?thesis by (intro exI [of _ p] exI [of _ m]) blast
  qed
  have K: "\<forall>(d, x) \<in> set (wk_stack st'). in_scope fs mt root d \<and> descended fs mt d \<and> (\<exists>m. inode_at fs d m \<and> meta_id m = x)"
  proof -
    have base: "\<forall>(d, x) \<in> set (wk_stack st). in_scope fs mt root d \<and> descended fs mt d \<and> (\<exists>m. inode_at fs d m \<and> meta_id m = x)"
      using inv unfolding walk_inv_def by (elim conjE)
    from stack show ?thesis
    proof
      assume "wk_stack st' = wk_stack st"
      then show ?thesis using base by (simp only:)
    next
      assume "\<exists>p m. wk_stack st' = (p, meta_id m) # wk_stack st \<and> in_scope fs mt root p \<and> descended fs mt p \<and> inode_at fs p m"
      then obtain p m where "wk_stack st' = (p, meta_id m) # wk_stack st" "in_scope fs mt root p" "descended fs mt p" "inode_at fs p m"
        by blast
      then show ?thesis using base by (simp only: list.set ball_simps prod.case simp_thms) blast
    qed
  qed
  have "S0 \<subseteq> set (wo_stats (wk_out st'))" "recorded fs st' root"
    using inv g1 rec unfolding walk_inv_def by blast+
  moreover have "set (wo_stats (wk_out st')) \<subseteq> S0 \<union> {stat_of p m | p m. in_scope fs mt root p \<and> inode_at fs p m}"
    using inv s unfolding walk_inv_def stats by blast
  ultimately show ?thesis unfolding walk_inv_def using V K by blast
qed

lemma visit_entry_inv:
  assumes st: "steady fs" and inv: "walk_inv fs mt root S0 D st"
    and d: "in_scope fs mt root d" "descended fs mt d" and nm: "fx_read_dir fs 0 d = Ok names" "nm \<in> set names"
  shows "walk_inv fs mt root S0 D (visit_entry fs mt d nm st)"
proof -
  let ?p = "path_join d nm"
  have scope: "in_scope fs mt root ?p" if "\<not> is_pseudo_fs ?p" "inode_at fs ?p m" for m
    by (rule scope_entry [OF d _ that(2)]) (use that nm in \<open>auto simp: listed_in_def\<close>)
  show ?thesis
  proof (rule visit_entry_cases [OF st, where d = d and nm = nm and st = st and mt = mt])
    assume "wk_visited (visit_entry fs mt d nm st) = wk_visited st" "wk_stack (visit_entry fs mt d nm st) = wk_stack st"
      "wk_out (visit_entry fs mt d nm st) = wk_out st"
    then show ?thesis using inv unfolding walk_inv_def recorded_def entries_recorded_def by simp
  next
    fix m
    assume a: "\<not> is_pseudo_fs ?p" "inode_at fs ?p m" "wk_visited (visit_entry fs mt d nm st) = wk_visited st"
      "wk_stack (visit_entry fs mt d nm st) = wk_stack st" "wk_out (visit_entry fs mt d nm st) = push_stat m ?p (wk_out st)"
    show ?thesis
      by (rule walk_inv_grow [OF inv, where s = "stat_of ?p m"]) (use a scope [OF a(1, 2)] in \<open>auto simp: push_stat_def\<close>)
  next
    fix m ft
    assume a: "\<not> is_pseudo_fs ?p" "inode_at fs ?p m" "meta_is_dir m" "\<not> descended fs mt ?p"
      "wk_visited (visit_entry fs mt d nm st) = meta_id m # wk_visited st" "wk_stack (visit_entry fs mt d nm st) = wk_stack st"
      "wk_out (visit_entry fs mt d nm st) = push_skip ?p ft (push_stat m ?p (wk_out st))"
    show ?thesis
      by (rule walk_inv_grow [OF inv, where s = "stat_of ?p m"])
         (use a scope [OF a(1, 2)] in \<open>auto simp: push_stat_def push_skip_def\<close>)
  next
    fix m
    assume a: "\<not> is_pseudo_fs ?p" "inode_at fs ?p m" "meta_is_dir m" "descended fs mt ?p"
      "wk_visited (visit_entry fs mt d nm st) = meta_id m # wk_visited st"
      "wk_stack (visit_entry fs mt d nm st) = (?p, meta_id m) # wk_stack st"
      "wk_out (visit_entry fs mt d nm st) = push_stat m ?p (wk_out st)"
    show ?thesis
      by (rule walk_inv_grow [OF inv, where s = "stat_of ?p m"]) (use a scope [OF a(1, 2)] in \<open>auto simp: push_stat_def\<close>)
  qed
qed


lemma visit_entries_inv:
  assumes st: "steady fs" and d: "in_scope fs mt root d" "descended fs mt d" and rd: "fx_read_dir fs 0 d = Ok names"
  shows "walk_inv fs mt root S0 D s \<Longrightarrow> set ns \<subseteq> set names \<Longrightarrow>
    walk_inv fs mt root S0 D (fold (visit_entry fs mt d) ns s)
    \<and> (\<forall>nm \<in> set ns. \<not> is_pseudo_fs (path_join d nm) \<longrightarrow> recorded fs (fold (visit_entry fs mt d) ns s) (path_join d nm))"
proof (induction ns arbitrary: s)
  case (Cons n ns)
  let ?s = "visit_entry fs mt d n s"
  have "walk_inv fs mt root S0 D ?s" using visit_entry_inv [OF st Cons.prems(1) d rd] Cons.prems(2) by simp
  from Cons.IH [OF this] Cons.prems(2)
  have IH: "walk_inv fs mt root S0 D (fold (visit_entry fs mt d) ns ?s)"
    "\<forall>nm \<in> set ns. \<not> is_pseudo_fs (path_join d nm) \<longrightarrow> recorded fs (fold (visit_entry fs mt d) ns ?s) (path_join d nm)"
    by simp_all
  have grow: "set (wo_stats (wk_out t)) \<subseteq> set (wo_stats (wk_out (fold (visit_entry fs mt d) ms t)))
      \<and> set (wk_visited t) \<subseteq> set (wk_visited (fold (visit_entry fs mt d) ms t))" for ms t
    by (induction ms arbitrary: t) (simp, simp, meson subset_trans visit_entry_grows)
  have "recorded fs (fold (visit_entry fs mt d) ns ?s) (path_join d n)" if "\<not> is_pseudo_fs (path_join d n)"
    using recorded_mono [OF visit_entry_recorded [OF st that, of mt s]] grow [of ?s ns] by blast
  then show ?case using IH by simp
qed simp

lemma walk_step_inv:
  assumes st: "steady fs" and inv: "walk_inv fs mt root S0 {} s"
  shows "walk_inv fs mt root S0 {} (walk_step fs mt s)"
proof (cases "wk_stack s")
  case Nil
  then show ?thesis using inv by (simp add: walk_step_def)
next
  case (Cons e rest)
  obtain d x where e: "e = (d, x)" by (cases e)
  then have d: "in_scope fs mt root d" "descended fs mt d" and "\<exists>m. inode_at fs d m \<and> meta_id m = x"
    using inv Cons unfolding walk_inv_def by auto
  then obtain m where m: "inode_at fs d m" "meta_id m = x" by blast
  then have dir: "meta_is_dir m" using d(2) by (auto simp: descended_def dest: inode_at_unique)
  have popped: "walk_inv fs mt root S0 {d} s'"
    if "wk_stack s' = rest" "wk_visited s' = wk_visited s" "wk_out s' = wk_out s" for s'
  proof -
    have "recorded fs s' = recorded fs s" "entries_recorded fs s' = entries_recorded fs s"
      using that by (auto simp: recorded_def entries_recorded_def fun_eq_iff)
    moreover have "\<exists>d' m. in_scope fs mt root d' \<and> inode_at fs d' m \<and> meta_is_dir m \<and> meta_id m = y
        \<and> (descended fs mt d' \<longrightarrow> d' \<in> fst ` set rest \<or> d' \<in> {d} \<or> entries_recorded fs s d')"
      if "y \<in> set (wk_visited s)" for y
    proof -
      have "\<exists>d' m. in_scope fs mt root d' \<and> inode_at fs d' m \<and> meta_is_dir m \<and> meta_id m = y
        \<and> (descended fs mt d' \<longrightarrow> d' \<in> fst ` set (wk_stack s) \<or> d' \<in> {} \<or> entries_recorded fs s d')"
        using inv that unfolding walk_inv_def by blast
      then show ?thesis unfolding Cons e by (elim exE, intro exI) auto
    qed
    ultimately show ?thesis using inv that Cons unfolding walk_inv_def by simp
  qed
  have close: "walk_inv fs mt root S0 {} s'" if "walk_inv fs mt root S0 {d} s'" "entries_recorded fs s' d" for s'
    using that unfolding walk_inv_def by (elim conjE, intro conjI) (assumption+, blast)
  have rd: "fx_read_dir fs (wk_tick s) = fx_read_dir fs 0" by (rule steadyD(2) [OF st])
  show ?thesis
  proof (cases "fx_read_dir fs 0 d")
    case (Inl err)
    let ?s = "s\<lparr>wk_stack := rest, wk_tick := Suc (wk_tick s)\<rparr>"
    have "entries_recorded fs ?s d" using Inl by (simp add: entries_recorded_def listed_in_def)
    then have "walk_inv fs mt root S0 {} ?s" using close popped [of ?s] by simp
    then show ?thesis using Inl Cons e rd by (simp add: walk_step_def Let_def split: prod.splits)
  next
    case (Inr names)
    let ?s = "s\<lparr>wk_stack := rest, wk_tick := Suc (Suc (wk_tick s))\<rparr>"
    let ?t = "fold (visit_entry fs mt d) names ?s"
    have "walk_inv fs mt root S0 {d} ?s" by (rule popped) simp_all
    note V = visit_entries_inv [OF st d Inr this order_refl]
    then have "entries_recorded fs ?t d" using Inr by (auto simp: entries_recorded_def listed_in_def)
    then have t: "walk_inv fs mt root S0 {} ?t" using close V by blast
    have "dir_inode_unchanged fs (Suc (wk_tick s)) d (fst x) (snd x)"
      using m dir steadyD(1) [OF st, of "Suc (wk_tick s)"] by (simp add: dir_inode_unchanged_def inode_at_def)
    then have "walk_step fs mt s = ?t" using Inr Cons e rd by (simp add: walk_step_def Let_def case_prod_unfold)
    then show ?thesis using t by simp
  qed
qed

lemma walk_loop_inv: "steady fs \<Longrightarrow> walk_inv fs mt root S0 {} s \<Longrightarrow> walk_inv fs mt root S0 {} (walk_loop fs mt s)"
proof (induction fs mt s rule: walk_loop.induct)
  case (1 fs mt s)
  then show ?case by (cases "wk_stack s = []") (simp_all add: walk_loop.simps [of fs mt s] walk_step_inv)
qed

lemma walk_loop_done: "wk_stack (walk_loop fs mt s) = []"
proof (induction fs mt s rule: walk_loop.induct)
  case (1 fs mt s)
  then show ?case by (cases "wk_stack s = []") (simp_all add: walk_loop.simps [of fs mt s])
qed


lemma walk_loop_complete:
  assumes inv: "walk_inv fs mt root S0 {} s" and "wk_stack s = []" and un: "unaliased fs mt root"
  shows "in_scope fs mt root p \<Longrightarrow> recorded fs s p"
proof (induction p rule: in_scope.induct)
  case (scope_root m)
  then show ?case using inv by (simp add: walk_inv_def)
next
  case (scope_entry d p m)
  obtain n where n: "inode_at fs d n" "meta_is_dir n" using scope_entry by (auto simp: descended_def)
  then have "meta_id n \<in> set (wk_visited s)" using scope_entry by (simp add: recorded_def)
  then obtain d' n' where d': "in_scope fs mt root d'" "inode_at fs d' n'" "meta_is_dir n'" "meta_id n' = meta_id n"
    and w: "descended fs mt d' \<longrightarrow> d' \<in> fst ` set (wk_stack s) \<or> d' \<in> {} \<or> entries_recorded fs s d'"
    using inv unfolding walk_inv_def by blast
  have "d' = d" using un d' n scope_entry.hyps(1) unfolding unaliased_def by blast
  then have "entries_recorded fs s d" using w scope_entry assms(2) by simp
  then show ?case using scope_entry by (simp add: entries_recorded_def)
qed

text \<open>The inodes of the roots the walk takes up.\<close>

definition admitted :: "fs_world \<Rightarrow> mount_table \<Rightarrow> path \<Rightarrow> bool" where
  "admitted fs mt root \<longleftrightarrow> \<not> is_pseudo_fs root \<and> (\<exists>m. inode_at fs root m) \<and> skip_fstype mt root = None"

definition root_stats :: "fs_world \<Rightarrow> mount_table \<Rightarrow> path \<Rightarrow> inode_stat set" where
  "root_stats fs mt root =
     (if admitted fs mt root then {stat_of p m | p m. in_scope fs mt root p \<and> inode_at fs p m} else {})"

lemma in_scope_file:
  assumes "inode_at fs root m" "\<not> meta_is_dir m"
  shows "in_scope fs mt root p \<longleftrightarrow> p = root"
proof
  show "in_scope fs mt root p \<Longrightarrow> p = root"
    by (induction rule: in_scope.induct) (use assms in \<open>auto simp: descended_def dest: inode_at_unique\<close>)
qed (use assms in \<open>auto intro: scope_root\<close>)

lemma walk_dir_exact:
  assumes st: "steady fs" and un: "unaliased fs mt root" and m: "inode_at fs root m" "meta_is_dir m" "skip_fstype mt root = None"
  shows "set (wo_stats (wk_out (walk_loop fs mt
      \<lparr>wk_tick = t, wk_visited = [meta_id m], wk_stack = [(root, meta_id m)], wk_out = push_stat m root out\<rparr>)))
    = set (wo_stats out) \<union> {stat_of p m | p m. in_scope fs mt root p \<and> inode_at fs p m}"
proof -
  let ?s = "\<lparr>wk_tick = t, wk_visited = [meta_id m], wk_stack = [(root, meta_id m)], wk_out = push_stat m root out\<rparr>"
  let ?S = "set (wo_stats out)" and ?t = "walk_loop fs mt ?s"
  have r: "in_scope fs mt root root" "descended fs mt root" using m by (auto intro: scope_root simp: descended_def)
  have "recorded fs ?s root" using m by (auto simp: recorded_def push_stat_def dest: inode_at_unique)
  then have "walk_inv fs mt root ?S {} ?s"
    unfolding walk_inv_def using r m by (auto simp: push_stat_def)
  from walk_loop_inv [OF st this] have inv: "walk_inv fs mt root ?S {} ?t" .
  have "stat_of p n \<in> set (wo_stats (wk_out ?t))" if "in_scope fs mt root p" "inode_at fs p n" for p n
    using walk_loop_complete [OF inv walk_loop_done un that(1)] that(2) by (simp add: recorded_def)
  then show ?thesis using inv unfolding walk_inv_def by blast
qed

lemma walk_root_exact:
  assumes st: "steady fs" and un: "unaliased fs mt root"
  shows "case walk_root fs mt root (t, out) of
      Err (ExposureWalk r e) \<Rightarrow> r = root \<and> \<not> is_pseudo_fs root \<and> fx_lstat fs 0 root = Err e \<and> e \<noteq> IoNotFound
    | Ok (t', out') \<Rightarrow> set (wo_stats out') = set (wo_stats out) \<union> root_stats fs mt root"
proof (cases "is_pseudo_fs root")
  case True
  then show ?thesis by (simp add: walk_root_def root_stats_def admitted_def)
next
  case pseudo: False
  have l: "fx_lstat fs t root = fx_lstat fs 0 root" by (rule fun_cong [OF steadyD(1) [OF st]])
  show ?thesis
  proof (cases "\<exists>m. inode_at fs root m")
    case False
    then show ?thesis using pseudo l
      by (auto simp: walk_root_def root_stats_def admitted_def inode_at_def split: sum.splits)
  next
    case True
    then obtain m where m: "inode_at fs root m" ..
    then have a: "fx_lstat fs 0 root = Ok m" "\<not> meta_is_symlink m" by (simp_all add: inode_at_def)
    show ?thesis
    proof (cases "skip_fstype mt root")
      case (Some ft)
      then show ?thesis using a pseudo l by (simp add: walk_root_def root_stats_def admitted_def push_skip_def)
    next
      case None
      then have adm: "admitted fs mt root" using pseudo m by (auto simp: admitted_def)
      show ?thesis
      proof (cases "meta_is_dir m")
        case True
        then show ?thesis
          using a pseudo l None adm walk_dir_exact [OF st un m True None, of "Suc t" out]
          by (simp add: walk_root_def root_stats_def Let_def)
      next
        case False
        then have "root_stats fs mt root = {stat_of root m}"
          using adm m in_scope_file [OF m False] by (auto simp: root_stats_def dest: inode_at_unique)
        then show ?thesis using a pseudo l None False by (simp add: walk_root_def Let_def push_stat_def)
      qed
    qed
  qed
qed

definition walk_result_exact :: "fs_world \<Rightarrow> mount_table \<Rightarrow> path list \<Rightarrow> exposure_error + walk_outcome \<Rightarrow> bool" where
  "walk_result_exact fs mt roots res \<longleftrightarrow>
     (case res of
        Err (ExposureWalk r e) \<Rightarrow> r \<in> set roots \<and> \<not> is_pseudo_fs r \<and> fx_lstat fs 0 r = Err e \<and> e \<noteq> IoNotFound
      | Ok out \<Rightarrow> set (wo_stats out) = (\<Union>root \<in> set roots. root_stats fs mt root))"

lemma walk_roots_exact:
  assumes "steady fs"
  shows "list_all (unaliased fs mt) roots \<Longrightarrow>
    case try_fold (walk_root fs mt) roots (t, out) of
      Err (ExposureWalk r e) \<Rightarrow> r \<in> set roots \<and> \<not> is_pseudo_fs r \<and> fx_lstat fs 0 r = Err e \<and> e \<noteq> IoNotFound
    | Ok (t', out') \<Rightarrow> set (wo_stats out') = set (wo_stats out) \<union> (\<Union>root \<in> set roots. root_stats fs mt root)"
proof (induction roots arbitrary: t out)
  case (Cons root roots)
  then have un: "unaliased fs mt root" "list_all (unaliased fs mt) roots" by simp_all
  note R = walk_root_exact [OF assms un(1), where t = t and out = out]
  show ?case
  proof (cases "walk_root fs mt root (t, out)")
    case (Inl e)
    then show ?thesis using R by (cases e) simp
  next
    case (Inr x)
    obtain t' out' where x: "x = (t', out')" by (cases x)
    have "set (wo_stats out') = set (wo_stats out) \<union> root_stats fs mt root" using R Inr x by simp
    then show ?thesis using Cons.IH [OF un(2), of out' t'] Inr x
      by (auto split: sum.splits exposure_error.splits)
  qed
qed simp

text \<open>
  C31: The walk records exactly the inodes in scope.  On a file system that does not change during
  the walk and where no directory is met under two names, the recorded stats are those of the
  admitted roots and of every entry, not a symbolic link and not a pseudo file system, of a
  directory in scope that is not a skipped mount; the only error is a root that exists and cannot
  be read.
\<close>

theorem walk_exact:
  assumes "steady fs" and "list_all (unaliased fs mt) roots"
  shows "walk_result_exact fs mt roots (walk fs mt roots)"
  using walk_roots_exact [OF assms, where t = 0 and out = "\<lparr>wo_stats = [], wo_skipped = []\<rparr>"]
  by (auto simp: walk_result_exact_def walk_def split: sum.splits exposure_error.splits)

text \<open>
  C32: The walk ends on every file system, also on one that changes under it or that bind mounts make
  cyclic.  After at most as many turns as there are directories on the stack and inodes not yet
  visited, nothing is left to read, and the loop returns that state.
\<close>

theorem walk_terminates:
  "\<exists>n \<le> length (wk_stack st) + card (- set (wk_visited st)).
     walk_loop fs mt st = (walk_step fs mt ^^ n) st \<and> wk_stack ((walk_step fs mt ^^ n) st) = []"
proof -
  have "\<exists>n \<le> walk_room st. walk_loop fs mt st = (walk_step fs mt ^^ n) st \<and> wk_stack ((walk_step fs mt ^^ n) st) = []"
  proof (induction fs mt st rule: walk_loop.induct)
    case (1 fs mt st)
    show ?case
    proof (cases "wk_stack st = []")
      case True
      then show ?thesis by (intro exI [of _ 0]) (simp add: walk_loop.simps)
    next
      case False
      from 1 [OF False] obtain n where "n \<le> walk_room (walk_step fs mt st)"
        "walk_loop fs mt (walk_step fs mt st) = (walk_step fs mt ^^ n) (walk_step fs mt st)"
        "wk_stack ((walk_step fs mt ^^ n) (walk_step fs mt st)) = []" by blast
      then show ?thesis using False walk_step_room [OF False, of fs mt] walk_loop.simps [of fs mt st]
        by (intro exI [of _ "Suc n"]) (simp add: funpow_swap1)
    qed
  qed
  then show ?thesis by (simp add: walk_room_def add.commute)
qed


definition sample_meta :: "u32 \<Rightarrow> u64 \<Rightarrow> fs_meta" where
  "sample_meta mode ino = \<lparr>fm_uid = 0, fm_gid = 0, fm_mode = mode, fm_dev = 1, fm_ino = ino\<rparr>"

definition sample_inodes :: "(path \<times> fs_meta) list" where
  "sample_inodes =
     [(''/etc'', sample_meta 16877 2), (''/etc/ssh'', sample_meta 16877 3), (''/etc/ssh/key'', sample_meta 33184 4),
      (''/etc/link'', sample_meta 41471 5), (''/etc/share'', sample_meta 16877 6)]"

definition sample_dirs :: "(path \<times> string list) list" where
  "sample_dirs = [(''/etc'', [''ssh'', ''link'', ''share'']), (''/etc/ssh'', [''key'']), (''/etc/share'', [''far''])]"

definition sample_fs :: fs_world where
  "sample_fs =
     \<lparr>fx_lstat = (\<lambda>_ p. case map_of sample_inodes p of Some m \<Rightarrow> Ok m | None \<Rightarrow> Err IoNotFound),
      fx_read_dir = (\<lambda>_ p. case map_of sample_dirs p of Some ns \<Rightarrow> Ok ns | None \<Rightarrow> Err IoNotFound)\<rparr>"

definition sample_mounts :: mount_table where
  "sample_mounts = from_mountinfo (''36 25 0:30 / /etc/share rw - nfs4 host:/share rw'' @ [CHR 0x0A])"

lemma sample_fs_steady: "steady sample_fs"
  by (simp add: steady_def sample_fs_def)

lemma sample_fs_unaliased: "unaliased sample_fs mt root"
proof -
  have "p = q" if "inode_at sample_fs p m" "inode_at sample_fs q n" "meta_id m = meta_id n" for p q m n
    using that by (auto simp: inode_at_def sample_fs_def sample_inodes_def sample_meta_def meta_id_def split: if_splits)
  then show ?thesis unfolding unaliased_def by blast
qed

theorem walk_exact_witness:
  "steady sample_fs \<and> list_all (unaliased sample_fs sample_mounts) [''/etc'', ''/srv'']
   \<and> walk_result_exact sample_fs sample_mounts [''/etc'', ''/srv''] (walk sample_fs sample_mounts [''/etc'', ''/srv''])
   \<and> (case walk sample_fs sample_mounts [''/etc'', ''/srv''] of
        Ok out \<Rightarrow> map st_path (wo_stats out) = [''/etc'', ''/etc/ssh'', ''/etc/share'', ''/etc/ssh/key'']
                  \<and> map sk_fstype (wo_skipped out) = [''nfs4'']
      | Err _ \<Rightarrow> False)"
proof -
  have u: "list_all (unaliased sample_fs sample_mounts) [''/etc'', ''/srv'']" by (simp add: sample_fs_unaliased)
  have "case walk sample_fs sample_mounts [''/etc'', ''/srv''] of
        Ok out \<Rightarrow> map st_path (wo_stats out) = [''/etc'', ''/etc/ssh'', ''/etc/share'', ''/etc/ssh/key'']
                  \<and> map sk_fstype (wo_skipped out) = [''nfs4'']
      | Err _ \<Rightarrow> False" by code_simp
  then show ?thesis using sample_fs_steady u walk_exact [OF sample_fs_steady u] by blast
qed

end
