(* ===== verification/Exposure_Reach.thy ===== *)
theory Exposure_Reach
  imports Exposure_Index
begin

text \<open>
  The permission index of \<^verbatim>\<open>exposure/index.rs\<close> and the reachability of \<^verbatim>\<open>exposure/reach.rs\<close>.  The memoized
  climb is proved equal to its plain reading: every directory in scope above an inode grants search.
\<close>

subsection \<open>The index\<close>

record permission_index =
  px_records :: "inode_record list"
  px_by_path :: "(string, nat) btree"
  px_skipped :: "skipped_mount list"

type_synonym 'w acl_source = "string list \<Rightarrow> 'w \<Rightarrow> (path \<times> acl_entries) list \<times> 'w"

text \<open>\<open>HashMap::remove\<close>.\<close>

definition bt_remove :: "'k \<Rightarrow> ('k, 'v) btree \<Rightarrow> ('k, 'v) btree" where
  "bt_remove k m = filter (\<lambda>(j, _). j \<noteq> k) m"

type_synonym index_state = "(string, acl_entries) btree \<times> inode_record list \<times> (string, nat) btree"

definition index_stat :: "classifier \<Rightarrow> inode_stat \<Rightarrow> index_state \<Rightarrow> index_state" where
  "index_stat cl s st =
     (case st of (acl_map, records, by_path) \<Rightarrow>
        let acl = (case bt_get acl_map (st_path s) of
                     Some es \<Rightarrow> if is_extended es then Some es else None
                   | None \<Rightarrow> None)
        in (bt_remove (st_path s) acl_map,
            records @ [\<lparr>ir_path = st_path s, ir_uid = st_uid s, ir_gid = st_gid s, ir_mode = st_mode s, ir_acl = acl,
                        ir_class = classify cl (st_path s) (st_mode s)\<rparr>],
            bt_insert (st_path s) (length records) by_path))"

definition build_with ::
    "(path list \<Rightarrow> exposure_error + walk_outcome) \<Rightarrow> 'w acl_source \<Rightarrow> path list \<Rightarrow> classifier \<Rightarrow> 'w \<Rightarrow>
     (exposure_error + permission_index) \<times> 'w" where
  "build_with walker acl_src roots cl w =
     (case walker roots of
        Err e \<Rightarrow> (Err e, w)
      | Ok outcome \<Rightarrow>
          (case acl_src (map st_path (wo_stats outcome)) w of (pairs, w') \<Rightarrow>
             (case fold (index_stat cl) (wo_stats outcome) (bt_collect pairs, [], []) of (_, records, by_path) \<Rightarrow>
                (Ok \<lparr>px_records = records, px_by_path = by_path, px_skipped = wo_skipped outcome\<rparr>, w'))))"

definition index_live ::
    "fs_world \<Rightarrow> string option \<Rightarrow> 'w scan_runner \<Rightarrow> path list \<Rightarrow> classifier \<Rightarrow> 'w \<Rightarrow> (exposure_error + permission_index) \<times> 'w" where
  "index_live fs mountinfo runner roots cl w =
     build_with (walk fs (case mountinfo of Some text \<Rightarrow> from_mountinfo text | None \<Rightarrow> []))
       (read_acls \<lparr>gr_runner = runner, gr_bin = ''getfacl''\<rparr>) roots cl w"

definition index_get :: "permission_index \<Rightarrow> string \<Rightarrow> inode_record option" where
  "index_get ix p =
     (case bt_get (px_by_path ix) p of
        Some i \<Rightarrow> if i < length (px_records ix) then Some (px_records ix ! i) else None
      | None \<Rightarrow> None)"

subsection \<open>Reachability\<close>

definition parent_dir :: "string \<Rightarrow> string" where
  "parent_dir p = (case rsplit_once CHR ''/'' p of Some (par, _) \<Rightarrow> if par = [] then ''/'' else par | None \<Rightarrow> p)"

lemma parent_dir_shorter: "parent_dir p \<noteq> p \<Longrightarrow> length (parent_dir p) < length p"
proof (cases "rsplit_once CHR ''/'' p")
  case (Some ab)
  obtain a b where ab: "ab = (a, b)" by (cases ab)
  then have "p = a @ CHR ''/'' # b" using Some by (simp add: rsplit_once_Some)
  then show "parent_dir p \<noteq> p \<Longrightarrow> length (parent_dir p) < length p" using Some ab by (cases b) (auto simp: parent_dir_def)
qed (simp add: parent_dir_def)

definition within_scope :: "string \<Rightarrow> string list \<Rightarrow> bool" where
  "within_scope p roots = list_ex (\<lambda>r. path_at_or_under r p) roots"

definition has_search :: "string \<Rightarrow> permission_index \<Rightarrow> audit_principal \<Rightarrow> bool" where
  "has_search p ix pr = (case index_get ix p of Some r \<Rightarrow> perm_execute (eff_access (effective r pr)) | None \<Rightarrow> False)"

type_synonym dir_cache = "(string, bool) btree"

function reachable_dir ::
    "permission_index \<Rightarrow> audit_principal \<Rightarrow> string list \<Rightarrow> string \<Rightarrow> dir_cache \<Rightarrow> bool \<times> dir_cache" where
  "reachable_dir ix pr roots p cache =
     (if \<not> within_scope p roots then (True, cache)
      else case bt_get cache p of
             Some cached \<Rightarrow> (cached, cache)
           | None \<Rightarrow>
               (let (verdict, cache') =
                      (if parent_dir p = p then (has_search p ix pr, cache)
                       else case reachable_dir ix pr roots (parent_dir p) cache of
                              (upper, c) \<Rightarrow> (upper \<and> has_search p ix pr, c))
                in (verdict, bt_insert p verdict cache')))"
  by pat_completeness auto
termination
  by (relation "measure (\<lambda>(ix, pr, roots, p, cache). length p)") (simp_all add: parent_dir_shorter)

declare reachable_dir.simps [simp del]

definition reach_record ::
    "permission_index \<Rightarrow> audit_principal \<Rightarrow> string list \<Rightarrow> inode_record \<Rightarrow> string list \<times> dir_cache \<Rightarrow> string list \<times> dir_cache" where
  "reach_record ix pr roots r st =
     (case st of (reached, cache) \<Rightarrow>
        case reachable_dir ix pr roots (parent_dir (ir_path r)) cache of
          (ok, cache') \<Rightarrow> (if ok then ir_path r # reached else reached, cache'))"

text \<open>The reachable paths, in no order that matters.\<close>

definition reach_compute :: "permission_index \<Rightarrow> audit_principal \<Rightarrow> path list \<Rightarrow> string list" where
  "reach_compute ix pr roots =
     (if pr_uid pr = 0 then map ir_path (px_records ix)
      else fst (fold (reach_record ix pr (map utf8_lossy roots)) (px_records ix) ([], [])))"

definition is_reachable :: "string list \<Rightarrow> string \<Rightarrow> bool" where
  "is_reachable reached p \<longleftrightarrow> p \<in> set reached"

subsection \<open>What is reachable\<close>

text \<open>A path and its ancestors, from the path upwards.\<close>

function climb :: "string \<Rightarrow> string list" where
  "climb p = p # (if parent_dir p = p then [] else climb (parent_dir p))"
  by pat_completeness auto
termination by (relation "measure length") (simp_all add: parent_dir_shorter)

declare climb.simps [simp del]

text \<open>The directories that have to grant search: those above, up to where the scope ends.\<close>

definition searched :: "string list \<Rightarrow> string \<Rightarrow> string list" where
  "searched roots p = takeWhile (\<lambda>d. within_scope d roots) (climb p)"

definition cache_right :: "permission_index \<Rightarrow> audit_principal \<Rightarrow> string list \<Rightarrow> dir_cache \<Rightarrow> bool" where
  "cache_right ix pr roots cache \<longleftrightarrow>
     bt_inv cache \<and> (\<forall>p b. bt_get cache p = Some b \<longrightarrow> b = list_all (\<lambda>d. has_search d ix pr) (searched roots p))"

lemma searched_step:
  "searched roots p =
     (if within_scope p roots then p # (if parent_dir p = p then [] else searched roots (parent_dir p)) else [])"
  by (simp add: searched_def climb.simps [of p])

lemma cache_right_insert:
  "cache_right ix pr roots c \<Longrightarrow> b = list_all (\<lambda>d. has_search d ix pr) (searched roots p) \<Longrightarrow>
   cache_right ix pr roots (bt_insert p b c)"
  by (simp add: cache_right_def bt_insert_get bt_insert_inv)

lemma reachable_dir_correct:
  "cache_right ix pr roots c \<Longrightarrow> reachable_dir ix pr roots p c = (b, c') \<Longrightarrow>
   b = list_all (\<lambda>d. has_search d ix pr) (searched roots p) \<and> cache_right ix pr roots c'"
proof (induction ix pr roots p c arbitrary: b c' rule: reachable_dir.induct)
  case (1 ix pr roots p c)
  note def = reachable_dir.simps [of ix pr roots p c]
  show ?case
  proof (cases "within_scope p roots")
    case False
    then show ?thesis using 1 def by (simp add: searched_step [of roots p])
  next
    case scope: True
    show ?thesis
    proof (cases "bt_get c p")
      case (Some x)
      then show ?thesis using scope 1 def by (simp add: cache_right_def)
    next
      case None
      show ?thesis
      proof (cases "parent_dir p = p")
        case True
        then have "b = has_search p ix pr \<and> c' = bt_insert p b c" using scope None "1.prems" def by (auto simp: Let_def)
        then show ?thesis using True scope "1.prems" cache_right_insert [of ix pr roots c b p]
          by (auto simp: searched_step [of roots p])
      next
        case False
        obtain upper c1 where up: "reachable_dir ix pr roots (parent_dir p) c = (upper, c1)"
          by (cases "reachable_dir ix pr roots (parent_dir p) c")
        have IH: "upper = list_all (\<lambda>d. has_search d ix pr) (searched roots (parent_dir p)) \<and> cache_right ix pr roots c1"
          using "1.IH" [OF _ None False "1.prems"(1) up] scope by simp
        have "b = (upper \<and> has_search p ix pr) \<and> c' = bt_insert p b c1"
          using scope None False up "1.prems" def by (auto simp: Let_def)
        then show ?thesis using IH False scope cache_right_insert [of ix pr roots c1 b p]
          by (auto simp: searched_step [of roots p])
      qed
    qed
  qed
qed

lemma reach_records_correct:
  "cache_right ix pr roots c \<Longrightarrow>
   set (fst (fold (reach_record ix pr roots) rs (reached, c)))
   = set reached \<union> {ir_path r | r. r \<in> set rs \<and> list_all (\<lambda>d. has_search d ix pr) (searched roots (parent_dir (ir_path r)))}"
proof (induction rs arbitrary: reached c)
  case (Cons r rs)
  obtain b c1 where s: "reachable_dir ix pr roots (parent_dir (ir_path r)) c = (b, c1)"
    by (cases "reachable_dir ix pr roots (parent_dir (ir_path r)) c")
  from reachable_dir_correct [OF Cons.prems s]
  have b: "b = list_all (\<lambda>d. has_search d ix pr) (searched roots (parent_dir (ir_path r)))" and c1: "cache_right ix pr roots c1"
    by simp_all
  have "fold (reach_record ix pr roots) (r # rs) (reached, c) =
      fold (reach_record ix pr roots) rs (if b then ir_path r # reached else reached, c1)"
    by (simp add: reach_record_def s)
  then show ?case using Cons.IH [OF c1] b by auto
qed simp

lemma reach_exact:
  "is_reachable (reach_compute ix pr roots) p \<longleftrightarrow>
   p \<in> ir_path ` set (px_records ix)
   \<and> (pr_uid pr = 0 \<or> list_all (\<lambda>d. has_search d ix pr) (searched (map utf8_lossy roots) (parent_dir p)))"
proof -
  have "cache_right ix pr (map utf8_lossy roots) []" by (simp add: cache_right_def bt_inv_def bt_get_def)
  from reach_records_correct [OF this, of "px_records ix" "[]"] show ?thesis
    by (auto simp: is_reachable_def reach_compute_def)
qed


text \<open>
  C30: The memoized reachability is the plain one.  A path is reachable for a principal exactly when
  an inode is indexed at it and the principal is uid 0 or has search on every directory above it
  within the scan roots, climbing until the first directory outside them; a directory that is not
  indexed blocks.
\<close>

theorem reachability_exact:
  "is_reachable (reach_compute ix pr roots) p \<longleftrightarrow>
   p \<in> ir_path ` set (px_records ix)
   \<and> (pr_uid pr = 0 \<or> list_all (\<lambda>d. has_search d ix pr) (searched (map utf8_lossy roots) (parent_dir p)))"
  by (rule reach_exact)

subsection \<open>What the index holds\<close>

definition indexed_acl :: "(path \<times> acl_entries) list \<Rightarrow> string \<Rightarrow> acl_entries option" where
  "indexed_acl pairs p =
     (case map_of (rev pairs) p of Some es \<Rightarrow> if is_extended es then Some es else None | None \<Rightarrow> None)"

definition indexed_record :: "classifier \<Rightarrow> acl_entries option \<Rightarrow> inode_stat \<Rightarrow> inode_record" where
  "indexed_record cl acl s =
     \<lparr>ir_path = st_path s, ir_uid = st_uid s, ir_gid = st_gid s, ir_mode = st_mode s, ir_acl = acl,
      ir_class = classify cl (st_path s) (st_mode s)\<rparr>"

definition extended_acl :: "(string, acl_entries) btree \<Rightarrow> string \<Rightarrow> acl_entries option" where
  "extended_acl m p = (case bt_get m p of Some es \<Rightarrow> if is_extended es then Some es else None | None \<Rightarrow> None)"

lemma extended_acl_remove: "extended_acl (bt_remove q m) p = (if p = q then None else extended_acl m p)"
proof -
  have "bt_get (bt_remove q m) p = (if p = q then None else bt_get m p)"
    by (induction m) (auto simp: bt_get_def bt_remove_def)
  then show ?thesis by (simp add: extended_acl_def)
qed

text \<open>An ACL is given to the first stat of a path; the path leads to the record of the last.\<close>

lemma index_fold:
  "fold (index_stat cl) ss (m, rs, bp) = (m', rs', bp') \<Longrightarrow> bt_inv bp \<Longrightarrow>
   rs' = rs @ map (\<lambda>i. indexed_record cl (if st_path (ss ! i) \<in> st_path ` set (take i ss) then None
                                          else extended_acl m (st_path (ss ! i))) (ss ! i)) [0..<length ss]
   \<and> bt_inv bp'
   \<and> (\<forall>p. bt_get bp' p = (case find (\<lambda>i. st_path (ss ! i) = p) (rev [0..<length ss]) of
                            Some i \<Rightarrow> Some (length rs + i) | None \<Rightarrow> bt_get bp p))"
proof (induction ss arbitrary: m rs bp m' rs' bp' rule: rev_induct)
  case (snoc s ss)
  obtain m1 rs1 bp1 where f: "fold (index_stat cl) ss (m, rs, bp) = (m1, rs1, bp1)"
    by (cases "fold (index_stat cl) ss (m, rs, bp)")
  have acls: "extended_acl m1 p = (if p \<in> st_path ` set ss then None else extended_acl m p)" for p
    using f
  proof (induction ss arbitrary: m rs bp)
    case (Cons s ss)
    obtain m2 rs2 bp2 where "index_stat cl s (m, rs, bp) = (m2, rs2, bp2)" by (cases "index_stat cl s (m, rs, bp)")
    moreover from this have "m2 = bt_remove (st_path s) m" by (simp add: index_stat_def Let_def)
    ultimately show ?case using Cons by (simp add: extended_acl_remove)
  qed simp
  from snoc.IH [OF f snoc.prems(2)] have IH:
    "rs1 = rs @ map (\<lambda>i. indexed_record cl (if st_path (ss ! i) \<in> st_path ` set (take i ss) then None
                                          else extended_acl m (st_path (ss ! i))) (ss ! i)) [0..<length ss]"
    "bt_inv bp1"
    "\<forall>p. bt_get bp1 p = (case find (\<lambda>i. st_path (ss ! i) = p) (rev [0..<length ss]) of
                            Some i \<Rightarrow> Some (length rs + i) | None \<Rightarrow> bt_get bp p)" by blast+
  have step: "rs' = rs1 @ [indexed_record cl (extended_acl m1 (st_path s)) s]" "bp' = bt_insert (st_path s) (length rs1) bp1"
  proof -
    have "index_stat cl s (m1, rs1, bp1) = (m', rs', bp')" using snoc.prems(1) f by simp
    then show "rs' = rs1 @ [indexed_record cl (extended_acl m1 (st_path s)) s]" "bp' = bt_insert (st_path s) (length rs1) bp1"
      by (auto simp: index_stat_def Let_def indexed_record_def extended_acl_def)
  qed
  have same: "map (\<lambda>i. indexed_record cl (if st_path ((ss @ [s]) ! i) \<in> st_path ` set (take i (ss @ [s])) then None
                                          else extended_acl m (st_path ((ss @ [s]) ! i))) ((ss @ [s]) ! i)) [0..<length ss]
    = map (\<lambda>i. indexed_record cl (if st_path (ss ! i) \<in> st_path ` set (take i ss) then None
                                          else extended_acl m (st_path (ss ! i))) (ss ! i)) [0..<length ss]"
    by (simp add: nth_append)
  have fnd: "find (\<lambda>i. st_path ((ss @ [s]) ! i) = p) (rev [0..<length ss]) = find (\<lambda>i. st_path (ss ! i) = p) (rev [0..<length ss])" for p
    by (rule find_cong) (simp_all add: nth_append)
  have "length rs1 = length rs + length ss" using IH(1) by simp
  then show ?case
    using IH step same fnd acls by (simp add: bt_insert_inv bt_insert_get)
qed simp


lemma bt_collect_get_last: "bt_get (bt_collect xs) k = map_of (rev xs) k"
proof (induction xs rule: rev_induct)
  case (snoc x xs)
  have "bt_collect (xs @ [x]) = bt_insert (fst x) (snd x) (bt_collect xs)" by (simp add: bt_collect_def split_beta)
  then show ?case using snoc by (cases x) (simp add: bt_insert_get)
qed (simp add: bt_collect_def bt_get_def)

lemma find_last_index:
  assumes "distinct (map f ss)" "i < length ss"
  shows "find (\<lambda>j. f (ss ! j) = f (ss ! i)) (rev [0..<length ss]) = Some i"
proof -
  have "\<exists>j. find (\<lambda>j. f (ss ! j) = f (ss ! i)) (rev [0..<length ss]) = Some j"
    using assms(2) by (auto simp: find_None_iff simp flip: not_None_eq)
  then obtain j where j: "find (\<lambda>j. f (ss ! j) = f (ss ! i)) (rev [0..<length ss]) = Some j" ..
  then have "j < length ss" "f (ss ! j) = f (ss ! i)" using find_SomeD [OF j] by simp_all
  then show ?thesis using j assms by (simp add: distinct_conv_nth) metis
qed

lemma index_lookup:
  assumes b: "build_with walker acl_src roots cl w = (Ok ix, w')" and out: "walker roots = Ok out"
    and i: "i < length (wo_stats out)"
    and last: "find (\<lambda>j. st_path (wo_stats out ! j) = st_path (wo_stats out ! i)) (rev [0..<length (wo_stats out)]) = Some i"
  shows "index_get ix (st_path (wo_stats out ! i)) =
    Some (indexed_record cl
      (if st_path (wo_stats out ! i) \<in> st_path ` set (take i (wo_stats out)) then None
       else indexed_acl (fst (acl_src (map st_path (wo_stats out)) w)) (st_path (wo_stats out ! i))) (wo_stats out ! i))"
proof -
  let ?ss = "wo_stats out"
  obtain pairs w1 where p: "acl_src (map st_path ?ss) w = (pairs, w1)" by (cases "acl_src (map st_path ?ss) w")
  obtain m' rs' bp' where f: "fold (index_stat cl) ?ss (bt_collect pairs, [], []) = (m', rs', bp')"
    by (cases "fold (index_stat cl) ?ss (bt_collect pairs, [], [])")
  have ix: "px_records ix = rs'" "px_by_path ix = bp'" using b out p f by (auto simp: build_with_def)
  have "bt_inv ([] :: (string, nat) btree)" by (simp add: bt_inv_def)
  note F = index_fold [OF f this]
  have "extended_acl (bt_collect pairs) = indexed_acl pairs"
    by (simp add: fun_eq_iff extended_acl_def indexed_acl_def bt_collect_get_last)
  moreover have "bt_get bp' (st_path (?ss ! i)) = Some i" using F last by simp
  ultimately show ?thesis using F i by (simp add: index_get_def ix p)
qed

text \<open>
  The index answers with the inode the walk saw.  When no path was recorded twice, looking up the
  path of a recorded stat gives its owner and mode, the class of the configured classifier, and the
  last ACL read for the path if it is extended.
\<close>

theorem index_exact:
  assumes "build_with walker acl_src roots cl w = (Ok ix, w')" and "walker roots = Ok out"
    and "distinct (map st_path (wo_stats out))" and "s \<in> set (wo_stats out)"
  shows "index_get ix (st_path s) =
    Some (indexed_record cl (indexed_acl (fst (acl_src (map st_path (wo_stats out)) w)) (st_path s)) s)"
proof -
  obtain i where i: "i < length (wo_stats out)" "wo_stats out ! i = s" using assms(4) by (auto simp: in_set_conv_nth)
  have "st_path s \<notin> st_path ` set (take i (wo_stats out))"
  proof
    assume "st_path s \<in> st_path ` set (take i (wo_stats out))"
    then obtain j where "j < i" "st_path (wo_stats out ! j) = st_path s" by (auto simp: in_set_conv_nth)
    then show False using assms(3) i by (auto simp: distinct_conv_nth)
  qed
  then show ?thesis
    using index_lookup [OF assms(1, 2) i(1) find_last_index [OF assms(3) i(1)]] i(2) by simp
qed

text \<open>A file system with one ACL, for the index and for the roots that overlap.\<close>

definition srv_fs :: fs_world where
  "srv_fs =
     \<lparr>fx_lstat = (\<lambda>_ p. if p = ''/srv'' then Ok (sample_meta 16877 2) else if p = ''/srv/app'' then Ok (sample_meta 33264 3)
                         else Err IoNotFound),
      fx_read_dir = (\<lambda>_ p. if p = ''/srv'' then Ok [''app''] else Err IoNotFound)\<rparr>"

definition srv_index :: "path list \<Rightarrow> permission_index option" where
  "srv_index roots =
     (case build_with (walk srv_fs []) (read_acls sample_reader) roots default_classifier () of
        (Ok ix, _) \<Rightarrow> Some ix | (Err _, _) \<Rightarrow> None)"

theorem index_exact_witness:
  "map_option (\<lambda>ix. index_get ix ''/srv/app'') (srv_index [''/srv''])
   = Some (Some (indexed_record default_classifier (Some sample_acl) (stat_of ''/srv/app'' (sample_meta 33264 3))))"
proof -
  let ?s = "stat_of ''/srv/app'' (sample_meta 33264 3)"
  have b: "case build_with (walk srv_fs []) (read_acls sample_reader) [''/srv''] default_classifier () of
      (Ok ix, _) \<Rightarrow> True | (Err _, _) \<Rightarrow> False" by code_simp
  then obtain ix w' where ix: "build_with (walk srv_fs []) (read_acls sample_reader) [''/srv''] default_classifier () = (Ok ix, w')"
    by (auto split: prod.splits sum.splits)
  have out: "walk srv_fs [] [''/srv''] = Ok \<lparr>wo_stats = [stat_of ''/srv'' (sample_meta 16877 2), ?s], wo_skipped = []\<rparr>" by code_simp
  have a: "indexed_acl (fst (read_acls sample_reader (map st_path [stat_of ''/srv'' (sample_meta 16877 2), ?s]) ())) (st_path ?s)
      = Some sample_acl" by code_simp
  have d: "distinct (map st_path [stat_of ''/srv'' (sample_meta 16877 2), ?s])" and p: "st_path ?s = ''/srv/app''" by code_simp+
  from index_exact [OF ix out, of ?s] have "index_get ix (st_path ?s) = Some (indexed_record default_classifier (Some sample_acl) ?s)"
    using a d by simp
  then show ?thesis using ix p by (simp add: srv_index_def)
qed

text \<open>
  Roots that overlap record a path twice.  Its ACL goes to the first record and the index answers with
  the second, so the access check sees the mode bits alone.
\<close>

theorem overlapping_roots_lose_acl:
  "map_option (\<lambda>ix. map_option ir_acl (index_get ix ''/srv/app'')) (srv_index [''/srv'']) = Some (Some (Some sample_acl))
   \<and> map_option (\<lambda>ix. map_option ir_acl (index_get ix ''/srv/app'')) (srv_index [''/srv'', ''/srv/app'']) = Some (Some None)"
  by code_simp

end
