(* ===== verification/Exposure.thy ===== *)
theory Exposure
  imports Exposure_Reach Declaration
begin

text \<open>
  \<^verbatim>\<open>exposure/config.rs\<close>, \<^verbatim>\<open>exposure/expose.rs\<close>, \<^verbatim>\<open>exposure/fs_audit.rs\<close> and the runs of \<^verbatim>\<open>cli/audit.rs\<close>: the
  report of what one principal can do beyond what was intended for it, and the posture map of the whole
  file system.  Both reports are characterised exactly, over the access algorithm of
  \<open>Exposure_Access\<close> and the reachability of \<open>Exposure_Reach\<close>.
\<close>

subsection \<open>Configuration\<close>

definition DEFAULT_BROAD_GROUPS :: "string list" where
  "DEFAULT_BROAD_GROUPS = [''adm'', ''wheel'', ''sudo'', ''staff'', ''users'']"

record exposure_config =
  ec_scan_roots :: "path list"
  ec_secret_globs :: "string list"
  ec_broad_groups :: "string list"

definition default_config :: exposure_config where
  "default_config =
     \<lparr>ec_scan_roots = DEFAULT_SCAN_ROOTS, ec_secret_globs = DEFAULT_SECRET_GLOBS, ec_broad_groups = DEFAULT_BROAD_GROUPS\<rparr>"

datatype config_reason = RootsEmpty | RootRelative path | GlobDoubleStar string

datatype 'te exposure_config_error = EcIo path io_error | EcToml path 'te | EcInvalid path config_reason

definition double_star_count :: "string \<Rightarrow> nat" where
  "double_star_count glob = length (filter (\<lambda>s. s = ''**'') (split_on CHR ''/'' glob))"

definition config_validate :: "path \<Rightarrow> exposure_config \<Rightarrow> 'te exposure_config_error + unit" where
  "config_validate p c =
     (if ec_scan_roots c = [] then Err (EcInvalid p RootsEmpty)
      else case find (\<lambda>r. \<not> starts_with r ''/'') (ec_scan_roots c) of
             Some r \<Rightarrow> Err (EcInvalid p (RootRelative r))
           | None \<Rightarrow>
               (case find (\<lambda>g. double_star_count g > 1) (ec_secret_globs c) of
                  Some g \<Rightarrow> Err (EcInvalid p (GlobDoubleStar g))
                | None \<Rightarrow> Ok ()))"

definition config_load ::
    "(path \<Rightarrow> io_error + file_view) \<Rightarrow> (string \<Rightarrow> 'te + exposure_config) \<Rightarrow> path \<Rightarrow> 'te exposure_config_error + exposure_config" where
  "config_load open_file parse p =
     (case read_capped (open_file p) MAX_INPUT_FILE_BYTES of
        Err e \<Rightarrow> if e = IoNotFound then Ok default_config else Err (EcIo p e)
      | Ok text \<Rightarrow>
          try_bind (map_err (EcToml p) (parse text)) (\<lambda>c. try_bind (config_validate p c) (\<lambda>_. Ok c)))"

definition config_classifier :: "exposure_config \<Rightarrow> classifier" where
  "config_classifier c = \<lparr>cl_secret_globs = ec_secret_globs c\<rparr>"

subsection \<open>The report on one principal\<close>

definition within_roots :: "string \<Rightarrow> string list \<Rightarrow> bool" where
  "within_roots p roots \<longleftrightarrow> roots = [] \<or> list_ex (\<lambda>r. path_at_or_under r p) roots"

definition expose_record ::
    "audit_principal \<Rightarrow> string list \<Rightarrow> string list \<Rightarrow> remediation_context \<Rightarrow> inode_record \<Rightarrow> exposure_finding list" where
  "expose_record pr roots reached ctx r =
     (if \<not> within_roots (ir_path r) roots then []
      else
        (let eff = effective r pr in
         case finding_for r (eff_access eff) (eff_via eff) (Some (pr_name pr)) (is_reachable reached (ir_path r)) ctx of
           Some f \<Rightarrow> [f] | None \<Rightarrow> []))"

definition expose ::
    "permission_index \<Rightarrow> audit_principal \<Rightarrow> path list \<Rightarrow> string list \<Rightarrow> remediation_context \<Rightarrow> exposure_finding list" where
  "expose ix pr roots reached ctx = concat (map (expose_record pr (map utf8_lossy roots) reached ctx) (px_records ix))"

definition valid_baseline_prefix :: "string \<Rightarrow> string option" where
  "valid_baseline_prefix raw =
     (let t = trim_end_matches CHR ''/'' raw in if t \<noteq> [] \<and> starts_with t ''/'' then Some t else None)"

type_synonym prefixes = "(string \<times> bool) list"

definition prefix_covers :: "string \<Rightarrow> string \<times> bool \<Rightarrow> bool" where
  "prefix_covers p pre = (case pre of (prefix, recursive) \<Rightarrow> prefix = p \<or> recursive \<and> path_at_or_under prefix p)"

definition baseline_covers :: "prefixes \<Rightarrow> string \<Rightarrow> bool" where
  "baseline_covers b p = list_ex (prefix_covers p) b"

definition baseline_subtract :: "prefixes \<Rightarrow> exposure_finding list \<Rightarrow> exposure_finding list" where
  "baseline_subtract b fs = filter (\<lambda>f. \<not> baseline_covers b (ef_path f)) fs"

record managed_context =
  mc_managed :: bool
  mc_baseline :: prefixes
  mc_grants :: prefixes
  mc_managed_groups :: "string list"

definition bound_account :: "registry_state \<Rightarrow> audit_principal \<Rightarrow> managed_account option" where
  "bound_account st pr =
     (let accounts = bt_values (rs_accounts st) in
      case find (\<lambda>a. ma_name a = pr_name pr \<and> ma_uid a = pr_uid pr) accounts of
        Some a \<Rightarrow> Some a
      | None \<Rightarrow>
          (case find (\<lambda>a. ma_name a = pr_name pr) accounts of
             Some a \<Rightarrow> Some a
           | None \<Rightarrow> find (\<lambda>a. ma_uid a = pr_uid pr) accounts))"

definition grant_prefix :: "managed_file_grant \<Rightarrow> prefixes" where
  "grant_prefix g = (case valid_baseline_prefix (mfg_path g) of Some p \<Rightarrow> [(p, mfg_recursive g)] | None \<Rightarrow> [])"

definition for_principal :: "registry_state \<Rightarrow> audit_principal \<Rightarrow> managed_context" where
  "for_principal st pr =
     (let account = bound_account st pr;
          managed = (account \<noteq> None);
          grants = (case account of Some a \<Rightarrow> concat (map grant_prefix (ma_file_grants a)) | None \<Rightarrow> []);
          home = (if managed then
                    (case pr_home pr of
                       Some h \<Rightarrow> (case valid_baseline_prefix (utf8_lossy h) of Some p \<Rightarrow> [(p, True)] | None \<Rightarrow> [])
                     | None \<Rightarrow> [])
                  else [])
      in \<lparr>mc_managed = managed, mc_baseline = grants @ home, mc_grants = grants,
          mc_managed_groups = bt_keys (rs_groups st)\<rparr>)"

definition global_context :: "registry_state \<Rightarrow> managed_context" where
  "global_context st =
     \<lparr>mc_managed = False, mc_baseline = [], mc_grants = [], mc_managed_groups = bt_keys (rs_groups st)\<rparr>"

definition as_context :: "managed_context \<Rightarrow> remediation_context" where
  "as_context mc =
     \<lparr>rc_is_managed_group = (\<lambda>g. g \<in> set (mc_managed_groups mc)),
      rc_covering_grant =
        (\<lambda>p. map_option (\<lambda>(prefix, _). ''file-access grant on '' @ prefix) (find (prefix_covers p) (mc_grants mc)))\<rparr>"

definition mac_access_for_risk :: "exposure_risk \<Rightarrow> mac_access_kind" where
  "mac_access_for_risk r = (case r of Escalation \<Rightarrow> MacWrite | Tamper \<Rightarrow> MacWrite | Leak \<Rightarrow> MacRead)"

definition refine_finding :: "mac_provider \<Rightarrow> mac_context_id list \<Rightarrow> exposure_finding \<Rightarrow> exposure_finding list" where
  "refine_finding mac contexts f =
     (case mp_object_label mac (ef_path f) of
        None \<Rightarrow> [f]
      | Some label \<Rightarrow>
          if contexts = [] then [f]
          else
            (let reachable_in = map (mp_render_context mac)
                    (filter (\<lambda>c. mp_permits mac c label (mac_access_for_risk (ef_risk f))) contexts) in
             if reachable_in = [] then []
             else [f\<lparr>ef_mac := Some \<lparr>mf_system = mp_system mac, mf_object_label = Some (mp_render_label mac label),
                                     mf_reachable_in = sort reachable_in\<rparr>\<rparr>]))"

definition refine_with_mac :: "exposure_finding list \<Rightarrow> u32 \<Rightarrow> mac_provider \<Rightarrow> exposure_finding list" where
  "refine_with_mac fs uid mac =
     (if \<not> mp_is_active mac then fs
      else concat (map (refine_finding mac (mp_principal_contexts mac uid)) fs))"

definition DAC_ONLY_NOTE :: string where
  "DAC_ONLY_NOTE =
     ''verdict is DAC-only (mode, owner, POSIX ACL) and is an upper bound: MAC layers (SELinux, AppArmor, PARSEC) may restrict actual access further''"

record exposure_report =
  er_principal :: string
  er_managed :: bool
  er_findings :: "exposure_finding list"
  er_note :: string
  er_skipped :: "skipped_mount list"

definition exposure_report ::
    "permission_index \<Rightarrow> audit_principal \<Rightarrow> path list \<Rightarrow> string list \<Rightarrow> registry_state \<Rightarrow> mac_provider \<Rightarrow> exposure_report" where
  "exposure_report ix pr roots reached st mac =
     (let mc = for_principal st pr;
          raw = expose ix pr roots reached (as_context mc);
          subtracted = (if mc_managed mc then baseline_subtract (mc_baseline mc) raw else raw)
      in \<lparr>er_principal = pr_name pr, er_managed = mc_managed mc,
          er_findings = refine_with_mac subtracted (pr_uid pr) mac,
          er_note = (if mp_is_active mac then ''DAC + '' @ mac_system_as_str (mp_system mac) else DAC_ONLY_NOTE),
          er_skipped = px_skipped ix\<rparr>)"


subsection \<open>What the report says\<close>

text \<open>The access beyond the rest: a write, or the read of a secret.\<close>

definition risky :: "inode_record \<Rightarrow> audit_principal \<Rightarrow> bool" where
  "risky r pr \<longleftrightarrow> posix_allows r pr WriteBit \<or> posix_allows r pr ReadBit \<and> ir_class r = ClsSecret"

definition traversable :: "permission_index \<Rightarrow> audit_principal \<Rightarrow> path list \<Rightarrow> string \<Rightarrow> bool" where
  "traversable ix pr roots p \<longleftrightarrow>
     pr_uid pr = 0 \<or> list_all (\<lambda>d. has_search d ix pr) (searched (map utf8_lossy roots) (parent_dir p))"

text \<open>
  What was intended for a principal: with an account of the registry bound to it, its home and the
  grants of the account, where they are proper absolute paths.
\<close>

definition intended :: "registry_state \<Rightarrow> audit_principal \<Rightarrow> string \<Rightarrow> bool" where
  "intended st pr p \<longleftrightarrow>
     (\<exists>a. bound_account st pr = Some a
        \<and> ((\<exists>g q. g \<in> set (ma_file_grants a) \<and> valid_baseline_prefix (mfg_path g) = Some q
              \<and> (q = p \<or> mfg_recursive g \<and> path_at_or_under q p))
           \<or> (\<exists>h q. pr_home pr = Some h \<and> valid_baseline_prefix (utf8_lossy h) = Some q \<and> (q = p \<or> path_at_or_under q p))))"

lemma baseline_intended: "mc_managed (for_principal st pr) \<and> baseline_covers (mc_baseline (for_principal st pr)) p \<longleftrightarrow> intended st pr p"
proof (cases "bound_account st pr")
  case None
  then show ?thesis by (simp add: for_principal_def Let_def intended_def)
next
  case (Some a)
  have g: "list_ex (prefix_covers p) (concat (map grant_prefix gs)) \<longleftrightarrow>
      (\<exists>g q. g \<in> set gs \<and> valid_baseline_prefix (mfg_path g) = Some q \<and> (q = p \<or> mfg_recursive g \<and> path_at_or_under q p))" for gs
  proof (induction gs)
    case (Cons g gs)
    have "list_ex (prefix_covers p) (grant_prefix g) \<longleftrightarrow>
        (\<exists>q. valid_baseline_prefix (mfg_path g) = Some q \<and> (q = p \<or> mfg_recursive g \<and> path_at_or_under q p))"
      by (auto simp: grant_prefix_def prefix_covers_def split: option.splits)
    then show ?case using Cons by auto
  qed simp
  show ?thesis
    unfolding intended_def for_principal_def Let_def Some baseline_covers_def
    by (simp add: g) (auto simp: prefix_covers_def split: option.splits)
qed

lemma derive_risk_risky:
  assumes "wf_inode r"
  shows "derive_risk (eff_access (effective r pr)) (ir_class r) \<noteq> None \<longleftrightarrow> risky r pr"
  using effective_correct [OF assms, of WriteBit pr] effective_correct [OF assms, of ReadBit pr]
  unfolding derive_risk_iff risky_def by simp

lemma finding_for_Some:
  "finding_for r a v n reach ctx = Some f \<Longrightarrow> ef_path f = ir_path r \<and> ef_access f = a \<and> ef_via f = v \<and> ef_class f = ir_class r
     \<and> derive_risk a (ir_class r) = Some (ef_risk f) \<and> ef_severity f = derive_severity (ir_class r) (ef_risk f) \<and> ef_mac f = None"
  by (auto simp: finding_for_def split: if_splits option.splits prod.splits)

lemma finding_for_iff: "(\<exists>f. finding_for r a v n reach ctx = Some f) \<longleftrightarrow> reach \<and> derive_risk a (ir_class r) \<noteq> None"
  by (auto simp: finding_for_def split: option.splits prod.splits)

lemma expose_paths:
  assumes "list_all wf_inode (px_records ix)"
  shows "p \<in> ef_path ` set (expose ix pr roots reached ctx) \<longleftrightarrow>
    (\<exists>r \<in> set (px_records ix). ir_path r = p \<and> within_roots p (map utf8_lossy roots) \<and> is_reachable reached p \<and> risky r pr)"
proof -
  have one: "p \<in> ef_path ` set (expose_record pr (map utf8_lossy roots) reached ctx r) \<longleftrightarrow>
      ir_path r = p \<and> within_roots p (map utf8_lossy roots) \<and> is_reachable reached p \<and> risky r pr" if "wf_inode r" for r
  proof (cases "within_roots (ir_path r) (map utf8_lossy roots)")
    case True
    let ?e = "effective r pr"
    let ?f = "finding_for r (eff_access ?e) (eff_via ?e) (Some (pr_name pr)) (is_reachable reached (ir_path r)) ctx"
    have s: "set (expose_record pr (map utf8_lossy roots) reached ctx r) = set_option ?f"
      using True by (auto simp: expose_record_def Let_def split: option.splits)
    have i: "?f \<noteq> None \<longleftrightarrow> is_reachable reached (ir_path r) \<and> risky r pr"
      using finding_for_iff [of r "eff_access ?e" "eff_via ?e" "Some (pr_name pr)" "is_reachable reached (ir_path r)" ctx]
        derive_risk_risky [OF that, of pr] by auto
    show ?thesis
    proof (cases ?f)
      case None
      then show ?thesis using s i by auto
    next
      case (Some f)
      then have "ef_path f = ir_path r" using finding_for_Some [OF Some] by simp
      then show ?thesis using s i Some True by auto
    qed
  qed (auto simp: expose_record_def)
  have "p \<in> ef_path ` set (expose ix pr roots reached ctx) \<longleftrightarrow>
      (\<exists>r \<in> set (px_records ix). p \<in> ef_path ` set (expose_record pr (map utf8_lossy roots) reached ctx r))"
    by (auto simp: expose_def)
  then show ?thesis using one assms by (auto simp: list_all_iff)
qed

text \<open>
  C28: The exposure report names exactly the excess.  Without a mandatory layer, a path is reported for
  a principal exactly when it is indexed within the scan roots, the principal can traverse to it, it
  may write the inode or read it as a secret by the algorithm of \<open>acl(5)\<close>, and the path is not
  part of what was intended for a managed principal: its home and the grants of its account.
\<close>

theorem exposure_report_exact:
  assumes "list_all wf_inode (px_records ix)" and "\<not> mp_is_active mac"
  shows "p \<in> ef_path ` set (er_findings (exposure_report ix pr roots (reach_compute ix pr roots) st mac)) \<longleftrightarrow>
    (\<exists>r \<in> set (px_records ix). ir_path r = p \<and> within_roots p (map utf8_lossy roots) \<and> traversable ix pr roots p \<and> risky r pr)
    \<and> \<not> intended st pr p"
proof -
  let ?mc = "for_principal st pr"
  let ?raw = "expose ix pr roots (reach_compute ix pr roots) (as_context ?mc)"
  have "p \<in> ef_path ` set (er_findings (exposure_report ix pr roots (reach_compute ix pr roots) st mac)) \<longleftrightarrow>
      p \<in> ef_path ` set ?raw \<and> \<not> intended st pr p"
    using assms(2) baseline_intended [of st pr p]
    by (auto simp: exposure_report_def Let_def refine_with_mac_def baseline_subtract_def)
  moreover have "is_reachable (reach_compute ix pr roots) p \<longleftrightarrow> p \<in> ir_path ` set (px_records ix) \<and> traversable ix pr roots p"
    using reach_exact [of ix pr roots p] by (simp add: traversable_def)
  ultimately show ?thesis using expose_paths [OF assms(1), of p pr roots "reach_compute ix pr roots" "as_context ?mc"] by auto
qed


definition sample_stat :: "string \<Rightarrow> u32 \<Rightarrow> inode_stat" where
  "sample_stat p mode = \<lparr>st_path = p, st_uid = 0, st_gid = 0, st_mode = mode, st_is_dir = mode < 32768\<rparr>"

definition sample_stats :: "inode_stat list" where
  "sample_stats =
     [sample_stat ''/'' 16877, sample_stat ''/etc'' 16877, sample_stat ''/etc/ssh'' 16877,
      sample_stat ''/etc/ssh/conf'' 33206, sample_stat ''/etc/crontab'' 33206, sample_stat ''/root'' 16832,
      sample_stat ''/root/x'' 33279]"

definition sample_index :: permission_index where
  "sample_index =
     (case fold (index_stat default_classifier) sample_stats ([], [], []) of
        (_, records, by_path) \<Rightarrow> \<lparr>px_records = records, px_by_path = by_path, px_skipped = []\<rparr>)"

definition sample_registry :: registry_state where
  "sample_registry =
     \<lparr>rs_accounts = [(''svc'', \<lparr>ma_name = ''svc'', ma_uid = 5012, ma_shell = ''/bin/sh'', ma_groups = [], ma_sudo_role = None,
                               ma_sudo_commands = [],
                               ma_file_grants = [\<lparr>mfg_path = ''/etc/ssh/'', mfg_access = RW, mfg_recursive = True\<rparr>],
                               ma_provenance = Created, ma_from_version = 1\<rparr>)],
      rs_groups = []\<rparr>"

theorem exposure_report_exact_witness:
  "(''/etc/crontab'' \<in> ef_path ` set (er_findings (exposure_report sample_index sample_principal [''/'']
       (reach_compute sample_index sample_principal [''/'']) sample_registry NullMacProvider)))
   \<and> (''/etc/ssh/conf'' \<notin> ef_path ` set (er_findings (exposure_report sample_index sample_principal [''/'']
       (reach_compute sample_index sample_principal [''/'']) sample_registry NullMacProvider)))
   \<and> intended sample_registry sample_principal ''/etc/ssh/conf''
   \<and> \<not> traversable sample_index sample_principal [''/''] ''/root/x''"
proof -
  let ?F = "er_findings (exposure_report sample_index sample_principal [''/'']
       (reach_compute sample_index sample_principal [''/'']) sample_registry NullMacProvider)"
  have wf: "list_all wf_inode (px_records sample_index)" by code_simp
  have off: "\<not> mp_is_active NullMacProvider" by (simp add: NullMacProvider_def)
  note E = exposure_report_exact [OF wf off, where pr = sample_principal and roots = "[''/'']" and st = sample_registry]
  have cov: "mc_managed (for_principal sample_registry sample_principal)
      \<and> baseline_covers (mc_baseline (for_principal sample_registry sample_principal)) ''/etc/ssh/conf''" by code_simp
  then have i: "intended sample_registry sample_principal ''/etc/ssh/conf''" by (simp only: baseline_intended)
  have "\<not> baseline_covers (mc_baseline (for_principal sample_registry sample_principal)) ''/etc/crontab''" by code_simp
  then have n: "\<not> intended sample_registry sample_principal ''/etc/crontab''" using baseline_intended by blast
  have "list_ex (\<lambda>r. ir_path r = ''/etc/crontab'' \<and> within_roots ''/etc/crontab'' (map utf8_lossy [''/''])
      \<and> traversable sample_index sample_principal [''/''] ''/etc/crontab'' \<and> risky r sample_principal) (px_records sample_index)"
    by code_simp
  then have "''/etc/crontab'' \<in> ef_path ` set ?F" using E n by (auto simp: list_ex_iff)
  moreover have "''/etc/ssh/conf'' \<notin> ef_path ` set ?F" using E i by blast
  moreover have "\<not> traversable sample_index sample_principal [''/''] ''/root/x''" by code_simp
  ultimately show ?thesis using i by blast
qed

text \<open>A root written with a trailing separator: the walk records it so, and the climb asks for it without.\<close>

definition etc_fs :: fs_world where
  "etc_fs =
     \<lparr>fx_lstat = (\<lambda>_ p. if p = ''/etc'' \<or> p = ''/etc/'' then Ok (sample_meta 16877 2)
                         else if p = ''/etc/crontab'' then Ok (sample_meta 33206 3) else Err IoNotFound),
      fx_read_dir = (\<lambda>_ p. if p = ''/etc'' \<or> p = ''/etc/'' then Ok [''crontab''] else Err IoNotFound)\<rparr>"

definition etc_report :: "path list \<Rightarrow> string list option" where
  "etc_report roots =
     (case build_with (walk etc_fs []) (\<lambda>_ w. ([], w)) roots default_classifier () of
        (Ok ix, _) \<Rightarrow>
          Some (map ef_path (er_findings (exposure_report ix sample_principal roots (reach_compute ix sample_principal roots)
                  default_empty NullMacProvider)))
      | (Err _, _) \<Rightarrow> None)"

text \<open>
  The same world-writable file is reported under the root as it is usually written, and is not under
  the root with a trailing separator: every directory below it counts as unreachable.
\<close>

theorem trailing_separator_hides_findings:
  "etc_report [''/etc''] = Some [''/etc/crontab''] \<and> etc_report [''/etc/''] = Some []"
  by code_simp

subsection \<open>The mandatory layer\<close>

text \<open>A finding the layer denies: its object has a label and the principal contexts, none of them permitted.\<close>

definition mac_denies :: "mac_provider \<Rightarrow> u32 \<Rightarrow> exposure_finding \<Rightarrow> bool" where
  "mac_denies mac uid f \<longleftrightarrow>
     mp_is_active mac \<and> mp_principal_contexts mac uid \<noteq> []
     \<and> (case mp_object_label mac (ef_path f) of
          None \<Rightarrow> False
        | Some l \<Rightarrow> list_all (\<lambda>c. \<not> mp_permits mac c l (mac_access_for_risk (ef_risk f))) (mp_principal_contexts mac uid))"

lemma refine_finding_map:
  "mp_is_active mac \<Longrightarrow>
   map (ef_mac_update (\<lambda>_. None)) (refine_finding mac (mp_principal_contexts mac uid) f)
   = (if mac_denies mac uid f then [] else [ef_mac_update (\<lambda>_. None) f])"
  by (auto simp: refine_finding_def mac_denies_def Let_def filter_empty_conv list_all_iff split: option.splits)

text \<open>
  C35: A mandatory layer suppresses a finding only on proof.  What the layer leaves of the findings are
  the same findings in the same order, but for their annotation, less those it denies: an active
  provider labels the object and permits the access in none of the contexts the principal has, of which
  there is one at least.
\<close>

theorem mac_suppresses_only_denied:
  "map (ef_mac_update (\<lambda>_. None)) (refine_with_mac fs uid mac)
   = map (ef_mac_update (\<lambda>_. None)) (filter (\<lambda>f. \<not> mac_denies mac uid f) fs)"
proof (cases "mp_is_active mac")
  case True
  then show ?thesis by (induction fs) (simp_all add: refine_with_mac_def refine_finding_map)
next
  case False
  then show ?thesis by (simp add: refine_with_mac_def mac_denies_def)
qed

end
