(* ===== verification/Posture.thy ===== *)
theory Posture
  imports Exposure
begin

text \<open>
  \<^verbatim>\<open>exposure/fs_audit.rs\<close>, the posture map of the file system, and the runs of \<^verbatim>\<open>cli/audit.rs\<close>.  The map is
  proved to hold one finding for every path, source and harm that one of its four axes gives, with the
  highest severity of them, and nothing else.
\<close>

unbundle bit_operations_syntax

subsection \<open>The axes\<close>

definition is_sensitive_writable_class :: "object_class \<Rightarrow> bool" where
  "is_sensitive_writable_class c = (c \<in> {ClsCron, ClsSudoers, ClsSystemdUnit, ClsConfig, ClsPathBinary, ClsSecret})"

definition world_perms :: "u32 \<Rightarrow> acl_perms" where
  "world_perms mode = \<lparr>perm_read = mode AND 4 \<noteq> 0, perm_write = mode AND 2 \<noteq> 0, perm_execute = mode AND 1 \<noteq> 0\<rparr>"

definition group_perms :: "u32 \<Rightarrow> acl_perms" where
  "group_perms mode = \<lparr>perm_read = mode AND 32 \<noteq> 0, perm_write = mode AND 16 \<noteq> 0, perm_execute = mode AND 8 \<noteq> 0\<rparr>"

definition owning_group_perms :: "inode_record \<Rightarrow> acl_perms" where
  "owning_group_perms r =
     (case ir_acl r of
        None \<Rightarrow> group_perms (ir_mode r)
      | Some acl \<Rightarrow>
          masked (case find (\<lambda>e. ae_tag e = GroupObj) acl of Some e \<Rightarrow> ae_perms e | None \<Rightarrow> group_perms (ir_mode r))
            (case find (\<lambda>e. ae_tag e = MaskTag) acl of Some e \<Rightarrow> ae_perms e | None \<Rightarrow> PERMS_ALL))"

definition table_finding ::
    "inode_record \<Rightarrow> object_class \<Rightarrow> acl_perms \<Rightarrow> access_via \<Rightarrow> remediation_context \<Rightarrow> exposure_finding list" where
  "table_finding r cls access via ctx =
     (case derive_risk access cls of
        None \<Rightarrow> []
      | Some risk \<Rightarrow>
          (case remediation via (ir_path r) cls access ctx of (rcls, hint) \<Rightarrow>
             [\<lparr>ef_principal = None, ef_path = ir_path r, ef_access = access, ef_via = via, ef_class = cls, ef_risk = risk,
               ef_severity = derive_severity cls risk, ef_remediation_class = rcls, ef_hint = hint, ef_mac = None\<rparr>]))"

definition collect_world_writable :: "inode_record \<Rightarrow> object_class \<Rightarrow> remediation_context \<Rightarrow> exposure_finding list" where
  "collect_world_writable r cls ctx =
     (if \<not> is_sensitive_writable_class cls then []
      else let world = world_perms (ir_mode r) in
           if \<not> perm_write world then [] else table_finding r cls world ViaOtherBits ctx)"

definition EM_DASH :: string where "EM_DASH = [CHR 0xE2, CHR 0x80, CHR 0x94]"

definition collect_setuid :: "inode_record \<Rightarrow> object_class \<Rightarrow> exposure_finding list" where
  "collect_setuid r cls =
     (if cls \<noteq> ClsSetuidBinary then []
      else
        (let world = world_perms (ir_mode r);
             quoted = shell_quote (ir_path r);
             hint = (if perm_write world then
                       ''writable setuid/setgid binary '' @ EM_DASH @ '' remove world write manually ('' @ tick @ ''chmod o-w ''
                       @ quoted @ tick @ '') and investigate why it is writable''
                     else ''setuid/setgid binary '' @ EM_DASH @ '' verify it is expected and package-owned: '' @ tick @ quoted @ tick)
         in [\<lparr>ef_principal = None, ef_path = ir_path r, ef_access = world, ef_via = ViaOtherBits, ef_class = cls,
              ef_risk = Escalation, ef_severity = (if perm_write world then SevHigh else SevMedium),
              ef_remediation_class = Ambient, ef_hint = hint, ef_mac = None\<rparr>]))"

definition collect_world_readable_secret :: "inode_record \<Rightarrow> object_class \<Rightarrow> remediation_context \<Rightarrow> exposure_finding list" where
  "collect_world_readable_secret r cls ctx =
     (if cls \<noteq> ClsSecret then []
      else if \<not> perm_read (world_perms (ir_mode r)) then []
      else table_finding r cls \<lparr>perm_read = True, perm_write = False, perm_execute = False\<rparr> ViaOtherBits ctx)"

definition collect_broad_group_writable ::
    "inode_record \<Rightarrow> object_class \<Rightarrow> remediation_context \<Rightarrow> string list \<Rightarrow> full_inspector \<Rightarrow> exposure_finding list" where
  "collect_broad_group_writable r cls ctx broad_groups ins =
     (let grp = owning_group_perms r in
      if \<not> perm_write grp then []
      else case si_group_name_by_gid ins (ir_gid r) of
             None \<Rightarrow> []
           | Some nm \<Rightarrow> if nm \<notin> set broad_groups then [] else table_finding r cls grp (ViaGroup nm) ctx)"

definition posture_candidates :: "remediation_context \<Rightarrow> string list \<Rightarrow> full_inspector \<Rightarrow> inode_record \<Rightarrow> exposure_finding list" where
  "posture_candidates ctx broad_groups ins r =
     collect_world_writable r (ir_class r) ctx @ collect_setuid r (ir_class r)
     @ collect_world_readable_secret r (ir_class r) ctx
     @ collect_broad_group_writable r (ir_class r) ctx broad_groups ins"

subsection \<open>Deduplication and annotation\<close>

type_synonym posture_key = "string \<times> string \<times> exposure_risk"

definition finding_key :: "exposure_finding \<Rightarrow> posture_key" where
  "finding_key f = (ef_path f, via_label (ef_via f), ef_risk f)"

text \<open>The map of the best finding for each key, as a list of its entries.\<close>

fun keep_severest :: "exposure_finding \<Rightarrow> exposure_finding list \<Rightarrow> exposure_finding list" where
  "keep_severest f [] = [f]"
| "keep_severest f (g # gs) =
     (if finding_key g = finding_key f then (if severity_rank (ef_severity g) < severity_rank (ef_severity f) then f # gs else g # gs)
      else g # keep_severest f gs)"

definition dedup_keep_severest :: "exposure_finding list \<Rightarrow> exposure_finding list" where
  "dedup_keep_severest candidates =
     sort_key (\<lambda>f. [ef_path f, via_label (ef_via f), risk_as_str (ef_risk f)]) (fold keep_severest candidates [])"

definition annotate_posture :: "exposure_finding list \<Rightarrow> mac_provider \<Rightarrow> exposure_finding list" where
  "annotate_posture fs mac =
     (if \<not> mp_is_active mac then fs
      else map (\<lambda>f. case mp_object_label mac (ef_path f) of
                      Some label \<Rightarrow>
                        f\<lparr>ef_mac := Some \<lparr>mf_system = mp_system mac, mf_object_label = Some (mp_render_label mac label),
                                          mf_reachable_in = []\<rparr>\<rparr>
                    | None \<Rightarrow> f) fs)"

definition audit_fs ::
    "permission_index \<Rightarrow> remediation_context \<Rightarrow> string list \<Rightarrow> full_inspector \<Rightarrow> mac_provider \<Rightarrow> exposure_finding list" where
  "audit_fs ix ctx broad_groups ins mac =
     annotate_posture (dedup_keep_severest (concat (map (posture_candidates ctx broad_groups ins) (px_records ix)))) mac"

subsection \<open>What the map holds\<close>

text \<open>One axis on one inode: the source, the harm and its severity.\<close>

inductive posture :: "string list \<Rightarrow> full_inspector \<Rightarrow> inode_record \<Rightarrow> access_via \<Rightarrow> exposure_risk \<Rightarrow> exposure_severity \<Rightarrow> bool"
  for broad ins r where
    world_writable:
      "bit (ir_mode r) 1 \<Longrightarrow> ir_class r \<notin> {ClsSetuidBinary, ClsGeneric, ClsConfig} \<Longrightarrow> posture broad ins r ViaOtherBits Escalation SevHigh"
  | world_writable_config:
      "bit (ir_mode r) 1 \<Longrightarrow> ir_class r = ClsConfig \<Longrightarrow> posture broad ins r ViaOtherBits Tamper SevMedium"
  | setuid:
      "ir_class r = ClsSetuidBinary \<Longrightarrow> posture broad ins r ViaOtherBits Escalation (if bit (ir_mode r) 1 then SevHigh else SevMedium)"
  | readable_secret:
      "bit (ir_mode r) 2 \<Longrightarrow> ir_class r = ClsSecret \<Longrightarrow> posture broad ins r ViaOtherBits Leak SevHigh"
  | broad_group:
      "perm_write (owning_group_perms r) \<Longrightarrow> si_group_name_by_gid ins (ir_gid r) = Some g \<Longrightarrow> g \<in> set broad \<Longrightarrow>
       derive_risk (owning_group_perms r) (ir_class r) = Some k \<Longrightarrow>
       posture broad ins r (ViaGroup g) k (derive_severity (ir_class r) k)"

inductive_cases postureE: "posture broad ins r v k s"

lemma world_perms_bits:
  "perm_write (world_perms m) \<longleftrightarrow> bit m 1" "perm_read (world_perms m) \<longleftrightarrow> bit m 2"
  using and_pow2_iff [of m 1] and_pow2_iff [of m 2] by (simp_all add: world_perms_def)

definition finding_shape :: "exposure_finding \<Rightarrow> string \<times> access_via \<times> exposure_risk \<times> exposure_severity" where
  "finding_shape f = (ef_path f, ef_via f, ef_risk f, ef_severity f)"

lemma table_finding_shape:
  "finding_shape ` set (table_finding r cls a v ctx) =
   {(ir_path r, v, k, derive_severity cls k) | k. derive_risk a cls = Some k}"
proof (cases "derive_risk a cls")
  case (Some k)
  then show ?thesis by (cases "remediation v (ir_path r) cls a ctx") (simp add: table_finding_def finding_shape_def)
qed (simp add: table_finding_def)

lemma candidates_posture:
  "finding_shape ` set (posture_candidates ctx broad ins r) = {(ir_path r, v, k, s) | v k s. posture broad ins r v k s}"
proof -
  have w: "finding_shape ` set (collect_world_writable r (ir_class r) ctx) =
      {(ir_path r, ViaOtherBits, if ir_class r = ClsConfig then Tamper else Escalation,
         if ir_class r = ClsConfig then SevMedium else SevHigh) | x :: unit.
         bit (ir_mode r) 1 \<and> ir_class r \<notin> {ClsSetuidBinary, ClsGeneric}}"
    by (cases "ir_class r")
       (simp_all add: collect_world_writable_def Let_def world_perms_bits table_finding_shape is_sensitive_writable_class_def
         derive_risk_def derive_severity_def)
  have u: "finding_shape ` set (collect_setuid r (ir_class r)) =
      {(ir_path r, ViaOtherBits, Escalation, if bit (ir_mode r) 1 then SevHigh else SevMedium) | x :: unit. ir_class r = ClsSetuidBinary}"
    by (simp add: collect_setuid_def Let_def world_perms_bits finding_shape_def)
  have s: "finding_shape ` set (collect_world_readable_secret r (ir_class r) ctx) =
      {(ir_path r, ViaOtherBits, Leak, SevHigh) | x :: unit. bit (ir_mode r) 2 \<and> ir_class r = ClsSecret}"
    by (simp add: collect_world_readable_secret_def world_perms_bits table_finding_shape derive_risk_def derive_severity_def)
  have g: "finding_shape ` set (collect_broad_group_writable r (ir_class r) ctx broad ins) =
      {(ir_path r, ViaGroup n, k, derive_severity (ir_class r) k) | n k. perm_write (owning_group_perms r)
         \<and> si_group_name_by_gid ins (ir_gid r) = Some n \<and> n \<in> set broad \<and> derive_risk (owning_group_perms r) (ir_class r) = Some k}"
  proof (cases "si_group_name_by_gid ins (ir_gid r)")
    case (Some n)
    then show ?thesis by (auto simp: collect_broad_group_writable_def Let_def table_finding_shape)
  qed (simp add: collect_broad_group_writable_def Let_def)
  show ?thesis
    unfolding posture_candidates_def set_append image_Un w u s g by (auto simp: posture.simps)
qed


lemma keep_severest_keys:
  "set (map finding_key (keep_severest f gs)) = insert (finding_key f) (set (map finding_key gs))
   \<and> (distinct (map finding_key gs) \<longrightarrow> distinct (map finding_key (keep_severest f gs)))"
  by (induction gs) auto

lemma keep_severest_subset: "set (keep_severest f gs) \<subseteq> insert f (set gs)"
  by (induction gs) auto

lemma keep_severest_rank:
  "c \<in> insert f (set gs) \<Longrightarrow>
   \<exists>g \<in> set (keep_severest f gs). finding_key g = finding_key c \<and> severity_rank (ef_severity c) \<le> severity_rank (ef_severity g)"
  by (induction gs) auto

lemma fold_keep_severest:
  "distinct (map finding_key gs) \<Longrightarrow>
   distinct (map finding_key (fold keep_severest cs gs)) \<and> set (fold keep_severest cs gs) \<subseteq> set cs \<union> set gs
   \<and> (\<forall>c \<in> set cs \<union> set gs. \<exists>g \<in> set (fold keep_severest cs gs).
        finding_key g = finding_key c \<and> severity_rank (ef_severity c) \<le> severity_rank (ef_severity g))"
proof (induction cs arbitrary: gs)
  case (Cons f cs)
  have d: "distinct (map finding_key (keep_severest f gs))" using Cons.prems keep_severest_keys by blast
  note IH = Cons.IH [OF d]
  have "\<exists>g \<in> set (fold keep_severest cs (keep_severest f gs)).
      finding_key g = finding_key c \<and> severity_rank (ef_severity c) \<le> severity_rank (ef_severity g)"
    if c: "c \<in> set (f # cs) \<union> set gs" for c
  proof (cases "c \<in> set cs")
    case True
    then show ?thesis using IH by blast
  next
    case False
    then obtain g where g: "g \<in> set (keep_severest f gs)" "finding_key g = finding_key c"
      "severity_rank (ef_severity c) \<le> severity_rank (ef_severity g)" using c keep_severest_rank [of c f gs] by auto
    then obtain h where "h \<in> set (fold keep_severest cs (keep_severest f gs))" "finding_key h = finding_key g"
      "severity_rank (ef_severity g) \<le> severity_rank (ef_severity h)" using IH by blast
    then show ?thesis using g(2, 3) order_trans by fastforce
  qed
  then show ?case using IH keep_severest_subset [of f gs] by auto
qed auto

text \<open>The severities the axes give for a path, a source and a harm, and the highest of them.\<close>

definition posture_at :: "permission_index \<Rightarrow> string list \<Rightarrow> full_inspector \<Rightarrow> string \<Rightarrow> access_via \<Rightarrow> exposure_risk \<Rightarrow> exposure_severity set" where
  "posture_at ix broad ins p v k = {s. \<exists>r \<in> set (px_records ix). ir_path r = p \<and> posture broad ins r v k s}"

definition severest :: "exposure_severity set \<Rightarrow> exposure_severity \<Rightarrow> bool" where
  "severest S s \<longleftrightarrow> s \<in> S \<and> (\<forall>s' \<in> S. severity_rank s' \<le> severity_rank s)"

lemma posture_via: "posture broad ins r v k s \<Longrightarrow> v = ViaOtherBits \<or> (\<exists>g. v = ViaGroup g)"
  by (erule postureE) auto

lemma label_inj:
  "v = ViaOtherBits \<or> (\<exists>g. v = ViaGroup g) \<Longrightarrow> w = ViaOtherBits \<or> (\<exists>g. w = ViaGroup g) \<Longrightarrow> via_label v = via_label w \<Longrightarrow> v = w"
  by (auto simp: via_label_def)

lemma annotate_posture_shape:
  "map finding_shape (annotate_posture fs mac) = map finding_shape fs"
  by (simp add: annotate_posture_def finding_shape_def split: option.splits)

lemma candidates_shape:
  "finding_shape ` set (concat (map (posture_candidates ctx broad ins) rs)) =
   {(ir_path r, v, k, s) | r v k s. r \<in> set rs \<and> posture broad ins r v k s}"
proof -
  have "finding_shape ` set (concat (map (posture_candidates ctx broad ins) rs)) =
      (\<Union>r \<in> set rs. finding_shape ` set (posture_candidates ctx broad ins r))" by auto
  then show ?thesis unfolding candidates_posture by auto
qed

lemma severity_rank_inj: "severity_rank s = severity_rank t \<Longrightarrow> s = t"
  by (cases s; cases t) (simp_all add: severity_rank_def)

lemma dedup_facts:
  "distinct (map finding_key (dedup_keep_severest cs))"
  "set (dedup_keep_severest cs) \<subseteq> set cs"
  "c \<in> set cs \<Longrightarrow> \<exists>g \<in> set (dedup_keep_severest cs). finding_key g = finding_key c
      \<and> severity_rank (ef_severity c) \<le> severity_rank (ef_severity g)"
  "sorted (map (\<lambda>f. [ef_path f, via_label (ef_via f), risk_as_str (ef_risk f)]) (dedup_keep_severest cs))"
  using fold_keep_severest [of "[]" cs] by (auto simp: dedup_keep_severest_def distinct_map)

text \<open>Where labels tell sources apart, deduplication keeps the severest candidate of each shape.\<close>

lemma dedup_exact:
  assumes via: "\<And>c. c \<in> set cs \<Longrightarrow> ef_via c = ViaOtherBits \<or> (\<exists>g. ef_via c = ViaGroup g)"
  defines "S \<equiv> \<lambda>p v k. {s. (p, v, k, s) \<in> finding_shape ` set cs}"
  shows "(p, v, k, s) \<in> finding_shape ` set (dedup_keep_severest cs) \<longleftrightarrow> severest (S p v k) s"
proof
  let ?ded = "dedup_keep_severest cs"
  assume "(p, v, k, s) \<in> finding_shape ` set ?ded"
  then obtain f where f: "f \<in> set ?ded" "finding_shape f = (p, v, k, s)" by auto
  have "severity_rank s' \<le> severity_rank s" if "s' \<in> S p v k" for s'
  proof -
    from that obtain c where c: "c \<in> set cs" "finding_shape c = (p, v, k, s')" unfolding S_def by auto
    then obtain g where g: "g \<in> set ?ded" "finding_key g = finding_key c" "severity_rank s' \<le> severity_rank (ef_severity g)"
      using dedup_facts(3) [OF c(1)] by (auto simp: finding_shape_def)
    have "finding_key f = finding_key c" using c(2) f(2) by (simp add: finding_key_def finding_shape_def)
    moreover have "inj_on finding_key (set ?ded)" using dedup_facts(1) [of cs] by (simp add: distinct_map)
    ultimately have "g = f" using g(1, 2) f(1) by (metis inj_onD)
    then show ?thesis using g(3) f(2) by (simp add: finding_shape_def)
  qed
  moreover have "s \<in> S p v k" using f dedup_facts(2) [of cs] unfolding S_def by force
  ultimately show "severest (S p v k) s" by (simp add: severest_def)
next
  let ?ded = "dedup_keep_severest cs"
  assume sv: "severest (S p v k) s"
  then obtain c where c: "c \<in> set cs" "finding_shape c = (p, v, k, s)" unfolding severest_def S_def by auto
  then obtain g where g: "g \<in> set ?ded" "finding_key g = finding_key c" "severity_rank s \<le> severity_rank (ef_severity g)"
    using dedup_facts(3) [OF c(1)] by (auto simp: finding_shape_def)
  have gc: "g \<in> set cs" using g(1) dedup_facts(2) by blast
  then have "ef_via g = ef_via c" using label_inj [OF via [OF gc] via [OF c(1)]] g(2) by (simp add: finding_key_def)
  then have sh: "finding_shape g = (p, v, k, ef_severity g)" using g(2) c(2) by (simp add: finding_shape_def finding_key_def)
  then have "ef_severity g \<in> S p v k" using gc unfolding S_def by force
  then have "severity_rank (ef_severity g) \<le> severity_rank s" using sv by (simp add: severest_def)
  then have "ef_severity g = s" using g(3) by (intro severity_rank_inj order_antisym)
  then show "(p, v, k, s) \<in> finding_shape ` set ?ded" using sh g(1) by force
qed

lemma audit_fs_exact:
  "((p, v, k, s) \<in> finding_shape ` set (audit_fs ix ctx broad ins mac) \<longleftrightarrow> severest (posture_at ix broad ins p v k) s)
   \<and> distinct (map (\<lambda>(p, v, k, s). (p, via_label v, k)) (map finding_shape (audit_fs ix ctx broad ins mac)))
   \<and> sorted (map (\<lambda>(p, v, k, s). [p, via_label v, risk_as_str k]) (map finding_shape (audit_fs ix ctx broad ins mac)))"
proof -
  let ?cs = "concat (map (posture_candidates ctx broad ins) (px_records ix))"
  let ?ded = "dedup_keep_severest ?cs"
  have shape: "map finding_shape (audit_fs ix ctx broad ins mac) = map finding_shape ?ded"
    by (simp add: audit_fs_def annotate_posture_shape)
  then have img: "finding_shape ` set (audit_fs ix ctx broad ins mac) = finding_shape ` set ?ded" by (metis image_set)
  note C = candidates_shape [of ctx broad ins "px_records ix"]
  have via: "ef_via c = ViaOtherBits \<or> (\<exists>g. ef_via c = ViaGroup g)" if "c \<in> set ?cs" for c
  proof -
    have "finding_shape c \<in> finding_shape ` set ?cs" using that by simp
    then show ?thesis unfolding C by (auto simp: finding_shape_def dest: posture_via)
  qed
  have "posture_at ix broad ins p v k = {s. (p, v, k, s) \<in> finding_shape ` set ?cs}"
    unfolding C posture_at_def by auto
  then have "(p, v, k, s) \<in> finding_shape ` set ?ded \<longleftrightarrow> severest (posture_at ix broad ins p v k) s"
    using dedup_exact [of ?cs p v k s, OF via] by simp
  moreover have "map (\<lambda>(p, v, k, s). (p, via_label v, k)) (map finding_shape ?ded) = map finding_key ?ded"
    "map (\<lambda>(p, v, k, s). [p, via_label v, risk_as_str k]) (map finding_shape ?ded)
      = map (\<lambda>f. [ef_path f, via_label (ef_via f), risk_as_str (ef_risk f)]) ?ded"
    by (simp_all add: finding_key_def finding_shape_def)
  ultimately show ?thesis unfolding shape img using dedup_facts(1, 4) [of ?cs] by (simp only: simp_thms)
qed


lemmas audit_fs_shapes = audit_fs_exact [THEN conjunct1]

text \<open>
  C33: The posture map is exact.  It holds one finding for a path, a source and a harm exactly when one
  of the four axes gives them for an indexed inode (world-writable in a sensitive class, setuid or
  setgid, world-readable secret, writable by a broad group), with the highest severity the axes give;
  no two findings share path, source and harm, and they are in the order of these.  A mandatory layer
  changes annotations only.
\<close>

theorem posture_map_exact:
  "((p, v, k, s) \<in> finding_shape ` set (audit_fs ix ctx broad ins mac) \<longleftrightarrow> severest (posture_at ix broad ins p v k) s)
   \<and> distinct (map (\<lambda>(p, v, k, s). (p, via_label v, k)) (map finding_shape (audit_fs ix ctx broad ins mac)))
   \<and> sorted (map (\<lambda>(p, v, k, s). [p, via_label v, risk_as_str k]) (map finding_shape (audit_fs ix ctx broad ins mac)))"
  by (rule audit_fs_exact)

subsection \<open>The runs\<close>

datatype exit_code = ExitSuccess | ExitFailure

datatype audit_format = FormatText | FormatJson

text \<open>What a run prints to its standard output, or the error it prints instead.\<close>

datatype 'te audit_failure =
    FailConfig "'te exposure_config_error" | FailRoot path | FailNoMacBackend | FailWalk exposure_error | FailRegistry state_error
  | FailPrincipal string

record ('w, 'te) audit_host =
  ah_open :: "path \<Rightarrow> io_error + file_view"
  ah_exists :: "path \<Rightarrow> bool"
  ah_config_parse :: "string \<Rightarrow> 'te + exposure_config"
  ah_registry_parse :: "string \<Rightarrow> string + registry_file"
  ah_fs :: fs_world
  ah_mountinfo :: "string option"
  ah_runner :: "'w scan_runner"
  ah_inspector :: full_inspector
  ah_prompt :: "path list option"
  ah_json_fs :: "exposure_finding list \<Rightarrow> skipped_mount list \<Rightarrow> string option \<Rightarrow> string"
  ah_json_expose :: "exposure_report \<Rightarrow> string"

record audit_opts =
  ao_roots :: "path list"
  ao_full :: bool
  ao_format :: audit_format
  ao_managed :: path
  ao_config :: path
  ao_mac :: bool

definition resolve_mac_provider :: "bool \<Rightarrow> 'te audit_failure + mac_provider" where
  "resolve_mac_provider mac_requested = (if mac_requested then Err FailNoMacBackend else Ok NullMacProvider)"

text \<open>The prompt is what the operator answers on a terminal, none where there is no terminal.\<close>

definition scan_roots :: "path list option \<Rightarrow> path list \<Rightarrow> bool \<Rightarrow> path list \<Rightarrow> path list" where
  "scan_roots prompt roots full defaults =
     (if roots \<noteq> [] then roots
      else if full then [''/'']
      else case prompt of Some chosen \<Rightarrow> chosen | None \<Rightarrow> defaults)"

definition ensure_absolute_roots :: "path list \<Rightarrow> 'te audit_failure + unit" where
  "ensure_absolute_roots roots =
     (case find (\<lambda>r. \<not> starts_with r ''/'') roots of Some r \<Rightarrow> Err (FailRoot r) | None \<Rightarrow> Ok ())"

definition audit_exit_code :: "exposure_finding list \<Rightarrow> exit_code" where
  "audit_exit_code fs =
     (if list_ex (\<lambda>f. severity_rank SevHigh \<le> severity_rank (ef_severity f)) fs then ExitFailure else ExitSuccess)"

definition mac_note :: "mac_provider \<Rightarrow> string option" where
  "mac_note mac = (if mp_is_active mac then Some (''DAC + '' @ mac_system_as_str (mp_system mac)) else None)"

definition pad_right :: "nat \<Rightarrow> string \<Rightarrow> string" where
  "pad_right n s = s @ replicate (n - length s) CHR '' ''"

definition severity_as_str :: "exposure_severity \<Rightarrow> string" where
  "severity_as_str s = (case s of SevHigh \<Rightarrow> ''high'' | SevMedium \<Rightarrow> ''medium'' | SevLow \<Rightarrow> ''low'')"

definition remediation_as_str :: "remediation_class \<Rightarrow> string" where
  "remediation_as_str r = (case r of Ambient \<Rightarrow> ''ambient'' | InModel \<Rightarrow> ''in-model'')"

definition NL :: string where "NL = [CHR 0x0A]"

definition finding_line :: "exposure_finding \<Rightarrow> string" where
  "finding_line f =
     pad_right 6 (severity_as_str (ef_severity f)) @ '' '' @ pad_right 11 (risk_as_str (ef_risk f)) @ '' ''
     @ pad_right 13 (class_as_str (ef_class f)) @ '' '' @ ef_path f @ '' (access '' @ rwx (ef_access f) @ '', via ''
     @ via_label (ef_via f) @ '', fix '' @ remediation_as_str (ef_remediation_class f) @ '') '' @ EM_DASH @ '' ''
     @ ef_hint f @ NL"

definition skipped_notice :: "skipped_mount list \<Rightarrow> string" where
  "skipped_notice ms =
     concat (map (\<lambda>m. ''note: not scanned (coverage trimmed at a '' @ sk_fstype m @ '' mount): '' @ sk_path m @ NL) ms)"

definition render_fs_text :: "exposure_finding list \<Rightarrow> skipped_mount list \<Rightarrow> string option \<Rightarrow> string" where
  "render_fs_text fs skipped nt =
     (case nt of Some n \<Rightarrow> ''note: '' @ n @ NL | None \<Rightarrow> [])
     @ (if fs = [] then ''audit fs: no dangerous permission classes found'' @ NL
        else ''audit fs: '' @ dec (length fs) @ '' finding(s)'' @ NL @ concat (map finding_line fs))
     @ skipped_notice skipped"

definition render_expose_text :: "exposure_report \<Rightarrow> string" where
  "render_expose_text r =
     ''audit expose: principal '' @ er_principal r @ '' ('' @ (if er_managed r then ''managed'' else ''unmanaged'') @ '')'' @ NL
     @ ''note: '' @ er_note r @ NL
     @ (if er_findings r = [] then ''no reachable risky access found'' @ NL
        else dec (length (er_findings r)) @ '' finding(s)'' @ NL @ concat (map finding_line (er_findings r)))
     @ skipped_notice (er_skipped r)"

type_synonym 'te audit_result = "'te audit_failure + (exposure_finding list \<times> string \<times> exit_code)"

definition run_audit_fs :: "('w, 'te) audit_host \<Rightarrow> audit_opts \<Rightarrow> 'w \<Rightarrow> 'te audit_result" where
  "run_audit_fs h opts w =
     try_bind (map_err FailConfig (config_load (ah_open h) (ah_config_parse h) (ao_config opts))) (\<lambda>config.
     let roots = scan_roots (ah_prompt h) (ao_roots opts) (ao_full opts) (ec_scan_roots config) in
     try_bind (ensure_absolute_roots roots) (\<lambda>_.
     try_bind (resolve_mac_provider (ao_mac opts)) (\<lambda>mac.
     try_bind (map_err FailWalk (fst (index_live (ah_fs h) (ah_mountinfo h) (ah_runner h) roots (config_classifier config) w))) (\<lambda>ix.
     try_bind (map_err FailRegistry (registry_load (ah_exists h) (ah_open h) (ah_registry_parse h) (ao_managed opts))) (\<lambda>st.
     let findings = audit_fs ix (as_context (global_context st)) (ec_broad_groups config) (ah_inspector h) mac;
         out = (case ao_format opts of
                  FormatText \<Rightarrow> render_fs_text findings (px_skipped ix) (mac_note mac)
                | FormatJson \<Rightarrow> ah_json_fs h findings (px_skipped ix) (mac_note mac))
     in Ok (findings, out, audit_exit_code findings))))))"

definition run_audit_expose :: "('w, 'te) audit_host \<Rightarrow> audit_opts \<Rightarrow> string \<Rightarrow> 'w \<Rightarrow> 'te audit_result" where
  "run_audit_expose h opts prin w =
     try_bind (map_err FailConfig (config_load (ah_open h) (ah_config_parse h) (ao_config opts))) (\<lambda>config.
     let roots = scan_roots (ah_prompt h) (ao_roots opts) (ao_full opts) (ec_scan_roots config) in
     try_bind (ensure_absolute_roots roots) (\<lambda>_.
     case resolve_principal (ah_inspector h) prin of
       None \<Rightarrow> Err (FailPrincipal prin)
     | Some pr \<Rightarrow>
     try_bind (resolve_mac_provider (ao_mac opts)) (\<lambda>mac.
     try_bind (map_err FailWalk (fst (index_live (ah_fs h) (ah_mountinfo h) (ah_runner h) roots (config_classifier config) w))) (\<lambda>ix.
     let reached = reach_compute ix pr roots in
     try_bind (map_err FailRegistry (registry_load (ah_exists h) (ah_open h) (ah_registry_parse h) (ao_managed opts))) (\<lambda>st.
     let report = exposure_report ix pr roots reached st mac;
         out = (case ao_format opts of FormatText \<Rightarrow> render_expose_text report | FormatJson \<Rightarrow> ah_json_expose h report)
     in Ok (er_findings report, out, audit_exit_code (er_findings report)))))))"

definition run_exit :: "'te audit_result \<Rightarrow> exit_code" where
  "run_exit r = (case r of Ok (_, _, c) \<Rightarrow> c | Err _ \<Rightarrow> ExitFailure)"


lemma high_rank: "severity_rank SevHigh \<le> severity_rank s \<longleftrightarrow> s = SevHigh"
  by (cases s) (simp_all add: severity_rank_def)

lemma audit_exit_success: "audit_exit_code fs = ExitSuccess \<longleftrightarrow> SevHigh \<notin> ef_severity ` set fs"
  by (auto simp: audit_exit_code_def list_ex_iff high_rank image_iff) metis

text \<open>The index a run builds, as the composition of its parts.\<close>

definition audited_index :: "('w, 'te) audit_host \<Rightarrow> audit_opts \<Rightarrow> 'w \<Rightarrow> (exposure_config \<times> path list \<times> permission_index) option" where
  "audited_index h opts w =
     (case config_load (ah_open h) (ah_config_parse h) (ao_config opts) of
        Err _ \<Rightarrow> None
      | Ok config \<Rightarrow>
          (let roots = scan_roots (ah_prompt h) (ao_roots opts) (ao_full opts) (ec_scan_roots config) in
           case fst (index_live (ah_fs h) (ah_mountinfo h) (ah_runner h) roots (config_classifier config) w) of
             Err _ \<Rightarrow> None
           | Ok ix \<Rightarrow> Some (config, roots, ix)))"

lemma run_audit_fs_Ok:
  fixes h :: "('w, 'te) audit_host"
  assumes "run_audit_fs h opts w = Ok (fs, out, c)"
  obtains config roots ix st mac where
    "audited_index h opts w = Some (config, roots, ix)"
    "fs = audit_fs ix (as_context (global_context st)) (ec_broad_groups config) (ah_inspector h) mac" "c = audit_exit_code fs"
    "list_all (\<lambda>r. starts_with r ''/'') roots"
proof -
  let ?roots = "\<lambda>config. scan_roots (ah_prompt h) (ao_roots opts) (ao_full opts) (ec_scan_roots config)"
  obtain config where c: "config_load (ah_open h) (ah_config_parse h) (ao_config opts) = Ok config"
    and r: "ensure_absolute_roots (?roots config) = (Ok () :: 'te audit_failure + unit)"
    using assms by (auto simp: run_audit_fs_def try_bind_Ok_iff Let_def map_err_def split: sum.splits)
  obtain ix where i: "fst (index_live (ah_fs h) (ah_mountinfo h) (ah_runner h) (?roots config) (config_classifier config) w) = Ok ix"
    using assms c r by (auto simp: run_audit_fs_def try_bind_Ok_iff Let_def map_err_def split: sum.splits)
  obtain mac st where "fs = audit_fs ix (as_context (global_context st)) (ec_broad_groups config) (ah_inspector h) mac"
    "c = audit_exit_code fs"
    using assms c r i by (auto simp: run_audit_fs_def try_bind_Ok_iff Let_def map_err_def split: sum.splits)
  moreover have "list_all (\<lambda>r. starts_with r ''/'') (?roots config)"
    using r by (auto simp: ensure_absolute_roots_def list_all_iff find_None_iff split: option.splits)
  ultimately show ?thesis using that c i by (simp add: audited_index_def Let_def)
qed


text \<open>
  C34: A clean posture audit means no high-severity posture.  When \<^verbatim>\<open>census audit fs\<close> exits with success,
  its roots were absolute, and no inode of the index it built has an axis of high severity: no
  world-writable cron, sudoers, unit, path binary or secret, no world-writable setuid binary, no
  world-readable secret, and no such object a broad group can write.
\<close>

theorem clean_audit_no_high_posture:
  assumes "run_exit (run_audit_fs h opts w) = ExitSuccess"
  shows "\<exists>config roots ix. audited_index h opts w = Some (config, roots, ix)
    \<and> list_all (\<lambda>r. starts_with r ''/'') roots
    \<and> \<not> (\<exists>r \<in> set (px_records ix). \<exists>v k. posture (ec_broad_groups config) (ah_inspector h) r v k SevHigh)"
proof -
  obtain fs out where run: "run_audit_fs h opts w = Ok (fs, out, ExitSuccess)"
    using assms by (auto simp: run_exit_def split: sum.splits)
  from run_audit_fs_Ok [OF run] obtain config roots ix st mac where
    a: "audited_index h opts w = Some (config, roots, ix)" "list_all (\<lambda>r. starts_with r ''/'') roots"
    and fs: "fs = audit_fs ix (as_context (global_context st)) (ec_broad_groups config) (ah_inspector h) mac"
    and c: "audit_exit_code fs = ExitSuccess" by metis
  have "\<not> posture (ec_broad_groups config) (ah_inspector h) r v k SevHigh" if r: "r \<in> set (px_records ix)" for r v k
  proof
    assume "posture (ec_broad_groups config) (ah_inspector h) r v k SevHigh"
    then have "severest (posture_at ix (ec_broad_groups config) (ah_inspector h) (ir_path r) v k) SevHigh"
      using r by (auto simp: severest_def posture_at_def severity_rank_def split: exposure_severity.splits)
    then have "(ir_path r, v, k, SevHigh) \<in> finding_shape ` set fs" unfolding fs by (simp add: audit_fs_shapes)
    then have "SevHigh \<in> ef_severity ` set fs" by (auto simp: finding_shape_def)
    then show False using c by (simp add: audit_exit_success)
  qed
  then show ?thesis using a by blast
qed


definition clean_fs :: fs_world where
  "clean_fs =
     \<lparr>fx_lstat = (\<lambda>_ p. if p = ''/etc'' then Ok (sample_meta 16877 2)
                         else if p = ''/etc/crontab'' then Ok (sample_meta 33188 3) else Err IoNotFound),
      fx_read_dir = (\<lambda>_ p. if p = ''/etc'' then Ok [''crontab''] else Err IoNotFound)\<rparr>"

text \<open>A host with one group, \<open>staff\<close>.\<close>

definition staff_inspector :: full_inspector where
  "staff_inspector =
     \<lparr>si_account = (\<lambda>_. None), si_group = (\<lambda>_. None), si_group_name_by_gid = (\<lambda>g. if g = 50 then Some ''staff'' else None),
      si_group_members = (\<lambda>_. []), si_primary_gid = (\<lambda>_. None), si_account_name_by_uid = (\<lambda>_. None),
      si_password_locked = (\<lambda>_. None), si_shadow_locks = None, si_has_authorized_keys = (\<lambda>_ _. False),
      si_census_marked_accounts = [], si_group_sudoers_fragment_present = (\<lambda>_. None), si_file_access_present = (\<lambda>_ _. None),
      si_group_file_access_present = (\<lambda>_ _. None), si_login_capable_non_managed = (\<lambda>_. [])\<rparr>"

definition sample_host :: "fs_world \<Rightarrow> (unit, unit) audit_host" where
  "sample_host fs =
     \<lparr>ah_open = (\<lambda>_. Err IoNotFound), ah_exists = (\<lambda>_. False), ah_config_parse = (\<lambda>_. Err ()),
      ah_registry_parse = (\<lambda>_. Err []), ah_fs = fs, ah_mountinfo = None, ah_runner = (\<lambda>_ _ w. ([], w)),
      ah_inspector = staff_inspector, ah_prompt = None, ah_json_fs = (\<lambda>_ _ _. []), ah_json_expose = (\<lambda>_. [])\<rparr>"

definition sample_opts :: audit_opts where
  "sample_opts =
     \<lparr>ao_roots = [''/etc''], ao_full = False, ao_format = FormatText, ao_managed = ''/m'', ao_config = ''/c'', ao_mac = False\<rparr>"

theorem clean_audit_no_high_posture_witness:
  "run_exit (run_audit_fs (sample_host clean_fs) sample_opts ()) = ExitSuccess
   \<and> run_exit (run_audit_fs (sample_host etc_fs) sample_opts ()) = ExitFailure
   \<and> (\<exists>config roots ix. audited_index (sample_host clean_fs) sample_opts () = Some (config, roots, ix)
        \<and> \<not> (\<exists>r \<in> set (px_records ix). \<exists>v k. posture (ec_broad_groups config) (ah_inspector (sample_host clean_fs)) r v k SevHigh))"
proof -
  have ok: "run_exit (run_audit_fs (sample_host clean_fs) sample_opts ()) = ExitSuccess" by code_simp
  have bad: "run_exit (run_audit_fs (sample_host etc_fs) sample_opts ()) = ExitFailure" by code_simp
  show ?thesis using ok bad clean_audit_no_high_posture [OF ok] by blast
qed

end
