(* ===== verification/Coverage.thy ===== *)
theory Coverage
  imports Exposure_Taxonomy Catalog Sudoers
begin

text \<open>
  \<^verbatim>\<open>coverage.rs\<close>, the pure core: the set of what the installed catalog and the roles grant, the verdict
  on every object of the privileged surface, the metric, and the reverse lookup.  A percentage is kept
  as the operands of its floating-point quotient, and a warning as the id and the error it shows.

  The lemmas show that only a concrete grant covers an object, what the metric counts, and that the
  reverse lookup answers exactly where the forward match covers.
\<close>

subsection \<open>Words of a text\<close>

fun token_len :: "string \<Rightarrow> nat" where
  "token_len [] = 0"
| "token_len (c # cs) = (if ws_len (c # cs) > 0 then 0 else Suc (token_len cs))"

lemma token_len_pos: "s \<noteq> [] \<Longrightarrow> ws_len s = 0 \<Longrightarrow> token_len s > 0"
  by (cases s) simp_all

function split_whitespace :: "string \<Rightarrow> string list" where
  "split_whitespace s =
     (let t = trim_start s in if t = [] then [] else take (token_len t) t # split_whitespace (drop (token_len t) t))"
  by pat_completeness auto

termination
proof (relation "measure length")
  fix s t
  assume t: "t = trim_start s" "t \<noteq> []"
  have "length t \<le> length s" using trim_start_suffix [of s] by (auto simp: t)
  moreover have "token_len t > 0" using t trim_start_nonws [of s] by (simp add: token_len_pos)
  ultimately show "(drop (token_len t) t, s) \<in> measure length" using t(2) by (cases t) simp_all
qed simp

declare split_whitespace.simps [simp del]

definition last_opt :: "'a list \<Rightarrow> 'a option" where
  "last_opt xs = (if xs = [] then None else Some (last xs))"

definition first_opt :: "'a list \<Rightarrow> 'a option" where
  "first_opt xs = (case xs of [] \<Rightarrow> None | x # _ \<Rightarrow> Some x)"

subsection \<open>The surface\<close>

datatype surface_class = SudoBin | Config | Unit | Group | CapFile | Setuid

fun surface_as_str :: "surface_class \<Rightarrow> string" where
  "surface_as_str SudoBin = ''sudo_bin''"
| "surface_as_str Config = ''config''"
| "surface_as_str Unit = ''unit''"
| "surface_as_str Group = ''group''"
| "surface_as_str CapFile = ''capfile''"
| "surface_as_str Setuid = ''setuid''"

definition is_grant_class :: "surface_class \<Rightarrow> bool" where
  "is_grant_class c \<longleftrightarrow> c \<noteq> Setuid"

datatype surface_provenance = Vendor | Addon string | Orphan

record surface_object =
  so_class :: surface_class
  so_key :: string
  so_provenance :: surface_provenance
  so_detail :: string

text \<open>Why a scan tool could not be trusted; the error texts of the system are strings.\<close>

datatype capture_failure =
  CapSpawnFailed string
| CapTimedOut nat
| CapWaitFailed string
| CapReadFailed string
| CapReaderPanicked
| CapNotUtf8
| CapNonZeroExit "nat option"

record scan_degraded =
  sd_class :: surface_class
  sd_program :: string
  sd_reason :: capture_failure

record scan_outcome =
  sc_objects :: "surface_object list"
  sc_degraded :: "scan_degraded list"

record resolved_role =
  rr_sudo :: "string list"
  rr_groups :: "string list"
  rr_file_grants :: "resolved_file_grant list"

record coverage_ctx =
  cx_strict :: bool
  cx_catalog_version :: "string option"
  cx_bound_grant_groups :: "string list"

record object_coverage =
  oc_object :: surface_object
  oc_covered :: bool
  oc_suggested_permission :: "string option"
  oc_intentional_exclusion :: "string option"
  oc_backend_limited :: "string option"
  oc_coverage_note :: "string option"

record class_coverage =
  cc_class :: surface_class
  cc_covered :: nat
  cc_total :: nat

text \<open>\<open>100.0\<close>, or \<open>(n as f64) * 100.0 / (d as f64)\<close>.\<close>

datatype percentage = Hundred | Quotient nat nat

definition pct :: "class_coverage \<Rightarrow> percentage" where
  "pct c = (if cc_total c = 0 then Hundred else Quotient (cc_covered c) (cc_total c))"

record coverage_report =
  cr_by_class :: "class_coverage list"
  cr_objects :: "object_coverage list"
  cr_setuid_inventory :: "surface_object list"
  cr_anomalies :: "surface_object list"
  cr_overall_pct :: percentage
  cr_catalog_version :: "string option"
  cr_os_target :: string
  cr_catalog_warnings :: "(string \<times> catalog_error) list"
  cr_scan_warnings :: "scan_degraded list"

subsection \<open>What is granted\<close>

record covered_set =
  cv_sudo_binaries :: "string set"
  cv_groups :: "string set"
  cv_units :: "string set"
  cv_has_service_admin :: bool
  cv_has_capability_admin :: bool
  cv_file_grants :: "resolved_file_grant list"

definition NON_GRANTABLE_PARENTS :: "string list" where
  "NON_GRANTABLE_PARENTS =
     [''/'', ''/etc'', ''/usr'', ''/usr/local'', ''/var'', ''/boot'', ''/opt'', ''/run'', ''/etc/ssl'', ''/etc/pki'',
      ''/etc/ca-certificates'']"

definition SERVICE_ADMIN_ID :: string where "SERVICE_ADMIN_ID = ''service-admin''"
definition CAPABILITY_ADMIN_ID :: string where "CAPABILITY_ADMIN_ID = ''capability-admin''"

definition sudo_binary_token :: "string \<Rightarrow> string option" where
  "sudo_binary_token command = first_opt (split_whitespace command)"

definition static_binary_prefix :: "string \<Rightarrow> string option" where
  "static_binary_prefix command =
     (case sudo_binary_token command of
        None \<Rightarrow> None
      | Some token \<Rightarrow> if CHR ''{'' \<in> set token then None else Some token)"

text \<open>\<open>has_placeholder\<close> of this file: an opening brace with a closing one behind it.\<close>

definition is_template :: "string \<Rightarrow> bool" where
  "is_template s \<longleftrightarrow> (case split_once CHR ''{'' s of Some (_, rest) \<Rightarrow> CHR ''}'' \<in> set rest | None \<Rightarrow> False)"

definition is_systemctl_verb :: "string \<Rightarrow> bool" where
  "is_systemctl_verb token \<longleftrightarrow>
     token \<in> set [''start'', ''stop'', ''restart'', ''status'', ''is-active'', ''reset-failed'', ''enable'', ''disable'', ''daemon-reload'']"

definition service_restart_unit :: "string \<Rightarrow> string option" where
  "service_restart_unit command =
     (case split_whitespace command of
        [] \<Rightarrow> None
      | bin # rest \<Rightarrow>
          if \<not> ends_with bin ''/systemctl'' \<and> bin \<noteq> ''systemctl'' then None
          else (let lst = last (bin # rest) in
            if lst = bin \<or> starts_with lst ''-'' \<or> is_systemctl_verb lst then None else Some lst))"

definition unit_base :: "string \<Rightarrow> string" where
  "unit_base unit = unwrap_or (strip_suffix unit ''.service'') unit"

definition fold_unit_forms :: "string \<Rightarrow> string set \<Rightarrow> string set" where
  "fold_unit_forms unit units = insert (unit_base unit @ ''.service'') (insert (unit_base unit) units)"

fun push_unique_grant :: "resolved_file_grant \<Rightarrow> resolved_file_grant list \<Rightarrow> resolved_file_grant list" where
  "push_unique_grant g [] = [g]"
| "push_unique_grant g (e # es) =
     (if rfg_path e = rfg_path g
      then (let r = rfg_recursive e \<or> rfg_recursive g in
            e\<lparr>rfg_access := access_union (rfg_access e) (rfg_access g), rfg_recursive := r,
              rfg_shape := (if r then Dir else rfg_shape e)\<rparr>) # es
      else e # push_unique_grant g es)"

text \<open>One sudo command of a record: a template counts by its binary, unless the audit is strict.\<close>

definition fold_sudo :: "bool \<Rightarrow> string \<Rightarrow> string set \<Rightarrow> string set" where
  "fold_sudo strict command bins =
     (if is_template command
      then (if strict then bins else case static_binary_prefix command of Some b \<Rightarrow> insert b bins | None \<Rightarrow> bins)
      else case sudo_binary_token command of Some b \<Rightarrow> insert b bins | None \<Rightarrow> bins)"

definition fold_resolved :: "bool \<Rightarrow> string \<Rightarrow> resolved_permission \<Rightarrow> covered_set \<Rightarrow> covered_set" where
  "fold_resolved strict i r cs =
     cs\<lparr>cv_has_service_admin := cv_has_service_admin cs \<or> i = SERVICE_ADMIN_ID,
        cv_has_capability_admin := cv_has_capability_admin cs \<or> i = CAPABILITY_ADMIN_ID,
        cv_sudo_binaries := fold (\<lambda>p. fold_sudo strict (pm_value p)) (rp_sudo r) (cv_sudo_binaries cs),
        cv_groups := fold (\<lambda>p. insert (pm_value p)) (rp_groups r) (cv_groups cs),
        cv_file_grants := fold (\<lambda>g gs. if is_template (rfg_path g) then gs else push_unique_grant g gs)
          (rp_file_grants r) (cv_file_grants cs)\<rparr>"

definition fold_role_command :: "string \<Rightarrow> covered_set \<Rightarrow> covered_set" where
  "fold_role_command cmd cs =
     cs\<lparr>cv_sudo_binaries := (case sudo_binary_token cmd of Some b \<Rightarrow> insert b (cv_sudo_binaries cs) | None \<Rightarrow> cv_sudo_binaries cs),
        cv_units := (case service_restart_unit cmd of Some u \<Rightarrow> fold_unit_forms u (cv_units cs) | None \<Rightarrow> cv_units cs)\<rparr>"

definition fold_role :: "resolved_role \<Rightarrow> covered_set \<Rightarrow> covered_set" where
  "fold_role role cs =
     (let cs1 = fold fold_role_command (rr_sudo role) cs in
      cs1\<lparr>cv_groups := fold insert (rr_groups role) (cv_groups cs1),
          cv_file_grants := fold push_unique_grant (rr_file_grants role) (cv_file_grants cs1)\<rparr>)"

definition empty_covered :: covered_set where
  "empty_covered =
     \<lparr>cv_sudo_binaries = {}, cv_groups = {}, cv_units = {}, cv_has_service_admin = False, cv_has_capability_admin = False,
      cv_file_grants = []\<rparr>"

type_synonym covering_state = "string set \<times> covered_set \<times> (string \<times> catalog_error) list"

definition fold_definition ::
    "(u64 \<Rightarrow> string) \<Rightarrow> catalog_source \<Rightarrow> os_target \<Rightarrow> coverage_ctx \<Rightarrow> string \<times> permission_def \<Rightarrow> covering_state \<Rightarrow> covering_state" where
  "fold_definition show_f64 cat os ctx d st =
     (case (d, st) of ((_, def), (seen, cs, warnings)) \<Rightarrow>
        if pd_id def \<in> seen then st
        else
          (case catalog_resolve show_f64 (pd_id def) os cat (cx_catalog_version ctx) of
             Ok (r, _) \<Rightarrow> (insert (pd_id def) seen, fold_resolved (cx_strict ctx) (pd_id def) r cs, warnings)
           | Err e \<Rightarrow> (insert (pd_id def) seen, cs, warnings @ [(pd_id def, e)])))"

definition build_covered_set ::
    "(u64 \<Rightarrow> string) \<Rightarrow> catalog_source \<Rightarrow> os_target \<Rightarrow> resolved_role list \<Rightarrow> coverage_ctx
     \<Rightarrow> catalog_error + covered_set \<times> (string \<times> catalog_error) list" where
  "build_covered_set show_f64 cat os roles ctx =
     try_bind (all_definitions cat os) (\<lambda>all.
       case fold (fold_definition show_f64 cat os ctx) all ({}, empty_covered, []) of
         (_, cs, warnings) \<Rightarrow>
           (let cs1 = fold fold_role roles cs in
            Ok (cs1\<lparr>cv_groups := fold insert (cx_bound_grant_groups ctx) (cv_groups cs1)\<rparr>, warnings)))"

subsection \<open>Verdicts\<close>

definition grant_covers_path :: "resolved_file_grant \<Rightarrow> string \<Rightarrow> bool" where
  "grant_covers_path g p \<longleftrightarrow> rfg_path g = p \<or> rfg_recursive g \<and> path_at_or_under (rfg_path g) p"

definition grant_shape_enforceable :: "resolved_file_grant \<Rightarrow> bool" where
  "grant_shape_enforceable g \<longleftrightarrow> rfg_shape g = Dir"

definition choose_stronger_cover :: "resolved_file_grant \<Rightarrow> resolved_file_grant \<Rightarrow> resolved_file_grant" where
  "choose_stronger_cover prev cand =
     (if grant_shape_enforceable prev \<noteq> grant_shape_enforceable cand
      then (if grant_shape_enforceable prev then prev else cand)
      else if contains (rfg_access prev) WRITE then prev else cand)"

definition config_grant_cover :: "string \<Rightarrow> resolved_file_grant list \<Rightarrow> resolved_file_grant option" where
  "config_grant_cover p grants =
     fold (\<lambda>g best. if grant_covers_path g p
       then Some (case best of None \<Rightarrow> g | Some prev \<Rightarrow> choose_stronger_cover prev g) else best) grants None"

definition config_in_scope :: "string \<Rightarrow> resolved_file_grant list \<Rightarrow> bool" where
  "config_in_scope p grants \<longleftrightarrow> is_security_relevant_config p \<or> list_ex (\<lambda>g. grant_covers_path g p) grants"

fun shape_word :: "shape \<Rightarrow> string" where
  "shape_word Dir = ''directory''"
| "shape_word File = ''File''"
| "shape_word Pattern = ''Pattern''"

definition grant_coverage_note :: "resolved_file_grant \<Rightarrow> string" where
  "grant_coverage_note g =
     display_token (rfg_access g)
     @ (case rfg_shape g of
          Dir \<Rightarrow> '' via AclBackend (dir)''
        | File \<Rightarrow> '' (requires per-file-capable backend)''
        | Pattern \<Rightarrow> '' (requires pattern-capable backend)'')"

definition grant_backend :: "resolved_file_grant \<Rightarrow> string" where
  "grant_backend g =
     (case rfg_shape g of Dir \<Rightarrow> ''AclBackend'' | File \<Rightarrow> ''per-file-capable backend'' | Pattern \<Rightarrow> ''pattern-capable backend'')"

definition config_parent_dir :: "string \<Rightarrow> string" where
  "config_parent_dir p = (case rsplit_once CHR ''/'' p of Some (par, _) \<Rightarrow> if par = [] then ''/'' else par | None \<Rightarrow> p)"

definition basename :: "string \<Rightarrow> string" where
  "basename p = last (split_on CHR ''/'' p)"

definition backend_limited_config :: "string \<Rightarrow> bool" where
  "backend_limited_config p \<longleftrightarrow> config_parent_dir p \<in> set NON_GRANTABLE_PARENTS"

definition unit_covered :: "string \<Rightarrow> string set \<Rightarrow> bool" where
  "unit_covered unit units \<longleftrightarrow> unit \<in> units \<or> unit_base unit \<in> units \<or> unit_base unit @ ''.service'' \<in> units"

definition object_covered :: "surface_object \<Rightarrow> covered_set \<Rightarrow> bool" where
  "object_covered o1 cs =
     (case so_class o1 of
        SudoBin \<Rightarrow> so_key o1 \<in> cv_sudo_binaries cs
      | Group \<Rightarrow> so_key o1 \<in> cv_groups cs
      | Unit \<Rightarrow> cv_has_service_admin cs \<or> unit_covered (so_key o1) (cv_units cs)
      | CapFile \<Rightarrow> cv_has_capability_admin cs
      | Config \<Rightarrow> False
      | Setuid \<Rightarrow> False)"

definition intentional_exclusion :: "surface_object \<Rightarrow> string option" where
  "intentional_exclusion o1 =
     (if so_class o1 = SudoBin \<or> so_class o1 = Setuid
      then (let nm = basename (so_key o1) in
        if nm \<in> set [''su'', ''sudo'', ''pkexec'', ''newgrp'', ''sg''] then Some ''escalation mechanism (not an object of grant)''
        else if starts_with nm ''pdpl'' \<or> starts_with nm ''parsec''
        then Some (''MAC/pdpl '' @ em_dash @ '' commercial ParsecBackend layer'')
        else None)
      else if so_class o1 = Group
      then (let g = so_key o1 in
        if g \<in> set [''astra-admin'', ''astra-console'', ''sudo'', ''wheel''] \<or> starts_with g ''app_'' \<or> starts_with g ''site_''
        then Some ''admin-by-design / app site-layer group''
        else if g \<in> set [''messagebus'', ''crontab'', ''ssl-cert''] then Some ''noise group (not gate-keeping to a grant)''
        else None)
      else None)"

text \<open>The suggestion tables: a name and the permission it points to.\<close>

definition SUDO_SUGGESTIONS :: "(string \<times> string) list" where
  "SUDO_SUGGESTIONS =
     [(''cryptsetup'', ''luks-admin''), (''setcap'', ''capability-admin''), (''getcap'', ''capability-admin''),
      (''aa-enforce'', ''apparmor-admin''), (''aa-complain'', ''apparmor-admin''), (''apparmor_parser'', ''apparmor-admin''),
      (''aa-status'', ''apparmor-admin''), (''update-ca-certificates'', ''ca-trust-admin''), (''auditctl'', ''audit-config''),
      (''augenrules'', ''audit-config''), (''useradd'', ''user-admin''), (''usermod'', ''user-admin''), (''userdel'', ''user-admin''),
      (''chpasswd'', ''user-admin''), (''modprobe'', ''driver-config''), (''rmmod'', ''driver-config''), (''sysctl'', ''kernel-tune''),
      (''parted'', ''disk-admin''), (''fdisk'', ''disk-admin''), (''lvm'', ''disk-admin''), (''reboot'', ''power-control''),
      (''shutdown'', ''power-control''), (''poweroff'', ''power-control''), (''halt'', ''power-control''),
      (''iptables'', ''firewall-admin''), (''iptables-restore'', ''firewall-admin''), (''nft'', ''firewall-admin'')]"

definition GROUP_SUGGESTIONS :: "(string \<times> string) list" where
  "GROUP_SUGGESTIONS =
     [(''netdev'', ''network-admin''), (''dialout'', ''device-serial''), (''plugdev'', ''device-usb''), (''disk'', ''disk-admin''),
      (''adm'', ''log-read''), (''systemd-journal'', ''log-read''), (''docker'', ''docker.admin''), (''lpadmin'', ''print-admin'')]"

definition suggest_permission :: "surface_object \<Rightarrow> string option" where
  "suggest_permission o1 =
     (case so_class o1 of
        SudoBin \<Rightarrow> map_of SUDO_SUGGESTIONS (basename (so_key o1))
      | Group \<Rightarrow> map_of GROUP_SUGGESTIONS (so_key o1)
      | CapFile \<Rightarrow> Some ''capability-admin''
      | _ \<Rightarrow> None)"

definition suggest_permission_with_grants :: "surface_object \<Rightarrow> string option" where
  "suggest_permission_with_grants o1 =
     (if so_class o1 = Config then Some (''file grant rw on '' @ config_parent_dir (so_key o1) @ '' (recursive)'')
      else suggest_permission o1)"


subsection \<open>The report\<close>

record coverage_state =
  ct_objects :: "object_coverage list"
  ct_setuid :: "surface_object list"
  ct_anomalies :: "surface_object list"
  ct_counts :: "(surface_class \<times> nat \<times> nat) list"

definition verdict :: "surface_object \<Rightarrow> bool \<Rightarrow> object_coverage" where
  "verdict o1 is_covered =
     \<lparr>oc_object = o1, oc_covered = is_covered, oc_suggested_permission = None, oc_intentional_exclusion = None,
      oc_backend_limited = None, oc_coverage_note = None\<rparr>"

definition push_verdict :: "object_coverage \<Rightarrow> coverage_state \<Rightarrow> coverage_state" where
  "push_verdict v st = st\<lparr>ct_objects := ct_objects st @ [v]\<rparr>"

definition tally :: "surface_class \<Rightarrow> bool \<Rightarrow> (surface_class \<times> nat \<times> nat) list \<Rightarrow> (surface_class \<times> nat \<times> nat) list" where
  "tally c is_covered counts =
     map (\<lambda>(k, covered, total). if k = c then (k, if is_covered then Suc covered else covered, Suc total) else (k, covered, total)) counts"

definition count_object :: "surface_object \<Rightarrow> bool \<Rightarrow> string option \<Rightarrow> coverage_state \<Rightarrow> coverage_state" where
  "count_object o1 is_covered note st =
     push_verdict
       ((verdict o1 is_covered)\<lparr>oc_suggested_permission := (if is_covered then None else suggest_permission_with_grants o1),
                                oc_coverage_note := note\<rparr>)
       (st\<lparr>ct_counts := tally (so_class o1) is_covered (ct_counts st)\<rparr>)"

definition cover_config :: "covered_set \<Rightarrow> surface_object \<Rightarrow> coverage_state \<Rightarrow> coverage_state" where
  "cover_config cs o1 st =
     (case config_grant_cover (so_key o1) (cv_file_grants cs) of
        Some g \<Rightarrow>
          if grant_shape_enforceable g then count_object o1 True (Some (grant_coverage_note g)) st
          else push_verdict ((verdict o1 False)\<lparr>oc_backend_limited :=
                 Some (''declared '' @ shape_word (rfg_shape g) @ '' grant; requires '' @ grant_backend g)\<rparr>) st
      | None \<Rightarrow>
          if backend_limited_config (so_key o1)
          then push_verdict ((verdict o1 False)\<lparr>oc_backend_limited :=
                 Some ''single file in non-grantable parent; requires per-file-capable backend''\<rparr>) st
          else count_object o1 False None st)"

definition cover_object :: "bool \<Rightarrow> covered_set \<Rightarrow> surface_object \<Rightarrow> coverage_state \<Rightarrow> coverage_state" where
  "cover_object include_low cs o1 st =
     (if so_class o1 = Setuid
      then st\<lparr>ct_setuid := ct_setuid st @ [o1],
              ct_anomalies := (if so_provenance o1 = Orphan then ct_anomalies st @ [o1] else ct_anomalies st)\<rparr>
      else
        (let st1 = (if so_class o1 = CapFile \<and> so_provenance o1 = Orphan
                    then st\<lparr>ct_anomalies := ct_anomalies st @ [o1]\<rparr> else st) in
         if so_class o1 = Config \<and> \<not> include_low \<and> \<not> config_in_scope (so_key o1) (cv_file_grants cs) then st1
         else case intentional_exclusion o1 of
                Some reason \<Rightarrow> push_verdict ((verdict o1 False)\<lparr>oc_intentional_exclusion := Some reason\<rparr>) st1
              | None \<Rightarrow>
                  if so_class o1 = Config then cover_config cs o1 st1
                  else count_object o1 (object_covered o1 cs) None st1))"

definition weighted_overall :: "class_coverage list \<Rightarrow> percentage" where
  "weighted_overall by_class =
     (let covered = sum_list (map cc_covered by_class); total = sum_list (map cc_total by_class) in
      if total = 0 then Hundred else Quotient covered total)"

definition coverage_start :: coverage_state where
  "coverage_start =
     \<lparr>ct_objects = [], ct_setuid = [], ct_anomalies = [],
      ct_counts = [(SudoBin, 0, 0), (Config, 0, 0), (Unit, 0, 0), (Group, 0, 0), (CapFile, 0, 0)]\<rparr>"

definition coverage_scoped ::
    "(u64 \<Rightarrow> string) \<Rightarrow> surface_object list \<Rightarrow> catalog_source \<Rightarrow> os_target \<Rightarrow> resolved_role list \<Rightarrow> coverage_ctx \<Rightarrow> bool
     \<Rightarrow> catalog_error + coverage_report" where
  "coverage_scoped show_f64 surface cat os roles ctx include_low =
     try_bind (build_covered_set show_f64 cat os roles ctx) (\<lambda>(cs, warnings).
       let st = fold (cover_object include_low cs) surface coverage_start;
           by_class = map (\<lambda>(c, covered, total). \<lparr>cc_class = c, cc_covered = covered, cc_total = total\<rparr>)
             (filter (\<lambda>(c, _, _). is_grant_class c) (ct_counts st)) in
       Ok \<lparr>cr_by_class = by_class, cr_objects = ct_objects st, cr_setuid_inventory = ct_setuid st,
           cr_anomalies = ct_anomalies st, cr_overall_pct = weighted_overall by_class,
           cr_catalog_version = cx_catalog_version ctx, cr_os_target = last (layer_names os),
           cr_catalog_warnings = warnings, cr_scan_warnings = []\<rparr>)"

definition coverage ::
    "(u64 \<Rightarrow> string) \<Rightarrow> surface_object list \<Rightarrow> catalog_source \<Rightarrow> os_target \<Rightarrow> resolved_role list \<Rightarrow> coverage_ctx
     \<Rightarrow> catalog_error + coverage_report" where
  "coverage show_f64 surface cat os roles ctx = coverage_scoped show_f64 surface cat os roles ctx False"

subsection \<open>The reverse lookup\<close>

datatype grant_target = TargetAccount string | TargetGroup string

definition target_group :: "grant_target \<Rightarrow> string option" where
  "target_group t = (case t of TargetGroup g \<Rightarrow> Some g | TargetAccount _ \<Rightarrow> None)"

record grant_source =
  gs_id :: string
  gs_target :: grant_target
  gs_risk :: "risk option"
  gs_sudo :: "string list"
  gs_file_grants :: "resolved_file_grant list"

datatype grant_kind = KindSudo | KindFile

record grant_match =
  gm_permission :: string
  gm_target :: grant_target
  gm_kind :: grant_kind
  gm_detail :: string
  gm_access :: "access option"
  gm_recursive :: "bool option"
  gm_backend :: "string option"
  gm_risk :: "risk option"

definition sudo_match :: "grant_source \<Rightarrow> string \<Rightarrow> grant_match" where
  "sudo_match src cmd =
     \<lparr>gm_permission = gs_id src, gm_target = gs_target src, gm_kind = KindSudo, gm_detail = cmd, gm_access = None,
      gm_recursive = None, gm_backend = None, gm_risk = gs_risk src\<rparr>"

definition file_match :: "grant_source \<Rightarrow> resolved_file_grant \<Rightarrow> grant_match" where
  "file_match src g =
     \<lparr>gm_permission = gs_id src, gm_target = gs_target src, gm_kind = KindFile, gm_detail = rfg_path g,
      gm_access = Some (rfg_access g), gm_recursive = Some (rfg_recursive g), gm_backend = Some (grant_backend g),
      gm_risk = gs_risk src\<rparr>"

definition which_grants :: "string \<Rightarrow> grant_source list \<Rightarrow> grant_match list" where
  "which_grants arg sources =
     (let arg_bin = unwrap_or (sudo_binary_token arg) arg in
      concat (map (\<lambda>src.
        map (sudo_match src) (filter (\<lambda>cmd. sudo_binary_token cmd = Some arg_bin) (gs_sudo src))
        @ map (file_match src) (filter (\<lambda>g. grant_covers_path g arg) (gs_file_grants src))) sources))"


subsection \<open>What is granted, declaratively\<close>








subsection \<open>Folding grants\<close>





lemma push_unique_grant_covers:
  "(\<exists>e \<in> set (push_unique_grant g gs). grant_covers_path e p) \<longleftrightarrow> grant_covers_path g p \<or> (\<exists>e \<in> set gs. grant_covers_path e p)"
proof (induction gs)
  case (Cons e es)
  then show ?case by (cases "rfg_path e = rfg_path g") (auto simp: Let_def grant_covers_path_def)
qed simp

lemma fold_push_unique_covers:
  "(\<exists>e \<in> set (fold push_unique_grant xs gs). grant_covers_path e p) \<longleftrightarrow> (\<exists>e \<in> set xs \<union> set gs. grant_covers_path e p)"
  by (induction xs arbitrary: gs) (simp_all add: bex_Un push_unique_grant_covers disj_ac)

lemma choose_stronger_cover_cases: "choose_stronger_cover a b = a \<or> choose_stronger_cover a b = b"
  by (simp add: choose_stronger_cover_def)

lemma config_grant_cover_fold:
  "(case best of Some b \<Rightarrow> grant_covers_path b p | None \<Rightarrow> True) \<Longrightarrow>
   (case fold (\<lambda>g best. if grant_covers_path g p
       then Some (case best of None \<Rightarrow> g | Some prev \<Rightarrow> choose_stronger_cover prev g) else best) gs best of
      Some b \<Rightarrow> grant_covers_path b p \<and> b \<in> set gs \<union> set_option best
    | None \<Rightarrow> best = None \<and> (\<forall>g \<in> set gs. \<not> grant_covers_path g p))"
proof (induction gs arbitrary: best)
  case Nil
  then show ?case by (auto split: option.splits)
next
  case (Cons g gs)
  let ?best = "if grant_covers_path g p then Some (case best of None \<Rightarrow> g | Some prev \<Rightarrow> choose_stronger_cover prev g) else best"
  have "case ?best of Some b \<Rightarrow> grant_covers_path b p | None \<Rightarrow> True"
    using Cons.prems choose_stronger_cover_cases by (auto split: option.splits) metis
  from Cons.IH [OF this] have ih: "case fold (\<lambda>g best. if grant_covers_path g p
       then Some (case best of None \<Rightarrow> g | Some prev \<Rightarrow> choose_stronger_cover prev g) else best) gs ?best of
      Some b \<Rightarrow> grant_covers_path b p \<and> b \<in> set gs \<union> set_option ?best
    | None \<Rightarrow> ?best = None \<and> (\<forall>g \<in> set gs. \<not> grant_covers_path g p)" .
  have "set_option ?best \<subseteq> insert g (set_option best)"
    using choose_stronger_cover_cases by (auto split: option.splits if_splits) metis
  then show ?case using ih by (auto split: option.splits if_splits)
qed

lemma config_grant_cover_Some: "config_grant_cover p gs = Some g \<Longrightarrow> g \<in> set gs \<and> grant_covers_path g p"
  using config_grant_cover_fold [where best = None and p = p and gs = gs] by (simp add: config_grant_cover_def)

lemma config_grant_cover_None: "config_grant_cover p gs = None \<longleftrightarrow> \<not> (\<exists>g \<in> set gs. grant_covers_path g p)"
  using config_grant_cover_fold [where best = None and p = p and gs = gs] config_grant_cover_Some [of p gs]
  by (cases "config_grant_cover p gs") (auto simp: config_grant_cover_def)

text \<open>
  The reverse lookup answers exactly where coverage matches.  A query has a file match exactly
  when the fold of all grants of the sources covers the path, and a sudo match exactly when some
  command of the sources starts with the binary of the query.
\<close>

theorem which_grants_inverse:
  "((\<exists>m \<in> set (which_grants arg sources). gm_kind m = KindFile) \<longleftrightarrow>
      config_grant_cover arg (fold push_unique_grant (concat (map gs_file_grants sources)) []) \<noteq> None)
   \<and> ((\<exists>m \<in> set (which_grants arg sources). gm_kind m = KindSudo) \<longleftrightarrow>
      unwrap_or (sudo_binary_token arg) arg \<in> (\<Union>src \<in> set sources. \<Union>cmd \<in> set (gs_sudo src). set_option (sudo_binary_token cmd)))"
proof -
  have "(\<exists>m \<in> set (which_grants arg sources). gm_kind m = KindFile) \<longleftrightarrow>
      (\<exists>src \<in> set sources. \<exists>g \<in> set (gs_file_grants src). grant_covers_path g arg)"
    by (simp add: which_grants_def Let_def bex_Un sudo_match_def file_match_def) blast
  moreover have "(\<exists>m \<in> set (which_grants arg sources). gm_kind m = KindSudo) \<longleftrightarrow>
      (\<exists>src \<in> set sources. \<exists>cmd \<in> set (gs_sudo src). sudo_binary_token cmd = Some (unwrap_or (sudo_binary_token arg) arg))"
    by (simp add: which_grants_def Let_def bex_Un sudo_match_def file_match_def) blast
  ultimately show ?thesis unfolding config_grant_cover_None fold_push_unique_covers by simp
qed


subsection \<open>Only a concrete grant covers\<close>













text \<open>What one object adds to the verdicts, whatever was there.\<close>

definition verdicts :: "bool \<Rightarrow> covered_set \<Rightarrow> surface_object \<Rightarrow> object_coverage list" where
  "verdicts include_low cs o1 = ct_objects (cover_object include_low cs o1 (coverage_start\<lparr>ct_objects := []\<rparr>))"

definition counted :: "surface_class \<Rightarrow> object_coverage \<Rightarrow> bool" where
  "counted c v \<longleftrightarrow> so_class (oc_object v) = c \<and> oc_intentional_exclusion v = None \<and> oc_backend_limited v = None"

lemma cover_object_verdicts:
  "ct_objects (cover_object include_low cs o1 st) = ct_objects st @ verdicts include_low cs o1"
  by (auto simp: verdicts_def cover_object_def cover_config_def count_object_def push_verdict_def Let_def split: option.splits)

lemma fold_cover_verdicts:
  "ct_objects (fold (cover_object include_low cs) os1 st) = ct_objects st @ concat (map (verdicts include_low cs) os1)"
  by (induction os1 arbitrary: st) (simp_all add: cover_object_verdicts)

lemma verdicts_about:
  "map oc_object (verdicts include_low cs o1) =
     (if so_class o1 = Setuid \<or> so_class o1 = Config \<and> \<not> include_low \<and> \<not> config_in_scope (so_key o1) (cv_file_grants cs) then [] else [o1])"
  by (auto simp: verdicts_def cover_object_def cover_config_def count_object_def push_verdict_def verdict_def coverage_start_def Let_def
      split: option.splits)



subsection \<open>What the metric counts\<close>

definition class_count :: "(surface_class \<times> nat \<times> nat) list \<Rightarrow> object_coverage list \<Rightarrow> bool" where
  "class_count counts vs \<longleftrightarrow> map fst counts = [SudoBin, Config, Unit, Group, CapFile]
     \<and> list_all (\<lambda>(c, covered, total). covered = length (filter (\<lambda>v. counted c v \<and> oc_covered v) vs)
         \<and> total = length (filter (counted c) vs)) counts"

lemma tally_count:
  assumes "class_count counts vs" and "\<And>k. counted k v \<longleftrightarrow> c = k"
  shows "class_count (tally c (oc_covered v) counts) (vs @ [v])"
  using assms by (auto simp: class_count_def tally_def list_all_iff comp_def split_beta)

lemma uncounted_count:
  assumes "class_count counts vs" and "\<And>k. \<not> counted k v"
  shows "class_count counts (vs @ [v])"
  using assms by (auto simp: class_count_def list_all_iff)

lemma cover_object_count:
  assumes "class_count (ct_counts st) (ct_objects st)"
  shows "class_count (ct_counts (cover_object include_low cs o1 st)) (ct_objects (cover_object include_low cs o1 st))"
proof -
  have count: "class_count (ct_counts (count_object o1 b hint st')) (ct_objects (count_object o1 b hint st'))"
    if "class_count (ct_counts st') (ct_objects st')" for b hint st'
    using tally_count [OF that, of "(verdict o1 b)\<lparr>oc_suggested_permission := (if b then None else suggest_permission_with_grants o1),
        oc_coverage_note := hint\<rparr>" "so_class o1"]
    by (auto simp: count_object_def push_verdict_def counted_def verdict_def)
  have push: "class_count (ct_counts (push_verdict v st')) (ct_objects (push_verdict v st'))"
    if "class_count (ct_counts st') (ct_objects st')" "oc_intentional_exclusion v \<noteq> None \<or> oc_backend_limited v \<noteq> None" for v st'
    using uncounted_count [OF that(1), of v] that(2) by (auto simp: push_verdict_def counted_def)
  have config: "class_count (ct_counts (cover_config cs o1 st')) (ct_objects (cover_config cs o1 st'))"
    if "class_count (ct_counts st') (ct_objects st')" for st'
    using count [OF that] push [OF that] by (auto simp: cover_config_def split: option.splits)
  define st1 where "st1 = (if so_class o1 = CapFile \<and> so_provenance o1 = Orphan then st\<lparr>ct_anomalies := ct_anomalies st @ [o1]\<rparr> else st)"
  have "class_count (ct_counts st1) (ct_objects st1)" using assms by (simp add: st1_def)
  then show ?thesis using assms count [of st1] push [of st1] config [of st1]
    unfolding cover_object_def st1_def [symmetric] Let_def by (auto split: option.splits)
qed


lemma fold_cover_count:
  "class_count (ct_counts st) (ct_objects st) \<Longrightarrow>
   class_count (ct_counts (fold (cover_object include_low cs) os1 st)) (ct_objects (fold (cover_object include_low cs) os1 st))"
  by (induction os1 arbitrary: st) (simp_all add: cover_object_count)

text \<open>Five classes partition what is counted.\<close>

lemma sum_of_classes:
  assumes "class_count counts vs" and "\<And>v. v \<in> set vs \<Longrightarrow> so_class (oc_object v) \<noteq> Setuid"
  shows "sum_list (map (fst \<circ> snd) counts) = length (filter (\<lambda>v. counted (so_class (oc_object v)) v \<and> oc_covered v) vs)"
    and "sum_list (map (snd \<circ> snd) counts) = length (filter (\<lambda>v. counted (so_class (oc_object v)) v) vs)"
proof -
  have keys: "map fst counts = [SudoBin, Config, Unit, Group, CapFile]" using assms(1) by (simp add: class_count_def)
  then obtain a b c d e where counts: "counts = [(SudoBin, a), (Config, b), (Unit, c), (Group, d), (CapFile, e)]"
    by (auto simp: map_eq_Cons_conv)
  have split: "length (filter (\<lambda>v. counted (so_class (oc_object v)) v \<and> P v) ws) =
      length (filter (\<lambda>v. counted SudoBin v \<and> P v) ws) + length (filter (\<lambda>v. counted Config v \<and> P v) ws)
      + length (filter (\<lambda>v. counted Unit v \<and> P v) ws) + length (filter (\<lambda>v. counted Group v \<and> P v) ws)
      + length (filter (\<lambda>v. counted CapFile v \<and> P v) ws)"
    if "\<And>v. v \<in> set ws \<Longrightarrow> so_class (oc_object v) \<noteq> Setuid" for P ws
    using that
  proof (induction ws)
    case (Cons v ws)
    then show ?case by (cases "so_class (oc_object v)") (auto simp: counted_def)
  qed simp
  show "sum_list (map (fst \<circ> snd) counts) = length (filter (\<lambda>v. counted (so_class (oc_object v)) v \<and> oc_covered v) vs)"
    using assms(1) split [OF assms(2), of vs oc_covered] by (auto simp: counts class_count_def)
  show "sum_list (map (snd \<circ> snd) counts) = length (filter (\<lambda>v. counted (so_class (oc_object v)) v) vs)"
    using assms(1) split [OF assms(2), of vs "\<lambda>_. True"] by (auto simp: counts class_count_def)
qed

lemma fold_cover_inventory:
  "ct_setuid (fold (cover_object include_low cs) os1 st) = ct_setuid st @ filter (\<lambda>o1. so_class o1 = Setuid) os1
   \<and> ct_anomalies (fold (cover_object include_low cs) os1 st) =
     ct_anomalies st @ filter (\<lambda>o1. so_class o1 \<in> {Setuid, CapFile} \<and> so_provenance o1 = Orphan) os1"
proof (induction os1 arbitrary: st)
  case (Cons o1 os1)
  have same: "ct_setuid (count_object o1 b n s) = ct_setuid s" "ct_anomalies (count_object o1 b n s) = ct_anomalies s"
    "ct_setuid (push_verdict v s) = ct_setuid s" "ct_anomalies (push_verdict v s) = ct_anomalies s"
    "ct_setuid (cover_config cs o1 s) = ct_setuid s" "ct_anomalies (cover_config cs o1 s) = ct_anomalies s" for b n s v
    by (auto simp: cover_config_def count_object_def push_verdict_def split: option.splits)
  have "ct_setuid (cover_object include_low cs o1 st) = ct_setuid st @ (if so_class o1 = Setuid then [o1] else [])"
    "ct_anomalies (cover_object include_low cs o1 st) =
       ct_anomalies st @ (if so_class o1 \<in> {Setuid, CapFile} \<and> so_provenance o1 = Orphan then [o1] else [])"
    by (auto simp: cover_object_def same Let_def split: option.splits)
  then show ?case using Cons.IH [of "cover_object include_low cs o1 st"] by simp
qed simp

text \<open>
  C38: The metric counts what it says.  The overall percentage is the quotient of the covered verdicts
  and of all verdicts that no policy excludes and no backend limits, one hundred when there are none;
  every object of a grant class has exactly one verdict, in order, but for configuration paths that
  are neither curated nor granted; the setuid files are inventoried apart, and the anomalies are
  exactly the setuid and capability files without an owner.
\<close>

theorem coverage_metric_exact:
  assumes "coverage_scoped show_f64 surface cat os roles ctx include_low = Ok r"
  shows "(let metric = filter (\<lambda>v. oc_intentional_exclusion v = None \<and> oc_backend_limited v = None) (cr_objects r) in
      cr_overall_pct r = (if metric = [] then Hundred else Quotient (length (filter oc_covered metric)) (length metric)))
    \<and> (\<exists>cs ws. build_covered_set show_f64 cat os roles ctx = Ok (cs, ws)
        \<and> map oc_object (cr_objects r) = filter (\<lambda>o1. so_class o1 \<noteq> Setuid
            \<and> (so_class o1 = Config \<and> \<not> include_low \<longrightarrow> config_in_scope (so_key o1) (cv_file_grants cs))) surface)
    \<and> cr_setuid_inventory r = filter (\<lambda>o1. so_class o1 = Setuid) surface
    \<and> cr_anomalies r = filter (\<lambda>o1. so_class o1 \<in> {Setuid, CapFile} \<and> so_provenance o1 = Orphan) surface"
proof -
  from assms obtain cs ws where b: "build_covered_set show_f64 cat os roles ctx = Ok (cs, ws)"
    by (auto simp: coverage_scoped_def try_bind_Ok_iff)
  let ?st = "fold (cover_object include_low cs) surface coverage_start"
  have r: "cr_objects r = ct_objects ?st" "cr_setuid_inventory r = ct_setuid ?st" "cr_anomalies r = ct_anomalies ?st"
    "cr_overall_pct r = weighted_overall (map (\<lambda>(c, covered, total). \<lparr>cc_class = c, cc_covered = covered, cc_total = total\<rparr>)
      (filter (\<lambda>(c, _, _). is_grant_class c) (ct_counts ?st)))"
    using assms b by (auto simp: coverage_scoped_def Let_def)
  have start: "ct_objects coverage_start = []" "ct_setuid coverage_start = []" "ct_anomalies coverage_start = []"
    by (simp_all add: coverage_start_def)
  have cnt: "class_count (ct_counts ?st) (ct_objects ?st)"
    by (rule fold_cover_count) (simp add: coverage_start_def class_count_def)
  have objs: "map oc_object (ct_objects ?st) = filter (\<lambda>o1. so_class o1 \<noteq> Setuid \<and>
      (so_class o1 = Config \<and> \<not> include_low \<longrightarrow> config_in_scope (so_key o1) (cv_file_grants cs))) surface"
    unfolding fold_cover_verdicts start map_append map_concat
    by (induction surface) (auto simp: verdicts_about)
  have no_setuid: "so_class (oc_object v) \<noteq> Setuid" if "v \<in> set (ct_objects ?st)" for v
  proof -
    have "oc_object v \<in> set (map oc_object (ct_objects ?st))" using that by simp
    then show ?thesis unfolding objs by simp
  qed
  have all: "filter (\<lambda>(c, _, _). is_grant_class c) (ct_counts ?st) = ct_counts ?st"
  proof -
    have "set (map fst (ct_counts ?st)) = {SudoBin, Config, Unit, Group, CapFile}"
      using cnt unfolding class_count_def by (metis list.set(1) list.set(2))
    then have "c \<noteq> Setuid" if "(c, x) \<in> set (ct_counts ?st)" for c x using that by force
    then show ?thesis by (auto simp: filter_id_conv is_grant_class_def)
  qed
  let ?m = "filter (\<lambda>v. oc_intentional_exclusion v = None \<and> oc_backend_limited v = None) (ct_objects ?st)"
  have counted: "counted (so_class (oc_object v)) v \<longleftrightarrow> oc_intentional_exclusion v = None \<and> oc_backend_limited v = None" for v
    by (simp add: counted_def)
  have sums: "sum_list (map (fst \<circ> snd) (ct_counts ?st)) = length (filter oc_covered ?m)"
    "sum_list (map (snd \<circ> snd) (ct_counts ?st)) = length ?m"
    using sum_of_classes [OF cnt no_setuid] by (simp_all add: counted conj_ac)
  have "cr_overall_pct r = (if ?m = [] then Hundred else Quotient (length (filter oc_covered ?m)) (length ?m))"
    unfolding r(4) all weighted_overall_def Let_def using sums by (simp add: comp_def split_beta)
  moreover have "\<exists>cs ws. build_covered_set show_f64 cat os roles ctx = Ok (cs, ws)
      \<and> map oc_object (cr_objects r) = filter (\<lambda>o1. so_class o1 \<noteq> Setuid
          \<and> (so_class o1 = Config \<and> \<not> include_low \<longrightarrow> config_in_scope (so_key o1) (cv_file_grants cs))) surface"
    using b objs by (intro exI [of _ cs] exI [of _ ws]) (simp add: r)
  ultimately show ?thesis
    using fold_cover_inventory [of include_low cs surface coverage_start] by (simp add: r Let_def start)
qed


subsection \<open>A surface\<close>

text \<open>The catalog of \<open>sample_fs\<close> grants \<open>tail\<close> and the group \<open>adm\<close>; a role edits \<open>/etc/ssh\<close>.\<close>

definition sample_object :: "surface_class \<Rightarrow> string \<Rightarrow> surface_object" where
  "sample_object c k = \<lparr>so_class = c, so_key = k, so_provenance = Orphan, so_detail = []\<rparr>"

definition sample_surface :: "surface_object list" where
  "sample_surface =
     [sample_object SudoBin ''/usr/bin/tail'', sample_object Group ''adm'', sample_object Config ''/etc/ssh/sshd_config'',
      sample_object CapFile ''/usr/bin/ping'', sample_object Setuid ''/usr/bin/passwd'']"

definition sample_role :: resolved_role where
  "sample_role =
     \<lparr>rr_sudo = [], rr_groups = [], rr_file_grants =
        [\<lparr>rfg_path = ''/etc/ssh'', rfg_access = RW, rfg_recursive = True, rfg_shape = Dir, rfg_sources = []\<rparr>]\<rparr>"

definition sample_coverage :: "catalog_error + coverage_report" where
  "sample_coverage =
     coverage_scoped (\<lambda>_. []) sample_surface (live_catalog sample_fs [''/v'']) sample_os [sample_role]
       \<lparr>cx_strict = True, cx_catalog_version = None, cx_bound_grant_groups = []\<rparr> False"

lemma sample_coverage_value:
  obtains r where "sample_coverage = Ok r"
    "map (\<lambda>v. (so_key (oc_object v), oc_covered v)) (cr_objects r) =
       [(''/usr/bin/tail'', True), (''adm'', True), (''/etc/ssh/sshd_config'', True),
        (''/usr/bin/ping'', False)]"
    "cr_overall_pct r = Quotient 3 4"
proof -
  have "(case sample_coverage of
      Ok r \<Rightarrow> Some (map (\<lambda>v. (so_key (oc_object v), oc_covered v)) (cr_objects r), cr_overall_pct r) | Err _ \<Rightarrow> None) =
      Some ([(''/usr/bin/tail'', True), (''adm'', True), (''/etc/ssh/sshd_config'', True), (''/usr/bin/ping'', False)], Quotient 3 4)"
    by code_simp
  then show ?thesis using that by (auto split: sum.splits)
qed


theorem coverage_metric_exact_witness:
  "\<exists>r. sample_coverage = Ok r \<and> cr_overall_pct r = Quotient 3 4
     \<and> cr_setuid_inventory r = [sample_object Setuid ''/usr/bin/passwd'']
     \<and> cr_anomalies r = [sample_object CapFile ''/usr/bin/ping'', sample_object Setuid ''/usr/bin/passwd'']"
proof -
  obtain r where r: "sample_coverage = Ok r" "cr_overall_pct r = Quotient 3 4" by (rule sample_coverage_value)
  note m = coverage_metric_exact [OF r(1) [unfolded sample_coverage_def], THEN conjunct2, THEN conjunct2]
  have "cr_setuid_inventory r = [sample_object Setuid ''/usr/bin/passwd'']"
    "cr_anomalies r = [sample_object CapFile ''/usr/bin/ping'', sample_object Setuid ''/usr/bin/passwd'']"
    using m by (simp_all add: sample_surface_def sample_object_def)
  then show ?thesis using r by (intro exI conjI)
qed

end
