(* ===== verification/Coverage_Scan.thy ===== *)
theory Coverage_Scan
  imports Coverage Exposure_Access
begin

text \<open>
  \<^verbatim>\<open>coverage.rs\<close>, the live scanner: the parsers of the tools' output, the classification of a tool run,
  and the scans of binaries, configuration paths, units, groups and capability files with their
  package owners.  The host is the argument \<open>scan_host\<close>; the walk for setuid files and the composition of all scans are not modelled.

  The lemmas show that a tool that is present and fails is never taken for an empty class, and that
  only a line of the package manager takes an object off the list of orphans.
\<close>

subsection \<open>Runs of a tool\<close>

text \<open>How a child process ended: it did not start, was given up, or left a status and its output.\<close>

datatype process_end =
  EndNotFound
| EndSpawnFailed string
| EndTimeout
| EndWaitFailed string
| EndReadFailed string
| EndReaderPanicked
| EndExited "nat option" string

datatype capture_outcome = CaptureOk string | CaptureAbsent | CaptureDegraded capture_failure

definition SCAN_TIMEOUT :: nat where "SCAN_TIMEOUT = 60"

definition run_capture_inner :: "process_end \<Rightarrow> bool \<Rightarrow> nat \<Rightarrow> capture_outcome" where
  "run_capture_inner ended accept_partial timeout =
     (case ended of
        EndNotFound \<Rightarrow> CaptureAbsent
      | EndSpawnFailed e \<Rightarrow> CaptureDegraded (CapSpawnFailed e)
      | EndTimeout \<Rightarrow> CaptureDegraded (CapTimedOut timeout)
      | EndWaitFailed e \<Rightarrow> CaptureDegraded (CapWaitFailed e)
      | EndReadFailed e \<Rightarrow> CaptureDegraded (CapReadFailed e)
      | EndReaderPanicked \<Rightarrow> CaptureDegraded CapReaderPanicked
      | EndExited code bytes \<Rightarrow>
          if \<not> utf8_valid bytes then CaptureDegraded CapNotUtf8
          else if code = Some 0 then CaptureOk bytes
          else if accept_partial \<and> bytes \<noteq> [] then CaptureOk bytes
          else CaptureDegraded (CapNonZeroExit code))"

record scan_host =
  sh_run :: "string \<Rightarrow> string list \<Rightarrow> process_end"
  sh_read_dir :: "path \<Rightarrow> io_error + (io_error + string) list"
  sh_is_dir :: "path \<Rightarrow> bool"
  sh_canonicalize :: "path \<Rightarrow> io_error + path"
  sh_mode :: "path \<Rightarrow> io_error + u32"
  sh_open :: "path \<Rightarrow> io_error + file_view"

definition run_capture :: "scan_host \<Rightarrow> string \<Rightarrow> string list \<Rightarrow> bool \<Rightarrow> capture_outcome" where
  "run_capture h program args accept_partial = run_capture_inner (sh_run h program args) accept_partial SCAN_TIMEOUT"

subsection \<open>Parsers\<close>

fun last_ws :: "string \<Rightarrow> nat option" where
  "last_ws [] = None"
| "last_ws (c # cs) = (case last_ws cs of Some i \<Rightarrow> Some (Suc i) | None \<Rightarrow> if ws_len (c # cs) > 0 then Some 0 else None)"

text \<open>\<open>rsplit_once(char::is_whitespace)\<close>, and \<open>rsplit_once\<close> at a string.\<close>

definition rsplit_ws :: "string \<Rightarrow> (string \<times> string) option" where
  "rsplit_ws s = (case last_ws s of Some i \<Rightarrow> Some (take i s, drop (i + ws_len (drop i s)) s) | None \<Rightarrow> None)"

fun last_find :: "string \<Rightarrow> string \<Rightarrow> nat option" where
  "last_find p [] = None"
| "last_find p (c # cs) =
     (case last_find p cs of Some i \<Rightarrow> Some (Suc i) | None \<Rightarrow> if starts_with (c # cs) p then Some 0 else None)"

definition rsplit_once_str :: "string \<Rightarrow> string \<Rightarrow> (string \<times> string) option" where
  "rsplit_once_str p s = (case last_find p s of Some i \<Rightarrow> Some (take i s, drop (i + length p) s) | None \<Rightarrow> None)"

definition CONFFILE_MARKERS :: "string list" where
  "CONFFILE_MARKERS = [''obsolete'', ''newconffile'', ''remove-on-upgrade'', ''remove'']"

definition conffile_of_line :: "string \<Rightarrow> string option" where
  "conffile_of_line raw =
     (let line = trim raw in
      if line = [] then None
      else
        (let rest = (case rsplit_ws line of
                Some (head, lst) \<Rightarrow> if lst \<in> set CONFFILE_MARKERS then trim_end head else line
              | None \<Rightarrow> line) in
         case rsplit_ws rest of
           None \<Rightarrow> None
         | Some (p, _) \<Rightarrow> if starts_with (trim_end p) ''/etc/'' then Some (trim_end p) else None))"

definition parse_dpkg_conffiles :: "string \<Rightarrow> string list" where
  "parse_dpkg_conffiles stdout = extend_unique (List.map_filter conffile_of_line (str_lines stdout)) []"

definition unit_of_line :: "string \<Rightarrow> string option" where
  "unit_of_line raw =
     (let line = trim raw in
      if line = [] then None
      else case first_opt (split_whitespace line) of
             Some nm \<Rightarrow> if ends_with nm ''.service'' then Some nm else None
           | None \<Rightarrow> None)"

definition parse_systemctl_units :: "string \<Rightarrow> string list" where
  "parse_systemctl_units stdout = extend_unique (List.map_filter unit_of_line (str_lines stdout)) []"

definition group_of_line :: "string \<Rightarrow> string option" where
  "group_of_line raw =
     (let line = trim_end raw in
      if line = [] \<or> starts_with line ''#'' then None
      else (let nm = hd (split_on CHR '':'' line) in if nm = [] then None else Some nm))"

definition parse_etc_group :: "string \<Rightarrow> string list" where
  "parse_etc_group text = extend_unique (List.map_filter group_of_line (str_lines text)) []"

definition capability_of_line :: "string \<Rightarrow> (string \<times> string) option" where
  "capability_of_line raw =
     (let line = trim raw in
      if line = [] \<or> \<not> starts_with line ''/'' then None
      else case rsplit_ws line of
             None \<Rightarrow> None
           | Some (head, caps) \<Rightarrow>
               (let p = trim_end (trim_end_matches CHR ''='' (trim_end head)) in
                if p = [] \<or> \<not> starts_with p ''/'' then None else Some (p, trim caps)))"

definition parse_getcap :: "string \<Rightarrow> (string \<times> string) list" where
  "parse_getcap stdout = List.map_filter capability_of_line (str_lines stdout)"

definition owner_of_line :: "string \<Rightarrow> (string \<times> string) option" where
  "owner_of_line raw =
     (let line = trim raw in
      if line = [] then None
      else case rsplit_once_str '': '' line of
             None \<Rightarrow> None
           | Some (pkg, p) \<Rightarrow> if trim p = [] \<or> \<not> starts_with (trim p) ''/'' then None else Some (trim p, trim pkg))"

definition parse_dpkg_search :: "string \<Rightarrow> (string \<times> string) list" where
  "parse_dpkg_search stdout = List.map_filter owner_of_line (str_lines stdout)"

definition ADDON_PREFIXES :: "string list" where
  "ADDON_PREFIXES = [''docker'', ''containerd'', ''kubelet'', ''nvidia'']"

definition classify_owner :: "string \<Rightarrow> surface_provenance" where
  "classify_owner pkg =
     (let first = trim (hd (split_on CHR '','' pkg)) in
      if list_ex (starts_with first) ADDON_PREFIXES then Addon first else Vendor)"

subsection \<open>Scans\<close>

record live_surface =
  lv_root :: path
  lv_sudo_bin_dirs :: "path list"

definition live_system :: live_surface where
  "live_system = \<lparr>lv_root = ''/'', lv_sudo_bin_dirs = [''/usr/sbin'', ''/sbin'']\<rparr>"

definition CAPFILE_SCAN_DIRS :: "string list" where
  "CAPFILE_SCAN_DIRS =
     [''/usr/bin'', ''/usr/sbin'', ''/bin'', ''/sbin'', ''/usr/local/bin'', ''/usr/local/sbin'', ''/usr/lib'', ''/usr/libexec'']"

definition CONFIG_DROPIN_DIRS :: "string list" where
  "CONFIG_DROPIN_DIRS = [''/etc/sudoers.d'', ''/etc/sysctl.d'', ''/etc/ssh/sshd_config.d'', ''/etc/pam.d'', ''/etc/security/limits.d'']"

definition found :: "surface_class \<Rightarrow> string \<Rightarrow> string \<Rightarrow> surface_object" where
  "found c k detail = \<lparr>so_class = c, so_key = k, so_provenance = Orphan, so_detail = detail\<rparr>"

definition under_root :: "live_surface \<Rightarrow> path \<Rightarrow> path" where
  "under_root lv d = path_join (lv_root lv) (unwrap_or (strip_prefix d ''/'') d)"

definition degraded_class :: "surface_class \<Rightarrow> string \<Rightarrow> capture_failure \<Rightarrow> scan_degraded" where
  "degraded_class c program reason = \<lparr>sd_class = c, sd_program = program, sd_reason = reason\<rparr>"

text \<open>\<open>format!("mode {:04o}", mode & 0o7777)\<close>: four octal digits.\<close>

definition octal4 :: "u32 \<Rightarrow> string" where
  "octal4 mode = (let n = unat mode mod 4096 in concat (map (\<lambda>k. dec (n div 8 ^ k mod 8)) [3, 2, 1, 0]))"

definition mode_detail :: "scan_host \<Rightarrow> path \<Rightarrow> string" where
  "mode_detail h p = (case sh_mode h p of Ok m \<Rightarrow> ''mode '' @ octal4 m | Err _ \<Rightarrow> [])"

text \<open>The keys already seen are those of the objects found so far.\<close>

definition scan_bin_entry :: "scan_host \<Rightarrow> path \<Rightarrow> string \<Rightarrow> surface_object list \<Rightarrow> surface_object list" where
  "scan_bin_entry h dir nm out =
     (let p = path_join dir nm;
          key = utf8_lossy (case sh_canonicalize h p of Ok c \<Rightarrow> c | Err _ \<Rightarrow> p) in
      if key \<in> set (map so_key out) then out else out @ [found SudoBin key (mode_detail h p)])"

definition scan_bin_dir :: "scan_host \<Rightarrow> live_surface \<Rightarrow> path \<Rightarrow> surface_object list \<times> bool \<Rightarrow> surface_object list \<times> bool" where
  "scan_bin_dir h lv d st =
     (let full = under_root lv d in
      case sh_read_dir h full of
        Err _ \<Rightarrow> st
      | Ok entries \<Rightarrow>
          (fold (scan_bin_entry h full) (List.map_filter (\<lambda>e. case e of Ok nm \<Rightarrow> Some nm | Err _ \<Rightarrow> None) entries) (fst st), True))"

text \<open>The error of a scan without any readable directory keeps the root it shows.\<close>

definition scan_sudo_bins :: "scan_host \<Rightarrow> live_surface \<Rightarrow> path + surface_object list" where
  "scan_sudo_bins h lv =
     (case fold (scan_bin_dir h lv) (lv_sudo_bin_dirs lv) ([], False) of
        (out, any_dir) \<Rightarrow> if \<not> any_dir \<and> lv_sudo_bin_dirs lv \<noteq> [] then Err (lv_root lv) else Ok out)"

definition scan_configs :: "scan_host \<Rightarrow> live_surface \<Rightarrow> surface_object list \<times> scan_degraded option" where
  "scan_configs h lv =
     (let run = run_capture h ''dpkg-query'' [''-W'', ''-f=${Conffiles}'' @ newline] False;
          files = (case run of CaptureOk stdout \<Rightarrow> parse_dpkg_conffiles stdout | _ \<Rightarrow> []);
          dirs = filter (\<lambda>d. sh_is_dir h (under_root lv d) \<and> d \<notin> set files) CONFIG_DROPIN_DIRS in
      (map (\<lambda>p. found Config p ''conffile'') files @ map (\<lambda>d. found Config d ''drop-in dir'') dirs,
       case run of CaptureDegraded reason \<Rightarrow> Some (degraded_class Config ''dpkg-query'' reason) | _ \<Rightarrow> None))"

definition scan_units :: "scan_host \<Rightarrow> surface_object list \<times> scan_degraded option" where
  "scan_units h =
     (case run_capture h ''systemctl'' [''list-unit-files'', ''--no-legend'', ''--type=service''] False of
        CaptureOk s \<Rightarrow> (map (\<lambda>nm. found Unit nm ''service'') (parse_systemctl_units s), None)
      | CaptureAbsent \<Rightarrow> ([], None)
      | CaptureDegraded reason \<Rightarrow> ([], Some (degraded_class Unit ''systemctl'' reason)))"

text \<open>The error of an unreadable group file keeps the path and the error it shows.\<close>

definition scan_groups :: "scan_host \<Rightarrow> live_surface \<Rightarrow> (path \<times> io_error) + surface_object list" where
  "scan_groups h lv =
     (let p = path_join (lv_root lv) ''etc/group'' in
      try_bind (map_err (Pair p) (read_capped (sh_open h p) MAX_INPUT_FILE_BYTES)) (\<lambda>text.
        Ok (map (\<lambda>nm. found Group nm ''group'') (parse_etc_group text))))"

definition scan_capfiles :: "scan_host \<Rightarrow> live_surface \<Rightarrow> surface_object list \<times> scan_degraded option" where
  "scan_capfiles h lv =
     (let dirs = map utf8_lossy (filter (sh_is_dir h) (map (under_root lv) CAPFILE_SCAN_DIRS)) in
      if dirs = [] then ([], None)
      else case run_capture h ''getcap'' (''-r'' # dirs) False of
             CaptureOk s \<Rightarrow> (map (\<lambda>(p, caps). found CapFile p caps) (parse_getcap s), None)
           | CaptureAbsent \<Rightarrow> ([], None)
           | CaptureDegraded reason \<Rightarrow> ([], Some (degraded_class CapFile ''getcap'' reason)))"

subsection \<open>Owners\<close>

definition DPKG_SEARCH_CHUNK :: nat where "DPKG_SEARCH_CHUNK = 256"

definition merge_dpkg_owners :: "(string \<times> string) list \<Rightarrow> (string \<rightharpoonup> string) \<Rightarrow> (string \<rightharpoonup> string)" where
  "merge_dpkg_owners pairs acc = fold (\<lambda>(p, pkg) m. if m p = None then m(p \<mapsto> pkg) else m) pairs acc"

definition search_chunk :: "scan_host \<Rightarrow> string list \<Rightarrow> (string \<rightharpoonup> string) \<Rightarrow> (string \<rightharpoonup> string)" where
  "search_chunk h chunk owners =
     (case run_capture h ''dpkg'' (''-S'' # chunk) True of
        CaptureOk s \<Rightarrow> merge_dpkg_owners (parse_dpkg_search s) owners
      | _ \<Rightarrow> owners)"

definition resolve_provenance :: "scan_host \<Rightarrow> surface_object list \<Rightarrow> surface_object list" where
  "resolve_provenance h objects =
     (let paths = map so_key (filter (\<lambda>o1. starts_with (so_key o1) ''/'') objects);
          owners = fold (search_chunk h) (chunks DPKG_SEARCH_CHUNK paths) Map.empty in
      map (\<lambda>o1. case owners (so_key o1) of Some pkg \<Rightarrow> o1\<lparr>so_provenance := classify_owner pkg\<rparr> | None \<Rightarrow> o1) objects)"


subsection \<open>A failing tool is not an empty class\<close>

text \<open>A run that can be trusted: the tool is not installed, or it succeeded with readable output.\<close>

definition trusted_end :: "process_end \<Rightarrow> bool" where
  "trusted_end e \<longleftrightarrow> e = EndNotFound \<or> (\<exists>out. e = EndExited (Some 0) out \<and> utf8_valid out)"

lemma run_capture_trusted:
  "(\<exists>reason. run_capture h program args False = CaptureDegraded reason) \<longleftrightarrow> \<not> trusted_end (sh_run h program args)"
  by (cases "sh_run h program args") (auto simp: run_capture_def run_capture_inner_def trusted_end_def)

lemma degraded_iff:
  "(case run_capture h program args False of CaptureDegraded reason \<Rightarrow> Some (d reason) | _ \<Rightarrow> None) = None
     \<longleftrightarrow> trusted_end (sh_run h program args)"
  using run_capture_trusted [of h program args] by (cases "run_capture h program args False") auto

text \<open>
  A class is reported as degraded exactly when its tool was needed, is installed, and did not end with
  success and readable output: a timeout, a failure to start and truncated output all count.
\<close>

theorem failed_tool_degrades:
  "(snd (scan_units h) = None \<longleftrightarrow> trusted_end (sh_run h ''systemctl'' [''list-unit-files'', ''--no-legend'', ''--type=service'']))
   \<and> (snd (scan_configs h lv) = None \<longleftrightarrow> trusted_end (sh_run h ''dpkg-query'' [''-W'', ''-f=${Conffiles}'' @ newline]))
   \<and> (snd (scan_capfiles h lv) = None \<longleftrightarrow>
        (let dirs = map utf8_lossy (filter (sh_is_dir h) (map (under_root lv) CAPFILE_SCAN_DIRS)) in
         dirs = [] \<or> trusted_end (sh_run h ''getcap'' (''-r'' # dirs))))"
proof (intro conjI)
  have "snd (scan_units h) = (case run_capture h ''systemctl'' [''list-unit-files'', ''--no-legend'', ''--type=service''] False of
      CaptureDegraded reason \<Rightarrow> Some (degraded_class Unit ''systemctl'' reason) | _ \<Rightarrow> None)"
    unfolding scan_units_def by (auto split: capture_outcome.splits)
  then show "snd (scan_units h) = None \<longleftrightarrow> trusted_end (sh_run h ''systemctl'' [''list-unit-files'', ''--no-legend'', ''--type=service''])"
    by (simp only: degraded_iff)
  have "snd (scan_configs h lv) = (case run_capture h ''dpkg-query'' [''-W'', ''-f=${Conffiles}'' @ newline] False of
      CaptureDegraded reason \<Rightarrow> Some (degraded_class Config ''dpkg-query'' reason) | _ \<Rightarrow> None)"
    unfolding scan_configs_def Let_def snd_conv ..
  then show "snd (scan_configs h lv) = None \<longleftrightarrow> trusted_end (sh_run h ''dpkg-query'' [''-W'', ''-f=${Conffiles}'' @ newline])"
    by (simp only: degraded_iff)
  define dirs where "dirs = map utf8_lossy (filter (sh_is_dir h) (map (under_root lv) CAPFILE_SCAN_DIRS))"
  have "snd (scan_capfiles h lv) = (if dirs = [] then None else case run_capture h ''getcap'' (''-r'' # dirs) False of
      CaptureDegraded reason \<Rightarrow> Some (degraded_class CapFile ''getcap'' reason) | _ \<Rightarrow> None)"
    unfolding scan_capfiles_def Let_def dirs_def [symmetric] by (auto split: capture_outcome.splits)
  then have "snd (scan_capfiles h lv) = None \<longleftrightarrow> dirs = [] \<or> trusted_end (sh_run h ''getcap'' (''-r'' # dirs))"
    using degraded_iff [where h = h and program = "''getcap''" and args = "''-r'' # dirs" and d = "degraded_class CapFile ''getcap''"] by simp
  then show "snd (scan_capfiles h lv) = None \<longleftrightarrow>
      (let dirs = map utf8_lossy (filter (sh_is_dir h) (map (under_root lv) CAPFILE_SCAN_DIRS)) in
       dirs = [] \<or> trusted_end (sh_run h ''getcap'' (''-r'' # dirs)))"
    by (simp add: dirs_def Let_def)
qed

text \<open>
  The scan of the binaries fails exactly when directories are configured and none can be read; it
  reports a binary once, whatever the number of links to it.
\<close>

lemma scan_bin_entries_distinct:
  "distinct (map so_key out) \<Longrightarrow> distinct (map so_key (fold (scan_bin_entry h full) nms out))"
  by (induction nms arbitrary: out) (auto simp: scan_bin_entry_def found_def Let_def)

lemma scan_bin_dirs:
  "distinct (map so_key (fst st)) \<Longrightarrow>
   distinct (map so_key (fst (fold (scan_bin_dir h lv) ds st)))
   \<and> snd (fold (scan_bin_dir h lv) ds st) = (snd st \<or> list_ex (\<lambda>d. \<not> isl (sh_read_dir h (under_root lv d))) ds)"
proof (induction ds arbitrary: st)
  case (Cons d ds)
  have "distinct (map so_key (fst (scan_bin_dir h lv d st)))"
    using Cons.prems by (auto simp: scan_bin_dir_def Let_def scan_bin_entries_distinct split: sum.splits)
  moreover have "snd (scan_bin_dir h lv d st) = (snd st \<or> \<not> isl (sh_read_dir h (under_root lv d)))"
    by (auto simp: scan_bin_dir_def Let_def split: sum.splits)
  ultimately show ?case using Cons.IH [of "scan_bin_dir h lv d st"] by simp
qed simp

theorem scan_sudo_bins_honest:
  "case scan_sudo_bins h lv of
     Err _ \<Rightarrow> lv_sudo_bin_dirs lv \<noteq> [] \<and> list_all (\<lambda>d. isl (sh_read_dir h (under_root lv d))) (lv_sudo_bin_dirs lv)
   | Ok out \<Rightarrow> distinct (map so_key out)
       \<and> (lv_sudo_bin_dirs lv = [] \<or> list_ex (\<lambda>d. \<not> isl (sh_read_dir h (under_root lv d))) (lv_sudo_bin_dirs lv))"
  using scan_bin_dirs [where st = "([], False)" and h = h and lv = lv and ds = "lv_sudo_bin_dirs lv"]
  by (auto simp: scan_sudo_bins_def split_beta list_all_iff list_ex_iff)

subsection \<open>Where an owner comes from\<close>

lemma merge_dpkg_owners_from:
  "merge_dpkg_owners pairs m p = Some pkg \<Longrightarrow> m p = Some pkg \<or> (p, pkg) \<in> set pairs"
proof (induction pairs arbitrary: m)
  case (Cons x pairs)
  obtain q k where x: "x = (q, k)" by (cases x)
  have "merge_dpkg_owners pairs (if m q = None then m(q \<mapsto> k) else m) p = Some pkg"
    using Cons.prems by (simp add: merge_dpkg_owners_def x)
  from Cons.IH [OF this] show ?case by (auto simp: x split: if_splits)
qed (simp add: merge_dpkg_owners_def)

lemma search_chunks_from:
  "fold (search_chunk h) cs m p = Some pkg \<Longrightarrow>
   m p = Some pkg \<or> (\<exists>c \<in> set cs. \<exists>s. run_capture h ''dpkg'' (''-S'' # c) True = CaptureOk s \<and> (p, pkg) \<in> set (parse_dpkg_search s))"
proof (induction cs arbitrary: m)
  case (Cons c cs)
  from Cons.IH [of "search_chunk h c m"] Cons.prems
  consider "search_chunk h c m p = Some pkg"
    | "\<exists>c \<in> set cs. \<exists>s. run_capture h ''dpkg'' (''-S'' # c) True = CaptureOk s \<and> (p, pkg) \<in> set (parse_dpkg_search s)" by auto
  then show ?case
  proof cases
    case 1
    then show ?thesis
      by (auto simp: search_chunk_def dest: merge_dpkg_owners_from split: capture_outcome.splits)
  qed auto
qed simp

text \<open>
  The scan loses no object and keeps their order, and an object that is not an orphan any more is owned
  by a package that some run of the package manager printed for exactly its path.
\<close>

theorem provenance_grounded:
  "map so_key (resolve_provenance h objects) = map so_key objects
   \<and> (\<forall>i < length objects. so_provenance (resolve_provenance h objects ! i) = so_provenance (objects ! i)
       \<or> (\<exists>c s pkg. run_capture h ''dpkg'' (''-S'' # c) True = CaptureOk s \<and> (so_key (objects ! i), pkg) \<in> set (parse_dpkg_search s)
            \<and> so_provenance (resolve_provenance h objects ! i) = classify_owner pkg))"
proof -
  let ?o = "fold (search_chunk h) (chunks DPKG_SEARCH_CHUNK (map so_key (filter (\<lambda>o1. starts_with (so_key o1) ''/'') objects))) Map.empty"
  let ?f = "\<lambda>o1. case ?o (so_key o1) of Some pkg \<Rightarrow> o1\<lparr>so_provenance := classify_owner pkg\<rparr> | None \<Rightarrow> o1"
  have r: "resolve_provenance h objects = map ?f objects" unfolding resolve_provenance_def Let_def ..
  have prov: "so_provenance (?f o1) = so_provenance o1
      \<or> (\<exists>c s pkg. run_capture h ''dpkg'' (''-S'' # c) True = CaptureOk s \<and> (so_key o1, pkg) \<in> set (parse_dpkg_search s)
           \<and> so_provenance (?f o1) = classify_owner pkg)" for o1
  proof (cases "?o (so_key o1)")
    case (Some pkg)
    from search_chunks_from [OF this] obtain c s where
      "run_capture h ''dpkg'' (''-S'' # c) True = CaptureOk s" "(so_key o1, pkg) \<in> set (parse_dpkg_search s)" by auto
    then show ?thesis using Some by auto
  qed simp
  have keys: "map so_key (map ?f objects) = map so_key objects" by (auto split: option.splits)
  show ?thesis
  proof (intro conjI allI impI)
    show "map so_key (resolve_provenance h objects) = map so_key objects" unfolding r by (rule keys)
    fix i
    assume "i < length objects"
    then have "resolve_provenance h objects ! i = ?f (objects ! i)" unfolding r by (rule nth_map)
    then show "so_provenance (resolve_provenance h objects ! i) = so_provenance (objects ! i)
       \<or> (\<exists>c s pkg. run_capture h ''dpkg'' (''-S'' # c) True = CaptureOk s \<and> (so_key (objects ! i), pkg) \<in> set (parse_dpkg_search s)
            \<and> so_provenance (resolve_provenance h objects ! i) = classify_owner pkg)"
      using prov [of "objects ! i"] by (simp only:)
  qed
qed

end
