(* ===== verification/Spec2Isabelle.thy ===== *)
theory Spec2Isabelle
  imports Production Status Posture Coverage_Scan
begin

text \<open>
  Census provisions role accounts on a Linux host from one declaration.  This development
  models the program's enforcement path, from the declaration file to the mutated host, and
  proves what makes it safe: only a trusted declaration is applied, only gated privileges are
  granted, nothing is mutated before every check has passed, a failed phase is rolled back, an
  account with a live session is not deleted, and an apply that has nothing to do does nothing.

  \<^bold>\<open>How the program is put together.\<close>  \<^verbatim>\<open>src/apply.rs\<close> drives the rest.  It asks \<^verbatim>\<open>trust.rs\<close>
  whether the declaration may be used, resolves it (\<^verbatim>\<open>declaration.rs\<close>, \<^verbatim>\<open>rolestore.rs\<close>,
  \<^verbatim>\<open>model.rs\<close>, \<^verbatim>\<open>catalog.rs\<close>) into target accounts and groups, checks that the file-access
  backend (\<^verbatim>\<open>fileaccess.rs\<close>) can enforce every grant, plans against the registry
  (\<^verbatim>\<open>state.rs\<close>, \<^verbatim>\<open>plan.rs\<close>), defers deletions of accounts in use (\<^verbatim>\<open>sessions.rs\<close>), passes the
  lockout gate (\<^verbatim>\<open>lockout.rs\<close>), takes a snapshot (\<^verbatim>\<open>backup.rs\<close>), and then runs the phases
  through the provisioner (\<^verbatim>\<open>mutate.rs\<close>, \<^verbatim>\<open>sudoers.rs\<close>) and the backend, rolling both back when
  an operation fails.  The registry is written last.

  \<^bold>\<open>The theories.\<close>
  \<^item> \<open>Census_Prelude\<close>: results, loops that may stop with an error, state-passing computations and
    their triples, ordered maps with the interface of \<open>BTreeMap\<close> (locale \<open>ordered_map\<close>,
    interpreted on sorted association lists).
  \<^item> \<open>Rust_Str\<close>: strings as UTF-8 bytes with the \<open>str\<close> and \<open>Path\<close> functions the source uses.
  \<^item> \<open>Catalog_Grants\<close>: \<^verbatim>\<open>catalog.rs\<close>, access sets and their text forms, the path, command and
    run-as gates, and the union of grants.
  \<^item> \<open>Permission\<close>, \<open>Template\<close>, \<open>Expand\<close>, \<open>Catalog\<close>: the rest of \<^verbatim>\<open>catalog.rs\<close>.  \<open>Permission\<close> has
    the policy record, its parameter constraints and its validation; \<open>Template\<close> the substitution
    of parameters with its gates; \<open>Expand\<close> the layer merge, bundles and bound includes;
    \<open>Catalog\<close> the target detection, the reader of the catalog directories and the contract of a
    source (locale \<open>checked_source\<close>, interpreted on the live and on the in-memory source).
  \<^item> \<open>Domain\<close>, \<open>Declaration\<close>: the records of \<^verbatim>\<open>model.rs\<close>, \<^verbatim>\<open>rolestore.rs\<close>, \<^verbatim>\<open>state.rs\<close>; the
    declaration, its validation, the required groups and loading the registry.
  \<^item> \<open>Plan\<close>: \<^verbatim>\<open>plan.rs\<close>, the account diff, the group-existence diff and the group-grant diff.
  \<^item> \<open>Gates\<close>: \<^verbatim>\<open>lockout.rs\<close> and \<^verbatim>\<open>sessions.rs\<close>.
  \<^item> \<open>Fs\<close>: regular files and the \<open>std::fs\<close> calls on them, each of which may fail by the world's
    fault schedule and may leave a partial write.
  \<^item> \<open>Backup\<close>: \<^verbatim>\<open>backup.rs\<close>.  \<open>Trust\<close>: \<^verbatim>\<open>trust.rs\<close>.  \<open>Sudoers\<close>: \<^verbatim>\<open>sudoers.rs\<close>.
  \<^item> \<open>Resolve\<close>: \<^verbatim>\<open>model.rs\<close>, the resolution of accounts and groups over a role store and the
    catalog.
  \<^item> \<open>FileAccess\<close>: \<^verbatim>\<open>fileaccess.rs\<close>, argument vectors, the resolution of grant paths over a
    directory tree with symbolic links, the ACL backend and capability routing.
  \<^item> \<open>Provision\<close>: \<^verbatim>\<open>mutate.rs\<close>, argument vectors and the shadow-utils provisioner.
  \<^item> \<open>Reconcile\<close>: the pure parts of \<^verbatim>\<open>apply.rs\<close>, deferral, touched paths, rebuilt registry.
  \<^item> \<open>Apply\<close>: the run of \<^verbatim>\<open>apply.rs\<close> over two interfaces, records of operations as the source
    has trait objects.  The locale \<open>transaction\<close> is the contract between the run and these
    interfaces, \<open>snapshotting\<close> extends it with the snapshots.
  \<^item> \<open>Production\<close>: the interfaces of a production host, the interpretation of the contract on
    them, and the properties of whole runs.
  \<^item> \<open>Inspect\<close>: \<^verbatim>\<open>inspect.rs\<close>, the live inspector over the answers of \<^verbatim>\<open>getent\<close>, \<^verbatim>\<open>getfacl\<close> and
    the shadow file.  \<open>Doctor\<close>: \<^verbatim>\<open>doctor.rs\<close>, every check of the host audit.
  \<^item> \<open>Localization\<close>: \<^verbatim>\<open>l10n.rs\<close>, the texts of permissions and controls (locale \<open>text_source\<close>, interpreted
    on the source on disk and on the one in memory).  \<open>Framework\<close>: \<^verbatim>\<open>framework.rs\<close>, the cross-reference
    to compliance controls with its two indices and its lint.  \<open>Coverage\<close>: the pure core of
    \<^verbatim>\<open>coverage.rs\<close>, what the catalog covers of the privileged surface, and the reverse lookup.
    \<open>Coverage_Scan\<close>: its live scanner, the parsers and the outcome of a tool run.  \<open>Status\<close>: \<^verbatim>\<open>status.rs\<close>.
  \<^item> \<open>Exposure_Access\<close>, \<open>Exposure_Taxonomy\<close>, \<open>Exposure_Index\<close>, \<open>Exposure_Reach\<close>, \<open>Exposure\<close>, \<open>Posture\<close>:
    the access audit under \<^verbatim>\<open>src/exposure\<close>.  \<open>Exposure_Access\<close> has the ACL dumps and the access check
    (\<^verbatim>\<open>acl.rs\<close>, \<^verbatim>\<open>access.rs\<close>), \<open>Exposure_Taxonomy\<close> classes, risks, advice and the mandatory layer
    (\<^verbatim>\<open>taxonomy.rs\<close>, \<^verbatim>\<open>mac.rs\<close>), \<open>Exposure_Index\<close> the walk of the scan roots (\<^verbatim>\<open>scope.rs\<close>,
    \<^verbatim>\<open>mounts.rs\<close>, \<^verbatim>\<open>index.rs\<close>), \<open>Exposure_Reach\<close> the index and the reachability pass (\<^verbatim>\<open>index.rs\<close>,
    \<^verbatim>\<open>reach.rs\<close>), \<open>Exposure\<close> the report for one principal (\<^verbatim>\<open>config.rs\<close>, \<^verbatim>\<open>expose.rs\<close>), \<open>Posture\<close> the
    audit of the whole index and the two commands (\<^verbatim>\<open>fs_audit.rs\<close>, \<^verbatim>\<open>cli/audit.rs\<close>).

  \<^bold>\<open>State and effects.\<close>  A Rust struct is a record, an enum a datatype, a \<open>u32\<close> a \<open>32 word\<close>.
  A fallible function returns a sum whose left side is the error.  Code with effects is a
  function from a world to a result and a world; the world holds the files, the clock, the fault
  schedules and the outside state that programs change.  A host is a world with the private
  state of the provisioner and of the backend.

  \<^bold>\<open>What the lemmas show.\<close>  Every component has its functional contract: validation accepts
  exactly the well-formed declarations, the plans create, change and delete exactly what they
  should, routing and grouping agree with their reference definitions, encodings read back.  The
  safety properties span components: what a resolved account may run and touch, what a live
  sudoers fragment may hold, what a rollback gives back, what a run does before its gates pass.
  The audit is complete and sound over its index: the walk records exactly what is in scope, the
  access check is the algorithm of \<open>acl(5)\<close>, and a report holds exactly the excess access.  The
  cross-reference holds exactly the union of its files, and only a concrete grant counts as coverage.

  \<^bold>\<open>Bounds.\<close>  Path resolution follows at most 40 symbolic links, as the kernel does; running out
  is the error the kernel gives.  Bundles nest at most 64 deep (\<open>MAX_INCLUDE_DEPTH\<close>), the limit
  of the source; it is the termination measure of \<open>resolve_inner\<close>.  The walk of the audit enters a
  directory inode at most once, so the inodes not yet visited bound its turns.  Every other
  recursion is on a list or on the length of a text.

  \<^bold>\<open>Parameters.\<close>  Parsing and printing TOML and JSON, ed25519 and hex decoding, the programs that
  are run (shadow-utils, \<^verbatim>\<open>visudo\<close>, \<^verbatim>\<open>setfacl\<close>, \<^verbatim>\<open>getfacl\<close>, \<^verbatim>\<open>getent\<close>), the system inspector, the
  directory trees, and the file system the audit scans, whose answers may change from call to call,
  are arguments of the definitions, and so is the text of a floating-point parameter.  Hypotheses
  about them are named: \<open>visudo_only_checks\<close>, \<open>tools_keep\<close>, \<open>setfacl_keeps_bytes\<close>, \<open>getent_serves\<close>,
  \<open>getfacl_serves\<close>, and for the walk \<open>steady\<close> and \<open>unaliased\<close>.

  \<^bold>\<open>Not modelled.\<close>  The walk for setuid files of \<^verbatim>\<open>coverage.rs\<close>, whose end depends on the depth of the
  tree, the command line beyond the audit commands (argument parsing, printing and wiring),
  floating-point division, directory entries and symbolic links in the file store of \<open>Fs\<close>, and
  concurrent writers.
\<close>

end
